(* ===== verification/KV_Prelude.thy ===== *)
theory KV_Prelude
  imports Complex_Main "HOL-Library.AList" "HOL-Library.List_Lexorder"
begin

text \<open>
  Shared vocabulary of the development: Python's \<open>str\<close> and \<open>dict\<close>, the result types of
  fallible code, the theorem collections, and the generic list facts every component uses.

  A Python \<open>str\<close> is its list of code points, so \<open>==\<close>, \<open>+\<close> and \<open><\<close> on strings are equality,
  append and the lexicographic order of the lists.  A Python \<open>dict\<close> remembers insertion order:
  it is an association list with distinct keys, a store to a present key replaces in place and
  a store to a new key appends at the end (\<^const>\<open>AList.update\<close>), \<open>pop\<close> removes
  (\<^const>\<open>AList.delete\<close>).
\<close>

section \<open>Strings and dictionaries\<close>

type_synonym str = "nat list"

definition lit :: "string \<Rightarrow> str" where
  "lit s = map of_char s"

type_synonym ('k, 'v) dict = "('k \<times> 'v) list"

definition dict_ok :: "('k, 'v) dict \<Rightarrow> bool" where
  "dict_ok d \<longleftrightarrow> distinct (map fst d)"

abbreviation dict_get :: "('k, 'v) dict \<Rightarrow> 'k \<Rightarrow> 'v option" where
  "dict_get d k \<equiv> map_of d k"

abbreviation dict_set :: "'k \<Rightarrow> 'v \<Rightarrow> ('k, 'v) dict \<Rightarrow> ('k, 'v) dict" where
  "dict_set k v d \<equiv> AList.update k v d"

abbreviation dict_pop :: "'k \<Rightarrow> ('k, 'v) dict \<Rightarrow> ('k, 'v) dict" where
  "dict_pop k d \<equiv> AList.delete k d"

abbreviation dict_keys :: "('k, 'v) dict \<Rightarrow> 'k list" where
  "dict_keys d \<equiv> map fst d"

section \<open>Theorem collections\<close>

named_theorems inv_intro \<open>preservation of a component's invariant by its operations\<close>
named_theorems frame_simps \<open>fields an operation leaves alone\<close>
named_theorems dict_simps \<open>lookups after updates of dictionaries\<close>

section \<open>Dictionaries\<close>

lemma dict_ok_Nil [simp]: "dict_ok []"
  by (simp add: dict_ok_def)

lemma dict_ok_set [simp]: "dict_ok d \<Longrightarrow> dict_ok (dict_set k v d)"
  by (simp add: dict_ok_def distinct_update)

lemma dict_ok_pop [simp]: "dict_ok d \<Longrightarrow> dict_ok (dict_pop k d)"
  by (simp add: dict_ok_def distinct_delete)

lemma dict_get_set [simp, dict_simps]:
  "dict_get (dict_set k v d) k' = (if k' = k then Some v else dict_get d k')"
  by (simp add: update_conv')

lemma dict_get_pop [simp, dict_simps]:
  "dict_get (dict_pop k d) k' = (if k' = k then None else dict_get d k')"
  by (simp add: delete_conv')

lemma dict_keys_iff: "k \<in> fst ` set d \<longleftrightarrow> dict_get d k \<noteq> None"
  by (simp add: map_of_eq_None_iff)

lemma dict_mem_iff: "dict_ok d \<Longrightarrow> (k, v) \<in> set d \<longleftrightarrow> dict_get d k = Some v"
  by (auto simp: dict_ok_def)

lemma dict_set_new: "dict_get d k = None \<Longrightarrow> dict_set k v d = d @ [(k, v)]"
  by (induction d) (auto split: if_splits)

lemma dict_keys_set_old: "dict_get d k \<noteq> None \<Longrightarrow> dict_keys (dict_set k v d) = dict_keys d"
  by (induction d) (auto split: if_splits)

lemma dict_keys_pop: "dict_keys (dict_pop k d) = filter (\<lambda>x. x \<noteq> k) (dict_keys d)"
  by (induction d) auto

lemma keys_dict_pop: "fst ` set (dict_pop k d) = fst ` set d - {k}"
  by (induction d) auto

lemma keys_dict_set: "fst ` set (dict_set k v d) = insert k (fst ` set d)"
  by (simp add: dom_update)

lemma dict_pop_absent: "dict_get d k = None \<Longrightarrow> dict_pop k d = d"
  by (simp add: map_of_eq_None_iff)

lemma length_dict_pop:
  "dict_ok d \<Longrightarrow> dict_get d k = Some v \<Longrightarrow> Suc (length (dict_pop k d)) = length d"
proof (induction d)
  case (Cons a d)
  show ?case
  proof (cases "fst a = k")
    case True
    with Cons.prems have "dict_get d k = None"
      by (auto simp: dict_ok_def map_of_eq_None_iff)
    with True show ?thesis by (simp add: dict_pop_absent)
  next
    case False
    with Cons show ?thesis by (auto simp: dict_ok_def split: if_splits)
  qed
qed simp

lemma length_dict_set:
  "length (dict_set k v d) = (if dict_get d k = None then Suc (length d) else length d)"
proof (cases "dict_get d k = None")
  case True
  then show ?thesis by (simp add: dict_set_new)
next
  case False
  then have "length (dict_keys (dict_set k v d)) = length (dict_keys d)"
    by (rule dict_keys_set_old [THEN arg_cong])
  with False show ?thesis by simp
qed

text \<open>Sums over the entries of a dictionary, the shape of every memory account.\<close>

lemma sum_dict_set_new:
  "dict_get d k = None \<Longrightarrow> sum_list (map g (dict_set k v d)) = sum_list (map g d) + (g (k, v) :: int)"
  by (simp add: dict_set_new)

lemma sum_dict_set_old:
  "dict_ok d \<Longrightarrow> dict_get d k = Some w \<Longrightarrow>
   sum_list (map g (dict_set k v d)) = sum_list (map g d) - g (k, w) + (g (k, v) :: int)"
proof (induction d)
  case (Cons a d)
  show ?case
  proof (cases "fst a = k")
    case True
    with Cons.prems show ?thesis by (cases a) (auto simp: dict_ok_def)
  next
    case False
    with Cons show ?thesis by (cases a) (auto simp: dict_ok_def)
  qed
qed simp

lemma sum_dict_pop:
  "dict_ok d \<Longrightarrow> dict_get d k = Some w \<Longrightarrow>
   sum_list (map g (dict_pop k d)) = sum_list (map g d) - (g (k, w) :: int)"
proof (induction d)
  case (Cons a d)
  show ?case
  proof (cases "fst a = k")
    case True
    with Cons.prems have "dict_get d k = None"
      by (auto simp: dict_ok_def map_of_eq_None_iff)
    with True Cons.prems show ?thesis by (cases a) (auto simp: dict_pop_absent)
  next
    case False
    with Cons show ?thesis by (cases a) (auto simp: dict_ok_def)
  qed
qed simp

section \<open>Lists\<close>

lemma distinct_list_update_last:
  "distinct (xs @ [y]) \<Longrightarrow> i < length xs \<Longrightarrow> distinct (xs[i := y])"
  by (simp add: distinct_list_update)

lemma set_list_update_last:
  "distinct (xs @ [y]) \<Longrightarrow> i < length xs \<Longrightarrow> set (xs[i := y]) = insert y (set xs - {xs ! i})"
  by (auto simp: set_update_distinct)

end
