(* ===== verification/Codec.thy ===== *)
theory Codec
  imports KV_Prelude "HOL-Library.Word"
begin

text \<open>
  \<open>core/codec.py\<close> and what it uses of the standard library: bytes, UTF-8 with the
  \<open>surrogateescape\<close> handler, and the CRC-32 of \<open>zlib\<close>.  A \<open>bytes\<close> object is its list of byte
  values.
\<close>

type_synonym bytes = "nat list"

definition bytes_ok :: "bytes \<Rightarrow> bool" where
  "bytes_ok bs \<longleftrightarrow> (\<forall>b \<in> set bs. b < 256)"

section \<open>UTF-8\<close>

text \<open>One character; \<open>None\<close> is \<open>UnicodeEncodeError\<close> (a surrogate that stands for no byte).\<close>

definition enc_char :: "nat \<Rightarrow> bytes option" where
  "enc_char c =
     (if c < 128 then Some [c]
      else if c < 2048 then Some [192 + c div 64, 128 + c mod 64]
      else if 56448 \<le> c \<and> c \<le> 56575 then Some [c - 56320]
      else if 55296 \<le> c \<and> c \<le> 57343 then None
      else if c < 65536 then Some [224 + c div 4096, 128 + c div 64 mod 64, 128 + c mod 64]
      else if c < 1114112 then Some [240 + c div 262144, 128 + c div 4096 mod 64, 128 + c div 64 mod 64, 128 + c mod 64]
      else None)"

primrec to_bytes :: "str \<Rightarrow> bytes option" where
  "to_bytes [] = Some []"
| "to_bytes (c # cs) =
     (case enc_char c of None \<Rightarrow> None | Some bs \<Rightarrow> map_option ((@) bs) (to_bytes cs))"

definition cont :: "nat \<Rightarrow> nat \<Rightarrow> nat \<Rightarrow> bool" where
  "cont lo hi b \<longleftrightarrow> lo \<le> b \<and> b \<le> hi"

text \<open>
  Decoding reads a well-formed sequence as its character and any other byte as the surrogate
  that stands for it.
\<close>

fun to_str :: "bytes \<Rightarrow> str" where
  "to_str [] = []"
| "to_str (a # rest) =
     (if a < 128 then a # to_str rest
      else case rest of
        b # rest1 \<Rightarrow>
          if cont 194 223 a \<and> cont 128 191 b then ((a - 192) * 64 + (b - 128)) # to_str rest1
          else (case rest1 of
            c # rest2 \<Rightarrow>
              if (a = 224 \<and> cont 160 191 b \<or> cont 225 236 a \<and> cont 128 191 b \<or> a = 237 \<and> cont 128 159 b
                  \<or> cont 238 239 a \<and> cont 128 191 b) \<and> cont 128 191 c
              then ((a - 224) * 4096 + (b - 128) * 64 + (c - 128)) # to_str rest2
              else (case rest2 of
                d # rest3 \<Rightarrow>
                  if (a = 240 \<and> cont 144 191 b \<or> cont 241 243 a \<and> cont 128 191 b \<or> a = 244 \<and> cont 128 143 b)
                      \<and> cont 128 191 c \<and> cont 128 191 d
                  then ((a - 240) * 262144 + (b - 128) * 4096 + (c - 128) * 64 + (d - 128)) # to_str rest3
                  else (56320 + a) # to_str rest
              | [] \<Rightarrow> (56320 + a) # to_str rest)
          | [] \<Rightarrow> (56320 + a) # to_str rest)
      | [] \<Rightarrow> (56320 + a) # to_str rest)"

declare to_str.simps(2) [simp del]

lemma to_str_ascii: "a < 128 \<Longrightarrow> to_str (a # rest) = a # to_str rest"
  by (simp add: to_str.simps(2))

lemma enc_escaped: "128 \<le> a \<Longrightarrow> a < 256 \<Longrightarrow> enc_char (56320 + a) = Some [a]"
  by (simp add: enc_char_def)

text \<open>Reading off base-64 digits.\<close>

lemma base64_1:
  assumes "y < (64 :: nat)"
  shows "(x * 64 + y) div 64 = x" "(x * 64 + y) mod 64 = y"
  using assms by simp_all

lemma base64_2:
  assumes "y < 64" "z < (64 :: nat)"
  shows "(x * 4096 + y * 64 + z) div 4096 = x" "(x * 4096 + y * 64 + z) div 64 mod 64 = y" "(x * 4096 + y * 64 + z) mod 64 = z"
    "(x * 4096 + y * 64 + z) div 64 = x * 64 + y"
proof -
  have eq: "x * 4096 + y * 64 + z = (x * 64 + y) * 64 + z" by simp
  show d: "(x * 4096 + y * 64 + z) div 64 = x * 64 + y" and "(x * 4096 + y * 64 + z) mod 64 = z"
    unfolding eq by (rule base64_1 [OF assms(2)])+
  show "(x * 4096 + y * 64 + z) div 64 mod 64 = y" unfolding d using base64_1 [OF assms(1)] by simp
  have "(x * 4096 + y * 64 + z) div 4096 = (x * 4096 + y * 64 + z) div 64 div 64" by (simp add: div_mult2_eq [symmetric])
  then show "(x * 4096 + y * 64 + z) div 4096 = x" unfolding d using base64_1 [OF assms(1)] by simp
qed

lemma base64_3:
  assumes "y < 64" "z < 64" "w < (64 :: nat)"
  shows "(x * 262144 + y * 4096 + z * 64 + w) div 262144 = x" "(x * 262144 + y * 4096 + z * 64 + w) div 4096 mod 64 = y"
    "(x * 262144 + y * 4096 + z * 64 + w) div 64 mod 64 = z" "(x * 262144 + y * 4096 + z * 64 + w) mod 64 = w"
proof -
  let ?v = "x * 262144 + y * 4096 + z * 64 + w"
  have eq: "?v = (x * 4096 + y * 64 + z) * 64 + w" by simp
  have d: "?v div 64 = x * 4096 + y * 64 + z" and "?v mod 64 = w"
    unfolding eq by (rule base64_1 [OF assms(3)])+
  then show "?v mod 64 = w" by simp
  show "?v div 64 mod 64 = z" unfolding d using base64_2 [OF assms(1,2)] by simp
  have "?v div 4096 = ?v div 64 div 64" by (simp add: div_mult2_eq [symmetric])
  then show "?v div 4096 mod 64 = y" unfolding d using base64_2 [OF assms(1,2)] by simp
  have "?v div 262144 = ?v div 64 div 4096" by (simp add: div_mult2_eq [symmetric])
  then show "?v div 262144 = x" unfolding d using base64_2 [OF assms(1,2)] by simp
qed

lemma enc_two:
  assumes "cont 194 223 a" "cont 128 191 b"
  shows "enc_char ((a - 192) * 64 + (b - 128)) = Some [a, b]"
proof -
  obtain x y where "a = 192 + x" "2 \<le> x" "x < 32" "b = 128 + y" "y < 64"
    using assms by (auto simp: cont_def intro: that [of "a - 192" "b - 128"])
  then show ?thesis using base64_1 [of y x] by (simp add: enc_char_def)
qed

lemma enc_three:
  assumes "a = 224 \<and> cont 160 191 b \<or> cont 225 236 a \<and> cont 128 191 b \<or> a = 237 \<and> cont 128 159 b
    \<or> cont 238 239 a \<and> cont 128 191 b" "cont 128 191 c"
  shows "enc_char ((a - 224) * 4096 + (b - 128) * 64 + (c - 128)) = Some [a, b, c]"
proof -
  obtain x y z where e: "a = 224 + x" "b = 128 + y" "c = 128 + z" "x < 16" "y < 64" "z < 64"
    and r: "x = 0 \<longrightarrow> 32 \<le> y" "x = 13 \<longrightarrow> y < 32"
    using assms by (auto simp: cont_def intro: that [of "a - 224" "b - 128" "c - 128"])
  let ?v = "x * 4096 + y * 64 + z"
  have "2048 \<le> ?v" "?v < 65536" "\<not> (55296 \<le> ?v \<and> ?v \<le> 57343)" "\<not> (56448 \<le> ?v \<and> ?v \<le> 56575)"
  proof -
    consider "x = 0" | "1 \<le> x" "x \<le> 12" | "x = 13" | "14 \<le> x" by linarith
    then show "2048 \<le> ?v" using e(4-6) r by cases linarith+
    show "?v < 65536" using e(4-6) by linarith
    consider "x \<le> 12" | "x = 13" | "14 \<le> x" by linarith
    then have "?v < 55296 \<or> 57343 < ?v" using e(4-6) r by cases linarith+
    then show "\<not> (55296 \<le> ?v \<and> ?v \<le> 57343)" "\<not> (56448 \<le> ?v \<and> ?v \<le> 56575)" by linarith+
  qed
  then have "enc_char ?v = Some [224 + ?v div 4096, 128 + ?v div 64 mod 64, 128 + ?v mod 64]"
    by (auto simp: enc_char_def)
  then show ?thesis using base64_2 [of y z x] e by simp
qed

lemma enc_four:
  assumes "a = 240 \<and> cont 144 191 b \<or> cont 241 243 a \<and> cont 128 191 b \<or> a = 244 \<and> cont 128 143 b"
    "cont 128 191 c" "cont 128 191 d"
  shows "enc_char ((a - 240) * 262144 + (b - 128) * 4096 + (c - 128) * 64 + (d - 128)) = Some [a, b, c, d]"
proof -
  obtain x y z w where e: "a = 240 + x" "b = 128 + y" "c = 128 + z" "d = 128 + w" "x < 5" "y < 64" "z < 64" "w < 64"
    and r: "x = 0 \<longrightarrow> 16 \<le> y" "x = 4 \<longrightarrow> y < 16"
    using assms by (auto simp: cont_def intro: that [of "a - 240" "b - 128" "c - 128" "d - 128"])
  let ?v = "x * 262144 + y * 4096 + z * 64 + w"
  have "65536 \<le> ?v" using e(5-8) r by (cases "x = 0") linarith+
  moreover have "?v < 1114112" using e(5-8) r by (cases "x = 4") linarith+
  ultimately have "enc_char ?v = Some [240 + ?v div 262144, 128 + ?v div 4096 mod 64, 128 + ?v div 64 mod 64, 128 + ?v mod 64]"
    by (auto simp: enc_char_def)
  then show ?thesis using base64_3 [of y z w x] e by simp
qed

text \<open>A step of the decoder consumes the bytes that encode the character it produces.\<close>

lemma to_str_escape:
  "128 \<le> a \<Longrightarrow> a < 256 \<Longrightarrow> to_str (a # rest) = (56320 + a) # to_str rest \<Longrightarrow>
   \<exists>pre ys c. a # rest = pre @ ys \<and> pre \<noteq> [] \<and> to_str (a # rest) = c # to_str ys \<and> enc_char c = Some pre"
  using enc_escaped by (intro exI [of _ "[a]"] exI [of _ rest] exI [of _ "56320 + a"]) simp

lemma to_str_long:
  assumes a: "\<not> a < 128" "a < 256" and two: "\<not> (cont 194 223 a \<and> cont 128 191 b)"
    and three: "\<not> ((a = 224 \<and> cont 160 191 b \<or> cont 225 236 a \<and> cont 128 191 b \<or> a = 237 \<and> cont 128 159 b
      \<or> cont 238 239 a \<and> cont 128 191 b) \<and> cont 128 191 c)"
  shows "\<exists>pre ys x. a # b # c # zs = pre @ ys \<and> pre \<noteq> [] \<and> to_str (a # b # c # zs) = x # to_str ys \<and> enc_char x = Some pre"
proof (cases zs)
  case Nil
  have "to_str (a # b # c # zs) = (56320 + a) # to_str (b # c # zs)"
    unfolding Nil to_str.simps(2) [of a] list.case if_not_P [OF a(1)] if_not_P [OF two] if_not_P [OF three] ..
  then show ?thesis using a by (intro to_str_escape) simp_all
next
  case (Cons d ws)
  show ?thesis
  proof (cases "(a = 240 \<and> cont 144 191 b \<or> cont 241 243 a \<and> cont 128 191 b \<or> a = 244 \<and> cont 128 143 b)
      \<and> cont 128 191 c \<and> cont 128 191 d")
    case True
    have "to_str (a # b # c # zs) = ((a - 240) * 262144 + (b - 128) * 4096 + (c - 128) * 64 + (d - 128)) # to_str ws"
      unfolding Cons to_str.simps(2) [of a] list.case if_not_P [OF a(1)] if_not_P [OF two] if_not_P [OF three] if_P [OF True] ..
    then show ?thesis using enc_four [of a b c d] True Cons
      by (intro exI [of _ "[a, b, c, d]"] exI [of _ ws] exI) auto
  next
    case False
    have "to_str (a # b # c # zs) = (56320 + a) # to_str (b # c # zs)"
      unfolding Cons to_str.simps(2) [of a] list.case if_not_P [OF a(1)] if_not_P [OF two] if_not_P [OF three] if_not_P [OF False] ..
    then show ?thesis using a by (intro to_str_escape) simp_all
  qed
qed

lemma to_str_step:
  assumes "a < 256"
  shows "\<exists>pre ys c. a # rest = pre @ ys \<and> pre \<noteq> [] \<and> to_str (a # rest) = c # to_str ys \<and> enc_char c = Some pre"
proof (cases "a < 128")
  case True
  then show ?thesis by (intro exI [of _ "[a]"] exI [of _ rest] exI [of _ a]) (simp add: enc_char_def to_str_ascii)
next
  case a: False
  show ?thesis
  proof (cases rest)
    case Nil
    then show ?thesis using a assms by (intro to_str_escape) (simp_all add: to_str.simps(2))
  next
    case b: (Cons b ys)
    show ?thesis
    proof (cases "cont 194 223 a \<and> cont 128 191 b")
      case True
      have "to_str (a # rest) = ((a - 192) * 64 + (b - 128)) # to_str ys"
        unfolding b to_str.simps(2) [of a] list.case if_not_P [OF a] if_P [OF True] ..
      then show ?thesis using enc_two [of a b] True b
        by (intro exI [of _ "[a, b]"] exI [of _ ys] exI) auto
    next
      case two: False
      show ?thesis
      proof (cases ys)
        case Nil
        have "to_str (a # rest) = (56320 + a) # to_str rest"
          unfolding b Nil to_str.simps(2) [of a] list.case if_not_P [OF a] if_not_P [OF two] ..
        then show ?thesis using a assms by (intro to_str_escape) (simp_all add: to_str.simps(2))
      next
        case c: (Cons c zs)
        show ?thesis
        proof (cases "(a = 224 \<and> cont 160 191 b \<or> cont 225 236 a \<and> cont 128 191 b \<or> a = 237 \<and> cont 128 159 b
            \<or> cont 238 239 a \<and> cont 128 191 b) \<and> cont 128 191 c")
          case True
          have "to_str (a # rest) = ((a - 224) * 4096 + (b - 128) * 64 + (c - 128)) # to_str zs"
            unfolding b c to_str.simps(2) [of a] list.case if_not_P [OF a] if_not_P [OF two] if_P [OF True] ..
          then show ?thesis using enc_three [of a b c] True b c
            by (intro exI [of _ "[a, b, c]"] exI [of _ zs] exI) auto
        next
          case False
          show ?thesis using to_str_long [OF a assms two False, of zs] b c by simp
        qed
      qed
    qed
  qed
qed

text \<open>Any byte sequence, valid UTF-8 or not, survives decoding and encoding.\<close>

lemma to_bytes_to_str: "bytes_ok bs \<Longrightarrow> to_bytes (to_str bs) = Some bs"
proof (induction bs rule: length_induct)
  case (1 bs)
  show ?case
  proof (cases bs)
    case (Cons a rest)
    then have "a < 256" using "1.prems" by (simp add: bytes_ok_def)
    from to_str_step [OF this, of rest] obtain pre ys c where
      st: "bs = pre @ ys" "pre \<noteq> []" "to_str bs = c # to_str ys" "enc_char c = Some pre" using Cons by auto
    then have "to_bytes (to_str ys) = Some ys" using "1.IH" "1.prems" by (simp add: bytes_ok_def)
    then show ?thesis using st by simp
  qed simp
qed

lemma to_bytes_append:
  "to_bytes (a @ b) = (case to_bytes a of None \<Rightarrow> None | Some x \<Rightarrow> map_option ((@) x) (to_bytes b))"
  by (induction a) (cases "to_bytes b"; simp split: option.split)+

lemma enc_char_ok: "enc_char c = Some bs \<Longrightarrow> bytes_ok bs"
  by (auto simp: enc_char_def bytes_ok_def split: if_splits)

lemma to_bytes_ok: "to_bytes s = Some bs \<Longrightarrow> bytes_ok bs"
  by (induction s arbitrary: bs) (auto simp: bytes_ok_def dest!: enc_char_ok split: option.splits)

lemma to_bytes_ascii: "(\<And>c. c \<in> set s \<Longrightarrow> c < 128) \<Longrightarrow> to_bytes s = Some s"
  by (induction s) (auto simp: enc_char_def)

lemma to_str_ascii_all: "(\<And>b. b \<in> set bs \<Longrightarrow> b < 128) \<Longrightarrow> to_str bs = bs"
  by (induction bs) (auto simp: to_str_ascii)

text \<open>Text that arrived over the wire or from disk: only such text reaches the engine's commands.\<close>

definition wire_text :: "str \<Rightarrow> bool" where
  "wire_text s \<longleftrightarrow> (\<exists>bs. to_bytes s = Some bs \<and> to_str bs = s)"

lemma wire_to_str: "bytes_ok bs \<Longrightarrow> wire_text (to_str bs)"
  by (auto simp: wire_text_def to_bytes_to_str)

lemma wire_ascii: "(\<And>c. c \<in> set s \<Longrightarrow> c < 128) \<Longrightarrow> wire_text s"
  by (auto simp: wire_text_def to_bytes_ascii to_str_ascii_all)

section \<open>CRC-32\<close>

unbundle bit_operations_syntax

definition crc_bit :: "32 word \<Rightarrow> 32 word" where
  "crc_bit c = (if bit c 0 then drop_bit 1 c XOR 3988292384 else drop_bit 1 c)"

definition crc_byte :: "nat \<Rightarrow> 32 word \<Rightarrow> 32 word" where
  "crc_byte b c = (crc_bit ^^ 8) (c XOR word_of_nat b)"

text \<open>\<open>zlib.crc32(data, value)\<close>.\<close>

definition crc32_from :: "32 word \<Rightarrow> bytes \<Rightarrow> 32 word" where
  "crc32_from v data = NOT (fold crc_byte data (NOT v))"

definition crc32 :: "bytes \<Rightarrow> nat" where
  "crc32 data = unat (crc32_from 0 data)"

text \<open>The checksum of a buffer written in pieces is the checksum of the whole.\<close>

lemma crc32_from_append: "crc32_from (crc32_from v a) b = crc32_from v (a @ b)"
  by (simp add: crc32_from_def)

lemma crc32_less: "crc32 data < 2 ^ 32"
  using unsigned_less [of "crc32_from 0 data"] by (simp add: crc32_def)

end
