(* ===== verification/Py_Values.thy ===== *)
theory Py_Values
  imports KV_Prelude "HOL-Library.Log_Nat"
begin

text \<open>
  The Python values the source computes with: text case and whitespace, \<open>int\<close> and its text,
  \<open>float\<close> (IEEE binary64) and its text, and the size of a \<open>str\<close> object.
\<close>

section \<open>Text\<close>

text \<open>
  \<open>str.upper\<close>, as far as the source can tell: its result is only ever compared with ASCII names,
  so a character whose upper case is not ASCII stands for itself.  The ten non-ASCII characters
  whose upper case is ASCII (dotless i, long s, sharp s and the Latin ligatures) are listed.
\<close>

definition upper_char :: "nat \<Rightarrow> str" where
  "upper_char c =
     (if 97 \<le> c \<and> c \<le> 122 then [c - 32]
      else if c = 223 then lit ''SS''
      else if c = 305 then lit ''I''
      else if c = 383 then lit ''S''
      else if c = 64256 then lit ''FF''
      else if c = 64257 then lit ''FI''
      else if c = 64258 then lit ''FL''
      else if c = 64259 then lit ''FFI''
      else if c = 64260 then lit ''FFL''
      else if c = 64261 \<or> c = 64262 then lit ''ST''
      else [c])"

definition py_upper :: "str \<Rightarrow> str" where
  "py_upper s = concat (map upper_char s)"

definition is_space :: "nat \<Rightarrow> bool" where
  "is_space c \<longleftrightarrow> 9 \<le> c \<and> c \<le> 13 \<or> 28 \<le> c \<and> c \<le> 32 \<or> c = 133 \<or> c = 160 \<or> c = 5760
     \<or> 8192 \<le> c \<and> c \<le> 8202 \<or> c = 8232 \<or> c = 8233 \<or> c = 8239 \<or> c = 8287 \<or> c = 12288"

definition py_strip :: "str \<Rightarrow> str" where
  "py_strip s = rev (dropWhile is_space (rev (dropWhile is_space s)))"

section \<open>Integers and their text\<close>

text \<open>
  The code points of the Unicode decimal digits zero (category Nd); each is followed by the
  digits one to nine.  \<open>int()\<close> and \<open>float()\<close> accept all of them.
\<close>

definition digit_zeros :: "nat list" where
  "digit_zeros =
     [48, 1632, 1776, 1984, 2406, 2534, 2662, 2790, 2918, 3046, 3174, 3302, 3430, 3558, 3664,
      3792, 3872, 4160, 4240, 6112, 6160, 6470, 6608, 6784, 6800, 6992, 7088, 7232, 7248, 42528,
      43216, 43264, 43472, 43504, 43600, 44016, 65296, 66720, 68912, 69734, 69872, 69942, 70096,
      70384, 70736, 70864, 71248, 71360, 71472, 71904, 72016, 72784, 73040, 73120, 73552, 92768,
      92864, 93008, 120782, 120792, 120802, 120812, 120822, 123200, 123632, 124144, 125264, 130032]"

definition digit_value :: "nat \<Rightarrow> nat option" where
  "digit_value c = map_option (\<lambda>z. c - z) (find (\<lambda>z. z \<le> c \<and> c \<le> z + 9) digit_zeros)"

text \<open>Digits with single underscores between them, as in Python's number syntax.\<close>

fun scan_digits :: "str \<Rightarrow> nat list option" where
  "scan_digits [] = None"
| "scan_digits (c # cs) =
     (case digit_value c of
        None \<Rightarrow> None
      | Some d \<Rightarrow>
          (case cs of
             [] \<Rightarrow> Some [d]
           | u # cs' \<Rightarrow> map_option (Cons d) (if u = 95 then scan_digits cs' else scan_digits cs)))"

definition digits_num :: "nat list \<Rightarrow> nat" where
  "digits_num ds = foldl (\<lambda>a d. 10 * a + d) 0 ds"

fun scan_sign :: "str \<Rightarrow> bool \<times> str" where
  "scan_sign [] = (False, [])"
| "scan_sign (c # cs) = (if c = 45 then (True, cs) else if c = 43 then (False, cs) else (False, c # cs))"

text \<open>\<open>int(s)\<close>: \<open>None\<close> is \<open>ValueError\<close>, which also bounds the text to 4300 digits.\<close>

definition py_int :: "str \<Rightarrow> int option" where
  "py_int s =
     (case scan_sign (py_strip s) of (neg, body) \<Rightarrow>
        (case scan_digits body of
           None \<Rightarrow> None
         | Some ds \<Rightarrow>
             if 4300 < length ds then None
             else Some (if neg then - int (digits_num ds) else int (digits_num ds))))"

fun nat_text :: "nat \<Rightarrow> str" where
  "nat_text n = (if n < 10 then [48 + n] else nat_text (n div 10) @ [48 + n mod 10])"

declare nat_text.simps [simp del]

definition int_text :: "int \<Rightarrow> str" where
  "int_text n = (if n < 0 then 45 # nat_text (nat (- n)) else nat_text (nat n))"

subsection \<open>\<open>int(str(n)) == n\<close>\<close>

lemma digit_value_ascii: "d < 10 \<Longrightarrow> digit_value (48 + d) = Some d"
  by (simp add: digit_value_def digit_zeros_def)

lemma digit_value_not: "c < 48 \<Longrightarrow> digit_value c = None"
  by (simp add: digit_value_def digit_zeros_def)

lemma scan_digits_ascii:
  "ds \<noteq> [] \<Longrightarrow> (\<And>d. d \<in> set ds \<Longrightarrow> d < 10) \<Longrightarrow> scan_digits (map (\<lambda>d. 48 + d) ds) = Some ds"
proof (induction ds)
  case (Cons d ds)
  have "digit_value (48 + d) = Some d" using Cons.prems by (intro digit_value_ascii) simp
  moreover have "48 + e \<noteq> 95" if "e \<in> set ds" for e using Cons.prems(2) [of e] that by simp
  ultimately show ?case using Cons by (cases ds) auto
qed simp

fun nat_digits :: "nat \<Rightarrow> nat list" where
  "nat_digits n = (if n < 10 then [n] else nat_digits (n div 10) @ [n mod 10])"

declare nat_digits.simps [simp del]

lemma nat_text_digits: "nat_text n = map (\<lambda>d. 48 + d) (nat_digits n)"
proof (induction n rule: nat_text.induct)
  case (1 n)
  then show ?case by (subst nat_text.simps, subst nat_digits.simps) simp
qed

lemma nat_digits_ne [simp]: "nat_digits n \<noteq> []"
  by (subst nat_digits.simps) simp

lemma nat_digits_small: "d \<in> set (nat_digits n) \<Longrightarrow> d < 10"
proof (induction n rule: nat_digits.induct)
  case (1 n)
  then show ?case by (subst (asm) (2) nat_digits.simps) (auto split: if_splits)
qed

lemma digits_num_nat_digits: "digits_num (nat_digits n) = n"
proof (induction n rule: nat_digits.induct)
  case (1 n)
  then show ?case by (subst nat_digits.simps) (simp add: digits_num_def)
qed

lemma length_nat_digits: "n < 10 ^ k \<Longrightarrow> 0 < k \<Longrightarrow> length (nat_digits n) \<le> k"
proof (induction k arbitrary: n)
  case (Suc k)
  show ?case
  proof (cases "n < 10")
    case True
    then show ?thesis by (simp add: nat_digits.simps)
  next
    case False
    with Suc.prems have "n div 10 < 10 ^ k" "0 < k"
      by (auto simp: less_mult_imp_div_less intro: gr0I)
    with Suc.IH False show ?thesis by (simp add: nat_digits.simps [of n])
  qed
qed simp

lemma nat_text_ne [simp]: "nat_text n \<noteq> []"
  by (simp add: nat_text_digits)

lemma nat_text_range: "c \<in> set (nat_text n) \<Longrightarrow> 48 \<le> c \<and> c \<le> 57"
  by (auto simp: nat_text_digits dest: nat_digits_small)

lemma is_space_digit: "48 \<le> c \<Longrightarrow> c \<le> 57 \<Longrightarrow> \<not> is_space c"
  by (simp add: is_space_def)

lemma py_strip_id:
  "s \<noteq> [] \<Longrightarrow> \<not> is_space (hd s) \<Longrightarrow> \<not> is_space (last s) \<Longrightarrow> py_strip s = s"
  by (simp add: py_strip_def dropWhile_eq_self_iff [THEN iffD2] hd_rev)

lemma py_strip_int_text: "py_strip (int_text n) = int_text n"
proof (rule py_strip_id)
  show "int_text n \<noteq> []" by (simp add: int_text_def)
  have digit: "\<not> is_space c" if "c \<in> set (nat_text m)" for c m
    using nat_text_range [OF that] by (simp add: is_space_digit)
  show "\<not> is_space (hd (int_text n))" "\<not> is_space (last (int_text n))"
    using digit [of "hd (nat_text m)" m for m] digit [of "last (nat_text m)" m for m]
    by (auto simp: int_text_def) (simp add: is_space_def)
qed

lemma scan_sign_digits: "scan_sign (nat_text n) = (False, nat_text n)"
proof -
  obtain c cs where "nat_text n = c # cs" by (cases "nat_text n") auto
  with nat_text_range [of c n] show ?thesis by auto
qed

lemma py_int_text:
  assumes "\<bar>n\<bar> < 10 ^ k" "0 < k" "k \<le> 4300"
  shows "py_int (int_text n) = Some n"
proof -
  have scan: "scan_digits (nat_text m) = Some (nat_digits m)" for m
    by (simp only: nat_text_digits) (rule scan_digits_ascii, auto dest: nat_digits_small)
  have "nat \<bar>n\<bar> < 10 ^ k"
    using assms(1) by (simp add: nat_less_iff)
  then have "length (nat_digits (nat \<bar>n\<bar>)) \<le> 4300"
    using length_nat_digits assms(2,3) le_trans by blast
  moreover have "scan_sign (int_text n) = (n < 0, nat_text (nat \<bar>n\<bar>))"
    by (simp add: int_text_def scan_sign_digits)
  ultimately show ?thesis
    by (simp add: py_int_def py_strip_int_text scan digits_num_nat_digits)
qed

section \<open>Floats\<close>

text \<open>
  IEEE binary64.  A finite float is the rational it denotes; the two zeros are one value, which
  no operation of the source tells apart (comparisons equate them and both print as 0).
  \<open>round64\<close> is rounding to nearest, ties to even, with gradual underflow and overflow to
  infinity, so every arithmetic operation is the exact one followed by \<open>round64\<close>.
\<close>

datatype pyfloat = NegInf | Fin rat | PosInf | NaN

fun pyfloat_le :: "pyfloat \<Rightarrow> pyfloat \<Rightarrow> bool" where
  "pyfloat_le NegInf y = True"
| "pyfloat_le (Fin x) NegInf = False"
| "pyfloat_le (Fin x) (Fin y) = (x \<le> y)"
| "pyfloat_le (Fin x) y = True"
| "pyfloat_le PosInf y = (y = PosInf \<or> y = NaN)"
| "pyfloat_le NaN y = (y = NaN)"

instantiation pyfloat :: linorder
begin

definition less_eq_pyfloat_def: "(x :: pyfloat) \<le> y \<longleftrightarrow> pyfloat_le x y"

definition less_pyfloat_def: "(x :: pyfloat) < y \<longleftrightarrow> pyfloat_le x y \<and> \<not> pyfloat_le y x"

instance
proof
  fix x y z :: pyfloat
  show "(x < y) = (x \<le> y \<and> \<not> y \<le> x)"
    by (simp add: less_eq_pyfloat_def less_pyfloat_def)
  show "x \<le> x" by (cases x) (simp_all add: less_eq_pyfloat_def)
  show "x \<le> y \<Longrightarrow> y \<le> z \<Longrightarrow> x \<le> z"
    by (cases x; cases y; cases z) (simp_all add: less_eq_pyfloat_def)
  show "x \<le> y \<Longrightarrow> y \<le> x \<Longrightarrow> x = y"
    by (cases x; cases y) (simp_all add: less_eq_pyfloat_def)
  show "x \<le> y \<or> y \<le> x"
    by (cases x; cases y) (auto simp: less_eq_pyfloat_def)
qed

end

text \<open>Python's comparisons: a NaN is neither less than nor equal to anything.\<close>

definition flt :: "pyfloat \<Rightarrow> pyfloat \<Rightarrow> bool" where
  "flt x y \<longleftrightarrow> x \<noteq> NaN \<and> y \<noteq> NaN \<and> x < y"

definition fle :: "pyfloat \<Rightarrow> pyfloat \<Rightarrow> bool" where
  "fle x y \<longleftrightarrow> x \<noteq> NaN \<and> y \<noteq> NaN \<and> x \<le> y"

definition feq :: "pyfloat \<Rightarrow> pyfloat \<Rightarrow> bool" where
  "feq x y \<longleftrightarrow> x \<noteq> NaN \<and> x = y"

lemma flt_iff [simp]: "x \<noteq> NaN \<Longrightarrow> y \<noteq> NaN \<Longrightarrow> flt x y \<longleftrightarrow> x < y"
  by (simp add: flt_def)

lemma fle_iff [simp]: "x \<noteq> NaN \<Longrightarrow> y \<noteq> NaN \<Longrightarrow> fle x y \<longleftrightarrow> x \<le> y"
  by (simp add: fle_def)

lemma feq_iff [simp]: "x \<noteq> NaN \<Longrightarrow> feq x y \<longleftrightarrow> x = y"
  by (simp add: feq_def)

lemma f_nan [simp]:
  "\<not> flt NaN y" "\<not> flt x NaN" "\<not> fle NaN y" "\<not> fle x NaN" "\<not> feq NaN y" "\<not> feq x NaN"
  by (auto simp: flt_def fle_def feq_def)

definition pow2 :: "int \<Rightarrow> rat" where
  "pow2 e = (if 0 \<le> e then 2 ^ nat e else 1 / 2 ^ nat (- e))"

definition pow10 :: "int \<Rightarrow> rat" where
  "pow10 e = (if 0 \<le> e then 10 ^ nat e else 1 / 10 ^ nat (- e))"

definition round_half_even :: "rat \<Rightarrow> int" where
  "round_half_even q =
     (let f = \<lfloor>q\<rfloor>; d = q - of_int f in
      if d < 1 / 2 then f else if 1 / 2 < d then f + 1 else if even f then f else f + 1)"

text \<open>The exponent of the leading bit of a positive rational.\<close>

definition ilog2 :: "rat \<Rightarrow> int" where
  "ilog2 q = (case quotient_of q of (n, d) \<Rightarrow>
     let e = bitlen n - bitlen d in if pow2 e \<le> q then e else e - 1)"

definition round64 :: "rat \<Rightarrow> pyfloat" where
  "round64 q =
     (if q = 0 then Fin 0
      else let e = max (ilog2 \<bar>q\<bar> - 52) (- 1074);
               v = of_int (round_half_even (q / pow2 e)) * pow2 e
           in if pow2 1024 \<le> \<bar>v\<bar> then (if 0 < q then PosInf else NegInf) else Fin v)"

fun fadd :: "pyfloat \<Rightarrow> pyfloat \<Rightarrow> pyfloat" where
  "fadd (Fin x) (Fin y) = round64 (x + y)"
| "fadd NaN y = NaN"
| "fadd x NaN = NaN"
| "fadd PosInf NegInf = NaN"
| "fadd NegInf PosInf = NaN"
| "fadd PosInf y = PosInf"
| "fadd NegInf y = NegInf"
| "fadd x PosInf = PosInf"
| "fadd x NegInf = NegInf"

fun fneg :: "pyfloat \<Rightarrow> pyfloat" where
  "fneg NegInf = PosInf"
| "fneg (Fin x) = Fin (- x)"
| "fneg PosInf = NegInf"
| "fneg NaN = NaN"

text \<open>Multiplication by a positive constant, as in \<open>seconds * 1000\<close>.\<close>

fun fscale :: "pyfloat \<Rightarrow> rat \<Rightarrow> pyfloat" where
  "fscale (Fin x) c = round64 (x * c)"
| "fscale y c = y"

text \<open>\<open>a / b\<close> on integers is the correctly rounded quotient.\<close>

definition int_div :: "int \<Rightarrow> int \<Rightarrow> pyfloat" where
  "int_div a b = round64 (of_int a / of_int b)"

text \<open>\<open>int(x)\<close> and \<open>round(x)\<close>; \<open>None\<close> is the exception on an infinity or a NaN.\<close>

fun ftrunc :: "pyfloat \<Rightarrow> int option" where
  "ftrunc (Fin x) = Some (if 0 \<le> x then \<lfloor>x\<rfloor> else \<lceil>x\<rceil>)"
| "ftrunc y = None"

fun fround :: "pyfloat \<Rightarrow> int option" where
  "fround (Fin x) = Some (round_half_even x)"
| "fround y = None"

section \<open>Floats and their text\<close>

text \<open>\<open>float(s)\<close>; \<open>None\<close> is \<open>ValueError\<close>.\<close>

definition lower_ascii :: "str \<Rightarrow> str" where
  "lower_ascii s = map (\<lambda>c. if 65 \<le> c \<and> c \<le> 90 then c + 32 else c) s"

definition scan_exponent :: "str \<Rightarrow> int option" where
  "scan_exponent s = (case scan_sign s of (neg, body) \<Rightarrow>
     map_option (\<lambda>ds. if neg then - int (digits_num ds) else int (digits_num ds)) (scan_digits body))"

definition scan_part :: "str \<Rightarrow> nat list option" where
  "scan_part s = (if s = [] then Some [] else scan_digits s)"

text \<open>The digits of a mantissa and how many of them follow the point.\<close>

definition scan_mantissa :: "str \<Rightarrow> (nat list \<times> nat) option" where
  "scan_mantissa s =
     (let ip = takeWhile (\<lambda>c. c \<noteq> 46) s; rest = dropWhile (\<lambda>c. c \<noteq> 46) s in
      if rest = [] then map_option (\<lambda>ds. (ds, 0)) (scan_digits ip)
      else if ip = [] \<and> tl rest = [] then None
      else (case (scan_part ip, scan_part (tl rest)) of
              (Some a, Some b) \<Rightarrow> Some (a @ b, length b) | _ \<Rightarrow> None))"

definition scan_decimal :: "str \<Rightarrow> rat option" where
  "scan_decimal s =
     (let m = takeWhile (\<lambda>c. c \<noteq> 101 \<and> c \<noteq> 69) s; rest = dropWhile (\<lambda>c. c \<noteq> 101 \<and> c \<noteq> 69) s in
      case scan_mantissa m of
        None \<Rightarrow> None
      | Some (ds, k) \<Rightarrow>
          map_option (\<lambda>e. of_nat (digits_num ds) * pow10 (e - int k))
            (if rest = [] then Some 0 else scan_exponent (tl rest)))"

definition py_float :: "str \<Rightarrow> pyfloat option" where
  "py_float s =
     (case scan_sign (py_strip s) of (neg, body) \<Rightarrow>
        let low = lower_ascii body; sgn = (if neg then fneg else id) in
        if low = lit ''inf'' \<or> low = lit ''infinity'' then Some (sgn PosInf)
        else if low = lit ''nan'' then Some NaN
        else map_option (\<lambda>q. sgn (round64 q)) (scan_decimal body))"

text \<open>
  \<open>repr\<close> of a finite float: the shortest digit string that reads back as the same float, the
  closest one among the shortest.  Seventeen digits are enough for binary64.
\<close>

definition ilog10 :: "rat \<Rightarrow> int" where
  "ilog10 q = (case quotient_of q of (n, d) \<Rightarrow>
     let e = int (length (nat_digits (nat n))) - int (length (nat_digits (nat d)))
     in if pow10 e \<le> q then e else e - 1)"

definition shortest_try :: "rat \<Rightarrow> nat \<Rightarrow> (nat \<times> int) option" where
  "shortest_try q n =
     (let e = ilog10 q - int n + 1; s = pow10 e; lo = \<lfloor>q / s\<rfloor>;
          ok = (\<lambda>c. round64 (of_int c * s) = Fin q)
      in if ok lo \<and> ok (lo + 1) then Some (nat (round_half_even (q / s)), e)
         else if ok lo then Some (nat lo, e)
         else if ok (lo + 1) then Some (nat (lo + 1), e)
         else None)"

fun shortest_from :: "rat \<Rightarrow> nat list \<Rightarrow> nat \<times> int" where
  "shortest_from q [] = (nat (round_half_even (q / pow10 (ilog10 q - 16))), ilog10 q - 16)"
| "shortest_from q (n # ns) = (case shortest_try q n of Some r \<Rightarrow> r | None \<Rightarrow> shortest_from q ns)"

definition strip_zeros :: "str \<Rightarrow> str" where
  "strip_zeros s = rev (dropWhile (\<lambda>c. c = 48) (rev s))"

definition exponent_text :: "int \<Rightarrow> str" where
  "exponent_text e = (if e < 0 then [101, 45] else [101, 43])
     @ (if \<bar>e\<bar> < 10 then [48] else []) @ nat_text (nat \<bar>e\<bar>)"

definition float_repr :: "rat \<Rightarrow> str" where
  "float_repr q =
     (if q = 0 then lit ''0.0''
      else case shortest_from \<bar>q\<bar> [1..<18] of (c, e) \<Rightarrow>
        let ds = nat_text c; decpt = int (length ds) + e; sd = strip_zeros ds;
            sign = (if q < 0 then [45] else [])
        in sign @
          (if - 4 < decpt \<and> decpt \<le> 16
           then (if decpt \<le> 0 then lit ''0.'' @ replicate (nat (- decpt)) 48 @ sd
                 else if int (length sd) \<le> decpt
                      then sd @ replicate (nat decpt - length sd) 48 @ lit ''.0''
                      else take (nat decpt) sd @ [46] @ drop (nat decpt) sd)
           else take 1 sd @ (if length sd = 1 then [] else 46 # drop 1 sd) @ exponent_text (decpt - 1)))"

section \<open>Sizes\<close>

text \<open>
  \<open>sys.getsizeof\<close> of a \<open>str\<close>: a header and one, two or four bytes per character, by the largest
  one (CPython 3.12, the version of the container image).  No theorem depends on the numbers.
\<close>

definition str_size :: "str \<Rightarrow> int" where
  "str_size s =
     (let n = int (length s) in
      if list_all (\<lambda>c. c < 128) s then 41 + n
      else if list_all (\<lambda>c. c < 256) s then 57 + n
      else if list_all (\<lambda>c. c < 65536) s then 58 + 2 * n
      else 60 + 4 * n)"

lemma str_size_pos: "0 < str_size s"
  by (simp add: str_size_def Let_def)

end
