(* ===== verification/Py_Struct.thy ===== *)
theory Py_Struct
  imports Codec Py_Values
begin

text \<open>
  The part of Python's \<open>struct\<close> module the snapshot format uses: little-endian integers of a
  fixed width and IEEE binary64.  Packing a value out of range is \<open>None\<close> (\<open>struct.error\<close>).
\<close>

section \<open>Integers\<close>

primrec le_bytes :: "nat \<Rightarrow> nat \<Rightarrow> bytes" where
  "le_bytes 0 v = []"
| "le_bytes (Suc n) v = v mod 256 # le_bytes n (v div 256)"

primrec le_nat :: "bytes \<Rightarrow> nat" where
  "le_nat [] = 0"
| "le_nat (b # bs) = b + 256 * le_nat bs"

definition pack_u :: "nat \<Rightarrow> int \<Rightarrow> bytes option" where
  "pack_u w v = (if 0 \<le> v \<and> v < 256 ^ w then Some (le_bytes w (nat v)) else None)"

definition pack_i :: "nat \<Rightarrow> int \<Rightarrow> bytes option" where
  "pack_i w v =
     (if - (256 ^ w div 2) \<le> v \<and> v < 256 ^ w div 2
      then Some (le_bytes w (nat (v mod 256 ^ w))) else None)"

definition signed_le :: "bytes \<Rightarrow> int" where
  "signed_le bs =
     (let n = int (le_nat bs); m = 256 ^ length bs in if n < m div 2 then n else n - m)"

lemma length_le_bytes [simp]: "length (le_bytes n v) = n"
  by (induction n arbitrary: v) simp_all

lemma le_bytes_ok [simp]: "bytes_ok (le_bytes n v)"
  by (induction n arbitrary: v) (simp_all add: bytes_ok_def)

lemma le_nat_le_bytes: "v < 256 ^ n \<Longrightarrow> le_nat (le_bytes n v) = v"
proof (induction n arbitrary: v)
  case (Suc n)
  then have "v div 256 < 256 ^ n" by (simp add: less_mult_imp_div_less mult.commute)
  with Suc.IH show ?case by simp
qed simp

lemma pack_u_ok: "pack_u w v = Some bs \<Longrightarrow> length bs = w \<and> int (le_nat bs) = v \<and> bytes_ok bs"
proof -
  assume "pack_u w v = Some bs"
  then have v: "0 \<le> v" "v < 256 ^ w" and bs: "bs = le_bytes w (nat v)"
    by (auto simp: pack_u_def split: if_splits)
  from v have "int (nat v) < int (256 ^ w)" by simp
  then have "nat v < 256 ^ w" by (simp only: of_nat_less_iff)
  with v bs show ?thesis by (simp add: le_nat_le_bytes)
qed

lemma half_le: "0 \<le> (x :: int) \<Longrightarrow> x div 2 \<le> x"
  by presburger

lemma pack_i_ok: "pack_i w v = Some bs \<Longrightarrow> length bs = w \<and> signed_le bs = v \<and> bytes_ok bs"
proof -
  assume "pack_i w v = Some bs"
  then have v: "- (256 ^ w div 2) \<le> v" "v < 256 ^ w div 2" and bs: "bs = le_bytes w (nat (v mod 256 ^ w))"
    by (auto simp: pack_i_def split: if_splits)
  have m: "(0 :: int) < 256 ^ w" by simp
  then have r: "0 \<le> v mod 256 ^ w" "v mod 256 ^ w < 256 ^ w" by simp_all
  then have "int (nat (v mod 256 ^ w)) < int (256 ^ w)" by simp
  then have "nat (v mod 256 ^ w) < 256 ^ w" by (simp only: of_nat_less_iff)
  then have n: "int (le_nat bs) = v mod 256 ^ w" using bs r by (simp add: le_nat_le_bytes)
  have "v mod 256 ^ w = (if 0 \<le> v then v else v + 256 ^ w)"
  proof (cases "0 \<le> v")
    case True
    have "(256 :: int) ^ w div 2 \<le> 256 ^ w" by (rule half_le) simp
    with True v show ?thesis by (simp add: mod_pos_pos_trivial)
  next
    case False
    have "(256 :: int) ^ w div 2 \<le> 256 ^ w" by (rule half_le) simp
    with False v have "(v + 256 ^ w) mod 256 ^ w = v + 256 ^ w" by (intro mod_pos_pos_trivial) linarith+
    with False show ?thesis by simp
  qed
  with n v bs show ?thesis by (auto simp: signed_le_def Let_def)
qed

section \<open>Binary64\<close>

text \<open>\<open>f64_bits\<close> is the bit pattern of a float; a NaN is the quiet one.\<close>

fun f64_bits :: "pyfloat \<Rightarrow> nat" where
  "f64_bits (Fin q) =
     (let e = max (ilog2 \<bar>q\<bar> - 52) (- 1074); m = nat \<lfloor>\<bar>q\<bar> / pow2 e\<rfloor>
      in (if q < 0 then 2 ^ 63 else 0)
         + (if q = 0 then 0 else if m < 2 ^ 52 then m else nat (e + 1075) * 2 ^ 52 + (m - 2 ^ 52)))"
| "f64_bits PosInf = 2047 * 2 ^ 52"
| "f64_bits NegInf = 2 ^ 63 + 2047 * 2 ^ 52"
| "f64_bits NaN = 2047 * 2 ^ 52 + 2 ^ 51"

definition f64_of_bits :: "nat \<Rightarrow> pyfloat" where
  "f64_of_bits n =
     (let neg = (n div 2 ^ 63 mod 2 = 1); e = n div 2 ^ 52 mod 2 ^ 11; m = n mod 2 ^ 52;
          v = (if e = 2047 then (if m = 0 then PosInf else NaN)
               else if e = 0 then Fin (of_nat m * pow2 (- 1074))
               else Fin (of_nat (2 ^ 52 + m) * pow2 (int e - 1075)))
      in if neg then fneg v else v)"

definition pack_f64 :: "pyfloat \<Rightarrow> bytes" where
  "pack_f64 x = le_bytes 8 (f64_bits x)"

definition unpack_f64 :: "bytes \<Rightarrow> pyfloat" where
  "unpack_f64 bs = f64_of_bits (le_nat bs)"

text \<open>The values a Python float can have: the infinities, NaN and the rationals of binary64.\<close>

fun is_f64 :: "pyfloat \<Rightarrow> bool" where
  "is_f64 (Fin q) \<longleftrightarrow> round64 q = Fin q"
| "is_f64 x \<longleftrightarrow> True"

lemma pow2_pos [simp]: "0 < pow2 e"
  by (simp add: pow2_def)

lemma abs_pow2 [simp]: "\<bar>pow2 e\<bar> = pow2 e"
  by (simp add: abs_of_pos)

lemma pow2_powr: "pow2 e = 2 powi e"
  by (simp add: pow2_def power_int_def field_simps)

lemma pow2_add: "pow2 (a + b) = pow2 a * pow2 b"
  by (simp add: pow2_powr power_int_add)

lemma pow2_mono: "a \<le> b \<Longrightarrow> pow2 a \<le> pow2 b"
  by (simp add: pow2_powr power_int_increasing)

lemma pow2_strict: "pow2 a < pow2 b \<longleftrightarrow> a < b"
proof (cases "a < b")
  case True
  then show ?thesis by (simp add: pow2_powr power_int_strict_increasing)
next
  case False
  then show ?thesis using pow2_mono [of b a] by simp
qed

lemma pow2_diff: "pow2 (a - b) = pow2 a / pow2 b"
  by (simp add: pow2_powr power_int_diff)

lemma bitlen_pow2:
  assumes "0 < n"
  shows "pow2 (bitlen n - 1) \<le> of_int n" "of_int n < pow2 (bitlen n)"
proof -
  have b: "0 < bitlen n" using assms by (simp add: bitlen_eq_zero_iff bitlen_nonneg less_le)
  have "2 ^ nat (bitlen n - 1) \<le> n \<and> n < 2 ^ nat (bitlen n)" using bitlen_bounds [OF assms] .
  then have l: "2 ^ nat (bitlen n - 1) \<le> n" and u: "n < 2 ^ nat (bitlen n)" by simp_all
  from l have "(of_int (2 ^ nat (bitlen n - 1)) :: rat) \<le> of_int n" by (simp only: of_int_le_iff)
  with b show "pow2 (bitlen n - 1) \<le> of_int n" by (simp add: pow2_def)
  from u have "(of_int n :: rat) < of_int (2 ^ nat (bitlen n))" by (simp only: of_int_less_iff)
  with b show "of_int n < pow2 (bitlen n)" by (simp add: pow2_def)
qed

lemma ilog2_bounds:
  assumes "0 < q"
  shows "pow2 (ilog2 q) \<le> q" "q < pow2 (ilog2 q + 1)"
proof -
  obtain n d where nd: "quotient_of q = (n, d)" by (cases "quotient_of q")
  then have d: "0 < d" and q: "q = of_int n / of_int d"
    using quotient_of_denom_pos quotient_of_div by blast+
  from assms q d have n: "0 < n" by (simp add: zero_less_divide_iff)
  let ?e = "bitlen n - bitlen d"
  have "q < pow2 (bitlen n) / pow2 (bitlen d - 1)"
    unfolding q using n d bitlen_pow2 [OF n] bitlen_pow2 [OF d]
    by (intro frac_less) (simp_all add: less_imp_le)
  then have hi: "q < pow2 (?e + 1)" by (simp add: pow2_diff [symmetric] algebra_simps)
  have "pow2 (bitlen n - 1) / pow2 (bitlen d) \<le> q"
    unfolding q using n d bitlen_pow2 [OF n] bitlen_pow2 [OF d]
    by (intro frac_le) (simp_all add: less_imp_le)
  then have lo: "pow2 (?e - 1) \<le> q" by (simp add: pow2_diff [symmetric] algebra_simps)
  have il: "ilog2 q = (if pow2 ?e \<le> q then ?e else ?e - 1)" by (simp add: ilog2_def nd Let_def)
  show "pow2 (ilog2 q) \<le> q" using lo il by simp
  show "q < pow2 (ilog2 q + 1)" using hi il by simp
qed

text \<open>A representable rational is an integer of at most 53 bits times a power of two.\<close>

lemma f64_mantissa:
  assumes q: "q \<noteq> 0" "round64 q = Fin q" and e: "e = max (ilog2 \<bar>q\<bar> - 52) (- 1074)"
  obtains m :: nat where "\<bar>q\<bar> = of_nat m * pow2 e" "m < 2 ^ 53" "0 < m"
    "m < 2 ^ 52 \<Longrightarrow> e = - 1074" "- 1074 \<le> e" "e \<le> 971"
proof -
  let ?v = "of_int (round_half_even (q / pow2 e)) * pow2 e"
  have v: "?v = q" and big: "\<bar>q\<bar> < pow2 1024"
    using q e by (auto simp: round64_def Let_def split: if_splits)
  define m where "m = nat \<bar>round_half_even (q / pow2 e)\<bar>"
  have qm: "\<bar>q\<bar> = of_nat m * pow2 e"
    using arg_cong [OF v, of abs, symmetric] by (simp add: m_def abs_mult)
  have pos: "0 < \<bar>q\<bar>" using q by simp
  note lg = ilog2_bounds [OF pos]
  have "\<bar>q\<bar> < pow2 (53 + e)"
  proof (rule less_le_trans [OF lg(2) pow2_mono])
    show "ilog2 \<bar>q\<bar> + 1 \<le> 53 + e" using e by linarith
  qed
  then have "of_nat m < (2 ^ 53 :: rat)"
    by (simp add: qm pow2_add) (simp add: pow2_def)
  then have "of_nat m < (of_nat (2 ^ 53) :: rat)" by simp
  then have m53: "m < 2 ^ 53" by (simp only: of_nat_less_iff)
  have m0: "0 < m" using pos qm by (cases m) simp_all
  have small: "e = - 1074" if "m < 2 ^ 52"
  proof (rule ccontr)
    assume "e \<noteq> - 1074"
    then have "e = ilog2 \<bar>q\<bar> - 52" using e by simp
    then have "pow2 (52 + e) \<le> \<bar>q\<bar>" using lg(1) by simp
    then have "(2 ^ 52 :: rat) \<le> of_nat m" by (simp add: qm pow2_add) (simp add: pow2_def)
    then have "(of_nat (2 ^ 52) :: rat) \<le> of_nat m" by simp
    then have "2 ^ 52 \<le> m" by (simp only: of_nat_le_iff)
    with that show False by simp
  qed
  have "pow2 (ilog2 \<bar>q\<bar>) < pow2 1024" using lg(1) big by simp
  then have "e \<le> 971" using e by (simp add: pow2_strict)
  moreover have "- 1074 \<le> e" using e by simp
  ultimately show thesis using that qm m53 m0 small by blast
qed

lemma f64_of_bits_parts:
  assumes "m < 2 ^ 52" "E < 2 ^ 11" "s < 2"
  shows "f64_of_bits (s * 2 ^ 63 + E * 2 ^ 52 + m) =
    (let v = (if E = 2047 then (if m = 0 then PosInf else NaN)
              else if E = 0 then Fin (of_nat m * pow2 (- 1074))
              else Fin (of_nat (2 ^ 52 + m) * pow2 (int E - 1075)))
     in if s = 1 then fneg v else v)"
proof -
  let ?n = "s * 2 ^ 63 + E * 2 ^ 52 + m"
  have n: "?n = (s * 2 ^ 11 + E) * 2 ^ 52 + m" by simp
  have m: "?n mod 2 ^ 52 = m" using assms(1) by (simp only: n mod_mult_self3 mod_less)
  have d: "?n div 2 ^ 52 = s * 2 ^ 11 + E" using assms(1) by (simp only: n div_mult_self3) simp
  have E: "(s * 2 ^ 11 + E) mod 2 ^ 11 = E" using assms(2) by (simp only: mod_mult_self3 mod_less)
  have "?n div 2 ^ 63 = ?n div 2 ^ 52 div 2 ^ 11" by (simp add: div_mult2_eq [symmetric])
  also have "\<dots> = s" using assms(2) by (simp only: d div_mult_self3) simp
  finally show ?thesis using assms(3) by (simp only: f64_of_bits_def Let_def m d E) simp
qed

declare f64_bits.simps(1) [simp del]

lemma f64_bits_fin:
  assumes q: "q \<noteq> 0" "round64 q = Fin q"
  shows "f64_of_bits (f64_bits (Fin q)) = Fin q" "f64_bits (Fin q) < 2 ^ 64"
proof -
  define e where "e = max (ilog2 \<bar>q\<bar> - 52) (- 1074)"
  obtain m :: nat where m: "\<bar>q\<bar> = of_nat m * pow2 e" "m < 2 ^ 53" "0 < m"
    "m < 2 ^ 52 \<Longrightarrow> e = - 1074" "- 1074 \<le> e" "e \<le> 971"
    using f64_mantissa [OF q e_def] by blast
  define s :: nat where "s = (if q < 0 then 1 else 0)"
  have pe: "pow2 e \<noteq> 0" using pow2_pos [of e] by linarith
  have "\<bar>q\<bar> / pow2 e = of_int (int m)" using pe by (simp add: m(1))
  then have "nat \<lfloor>\<bar>q\<bar> / pow2 e\<rfloor> = m" by (simp only: floor_of_int nat_int)
  then have bits: "f64_bits (Fin q) = s * 2 ^ 63
      + (if m < 2 ^ 52 then m else nat (e + 1075) * 2 ^ 52 + (m - 2 ^ 52))"
    using q(1) by (simp add: f64_bits.simps(1) Let_def s_def flip: e_def)
  have sgn: "(if s = 1 then fneg (Fin \<bar>q\<bar>) else Fin \<bar>q\<bar>) = Fin q" by (simp add: s_def)
  have s2: "s < 2" by (simp add: s_def)
  have "f64_of_bits (f64_bits (Fin q)) = Fin q \<and> f64_bits (Fin q) < 2 ^ 64"
  proof (cases "m < 2 ^ 52")
    case True
    then have b: "f64_bits (Fin q) = s * 2 ^ 63 + 0 * 2 ^ 52 + m" by (simp only: bits if_True simp_thms mult_0 add_0_right)
    have "f64_of_bits (f64_bits (Fin q)) = (if s = 1 then fneg (Fin \<bar>q\<bar>) else Fin \<bar>q\<bar>)"
      using f64_of_bits_parts [OF True _ s2, of 0] m(1) m(4) [OF True] b by (simp add: Let_def)
    moreover have "f64_bits (Fin q) < 2 ^ 64" using True s2 b by simp
    ultimately show ?thesis by (simp only: sgn simp_thms)
  next
    case False
    let ?E = "nat (e + 1075)"
    have E: "?E < 2047" "?E \<noteq> 0" "int ?E - 1075 = e" using m(5,6) by auto
    then have E': "?E < 2 ^ 11" by simp
    have lo: "m - 2 ^ 52 < 2 ^ 52" using m(2) False by simp
    have b: "f64_bits (Fin q) = s * 2 ^ 63 + ?E * 2 ^ 52 + (m - 2 ^ 52)" using False by (simp add: bits)
    have mm: "2 ^ 52 + (m - 2 ^ 52) = m" using False by simp
    have "f64_of_bits (f64_bits (Fin q)) = (if s = 1 then fneg (Fin \<bar>q\<bar>) else Fin \<bar>q\<bar>)"
      unfolding b f64_of_bits_parts [OF lo E' s2] mm E(3) m(1)
      using E(1,2) by (simp add: Let_def)
    moreover have "f64_bits (Fin q) < 2 ^ 64"
    proof -
      have "?E * 2 ^ 52 \<le> 2046 * 2 ^ 52" using E(1) by simp
      with lo s2 show ?thesis unfolding b by (simp add: s_def)
    qed
    ultimately show ?thesis by (simp only: sgn simp_thms)
  qed
  then show "f64_of_bits (f64_bits (Fin q)) = Fin q" "f64_bits (Fin q) < 2 ^ 64" by simp_all
qed

lemma f64_roundtrip: "is_f64 x \<Longrightarrow> unpack_f64 (pack_f64 x) = x"
proof -
  assume x: "is_f64 x"
  have "f64_bits x < 2 ^ 64 \<and> f64_of_bits (f64_bits x) = x"
  proof (cases x)
    case (Fin q)
    show ?thesis
    proof (cases "q = 0")
      case True
      then show ?thesis using Fin by (simp add: f64_of_bits_def f64_bits.simps(1))
    next
      case False
      then show ?thesis using f64_bits_fin [of q] x Fin by simp
    qed
  qed (simp_all add: f64_of_bits_def)
  then have b: "f64_bits x < 256 ^ 8" and r: "f64_of_bits (f64_bits x) = x" by simp_all
  show ?thesis by (simp only: pack_f64_def unpack_f64_def le_nat_le_bytes [OF b] r)
qed

lemma length_pack_f64 [simp]: "length (pack_f64 x) = 8" and pack_f64_ok [simp]: "bytes_ok (pack_f64 x)"
  by (simp_all add: pack_f64_def)

section \<open>Rounding errors\<close>

lemma round_half_even_int [simp]: "round_half_even (of_int n) = n"
  by (simp add: round_half_even_def)

text \<open>Integers below \<open>2 ^ 53\<close> are floats.\<close>

lemma is_f64_int:
  assumes n: "\<bar>n\<bar> < 2 ^ 53"
  shows "is_f64 (Fin (of_int n))"
proof (cases "n = 0")
  case False
  define q :: rat where "q = of_int n"
  define e where "e = max (ilog2 \<bar>q\<bar> - 52) (- 1074)"
  have pos: "0 < \<bar>q\<bar>" using False by (simp add: q_def)
  have "(of_int \<bar>n\<bar> :: rat) < of_int (2 ^ 53)" using n by (simp only: of_int_less_iff)
  then have lt: "\<bar>q\<bar> < pow2 53" by (simp add: q_def pow2_def)
  then have "pow2 (ilog2 \<bar>q\<bar>) < pow2 53" using ilog2_bounds(1) [OF pos] by linarith
  then have e: "e \<le> 0" by (simp add: e_def pow2_strict)
  have "q / pow2 e = of_int (n * 2 ^ nat (- e))" using e by (cases "e = 0") (simp_all add: q_def pow2_def)
  then have "of_int (round_half_even (q / pow2 e)) * pow2 e = q / pow2 e * pow2 e"
    by (simp only: round_half_even_int)
  also have "\<dots> = q" using pow2_pos [of e] by (simp del: pow2_pos)
  finally have v: "of_int (round_half_even (q / pow2 e)) * pow2 e = q" .
  have "\<bar>q\<bar> < pow2 1024" using lt pow2_mono [of 53 1024] by simp
  with v have "round64 q = Fin q"
    using pos by (simp only: round64_def Let_def v flip: e_def) simp
  then show ?thesis by (simp add: q_def)
qed (simp add: round64_def)

lemma round_half_even_error: "\<bar>of_int (round_half_even q) - q\<bar> \<le> 1 / 2"
proof -
  have "of_int \<lfloor>q\<rfloor> \<le> q" "q < of_int \<lfloor>q\<rfloor> + 1" by linarith+
  then show ?thesis by (auto simp: round_half_even_def Let_def abs_le_iff)
qed

lemma round_half_even_near: "\<bar>q - of_int n\<bar> < 1 / 2 \<Longrightarrow> round_half_even q = n"
proof -
  assume a: "\<bar>q - of_int n\<bar> < 1 / 2"
  have "\<bar>of_int (round_half_even q) - q\<bar> \<le> 1 / 2" by (rule round_half_even_error)
  with a have "\<bar>of_int (round_half_even q) - of_int n :: rat\<bar> < 1" by linarith
  then have "\<bar>of_int (round_half_even q - n) :: rat\<bar> < of_int 1" by simp
  then have "\<bar>round_half_even q - n\<bar> < 1" by (simp only: of_int_abs [symmetric] of_int_less_iff)
  then show ?thesis by simp
qed

text \<open>Rounding a rational of the normal range loses at most one part in \<open>2 ^ 53\<close>.\<close>

lemma round64_near:
  assumes q: "pow2 (- 1000) \<le> q" "q < pow2 1000"
  obtains v where "round64 q = Fin v" "\<bar>v - q\<bar> \<le> q * pow2 (- 53)"
proof -
  define e where "e = max (ilog2 \<bar>q\<bar> - 52) (- 1074)"
  define v where "v = of_int (round_half_even (q / pow2 e)) * pow2 e"
  have pos: "0 < q" using q(1) pow2_pos [of "- 1000"] by linarith
  then have aq: "\<bar>q\<bar> = q" by simp
  note lg = ilog2_bounds [OF pos]
  have "pow2 (- 1000) < pow2 (ilog2 q + 1)" using q(1) lg(2) by linarith
  then have "- 1001 \<le> ilog2 q" by (simp add: pow2_strict)
  then have e: "e = ilog2 q - 52" by (simp add: e_def aq)
  have pe: "0 < pow2 e" "pow2 e \<noteq> 0" using pow2_pos [of e] by linarith+
  have "\<bar>v - q\<bar> = \<bar>of_int (round_half_even (q / pow2 e)) - q / pow2 e\<bar> * pow2 e"
  proof -
    have "v - q = (of_int (round_half_even (q / pow2 e)) - q / pow2 e) * pow2 e"
      using pe by (simp add: v_def field_simps)
    then show ?thesis by (simp add: abs_mult)
  qed
  also have "\<dots> \<le> 1 / 2 * pow2 e"
    using round_half_even_error [of "q / pow2 e"] less_imp_le [OF pe(1)] by (rule mult_right_mono)
  also have "\<dots> = pow2 (ilog2 q) * pow2 (- 53)"
    by (simp add: e pow2_diff pow2_def [of 52] pow2_def [of "- 53"])
  also have "\<dots> \<le> q * pow2 (- 53)" using lg(1) by (intro mult_right_mono) (simp_all add: less_imp_le)
  finally have err: "\<bar>v - q\<bar> \<le> q * pow2 (- 53)" .
  have "pow2 (- 53) \<le> 1" by (simp add: pow2_def)
  then have "q * pow2 (- 53) \<le> q * 1" using pos by (intro mult_left_mono) simp_all
  with err have "\<bar>v\<bar> \<le> 2 * q" by linarith
  also have "\<dots> < 2 * pow2 1000" using q(2) by simp
  also have "\<dots> = pow2 (1 + 1000)" by (simp only: pow2_add) (simp add: pow2_def)
  also have "\<dots> \<le> pow2 1024" by (rule pow2_mono) simp
  finally have "\<bar>v\<bar> < pow2 1024" .
  then have "round64 q = Fin v" using pos by (simp only: round64_def Let_def flip: e_def v_def) simp
  then show thesis using err that by blast
qed

lemma pow2_values: "pow2 (- 53) = 1 / 9007199254740992" "pow2 50 = 1125899906842624"
  by (simp_all add: pow2_def)

text \<open>
  Milliseconds turned into seconds and back are the same milliseconds, for every instant before
  the year 37000.
\<close>

lemma millis_roundtrip:
  assumes n: "0 \<le> n" "n < 2 ^ 50"
  shows "fround (fscale (int_div n 1000) 1000) = Some n"
proof (cases "n = 0")
  case True
  then show ?thesis by (simp add: int_div_def round64_def round_half_even_def)
next
  case False
  define q :: rat where "q = of_int n / 1000"
  have n1: "(1 :: rat) \<le> of_int n" using False n(1) by simp
  have n2: "(of_int n :: rat) < 1125899906842624"
  proof -
    have "n < 1125899906842624" using n(2) by simp
    then have "(of_int n :: rat) < of_int 1125899906842624" by (simp only: of_int_less_iff)
    then show ?thesis by simp
  qed
  have lo: "pow2 (- 1000) \<le> 1 / 1000000"
    using pow2_mono [of "- 1000" "- 20"] by (simp add: pow2_def [of "- 20"])
  have hi: "1125899906842625 * 1000 \<le> pow2 1000"
    using pow2_mono [of 61 1000] by (simp add: pow2_def [of 61])
  obtain v where v: "round64 q = Fin v" "\<bar>v - q\<bar> \<le> q * pow2 (- 53)"
    using round64_near [of q] n1 n2 lo hi by (auto simp: q_def)
  have verr: "\<bar>v * 1000 - of_int n\<bar> \<le> 1 / 8"
  proof -
    have "\<bar>v - q\<bar> \<le> 1 / 8000" using v(2) n1 n2 by (simp add: q_def pow2_values)
    then have "v - q \<le> 1 / 8000" "q - v \<le> 1 / 8000" by (simp_all only: abs_le_iff minus_diff_eq)
    moreover have "of_int n = q * 1000" by (simp add: q_def)
    ultimately show ?thesis by (simp only: abs_le_iff) linarith
  qed
  obtain u where u: "round64 (v * 1000) = Fin u" "\<bar>u - v * 1000\<bar> \<le> v * 1000 * pow2 (- 53)"
  proof -
    have "v * 1000 - of_int n \<le> 1 / 8" "of_int n - v * 1000 \<le> 1 / 8"
      using verr by (simp_all only: abs_le_iff minus_diff_eq)
    then have "pow2 (- 1000) \<le> v * 1000" "v * 1000 < pow2 1000" using n1 n2 lo hi by linarith+
    then show thesis using round64_near that by blast
  qed
  have "v * 1000 \<le> 1125899906842625"
    using verr n2 by (simp only: abs_le_iff) linarith
  then have "v * 1000 * pow2 (- 53) \<le> 1 / 7" by (simp add: pow2_values)
  with u(2) verr have "\<bar>u - of_int n\<bar> < 1 / 2" by linarith
  then have "round_half_even u = n" by (rule round_half_even_near)
  then show ?thesis using u(1) v(1) by (simp add: int_div_def flip: q_def)
qed

end
