(* ===== verification/Py_Random.thy ===== *)
theory Py_Random
  imports KV_Prelude
begin

text \<open>
  Python's \<open>random.Random\<close> as the source uses it.  The generator is the list of the raw draws
  it will deliver (an exhausted list keeps delivering 0), so a statement for every \<open>rng\<close> is a
  statement for every sequence of outcomes.  \<open>random()\<close> is one of the \<open>2^53\<close> fractions Python
  produces; \<open>sample(population, k)\<close> draws \<open>k\<close> positions without replacement, and every
  arrangement of \<open>k\<close> different elements is the outcome of some generator
  (\<open>rng_sample_complete\<close>); \<open>choice\<close> draws one position.
\<close>

type_synonym rng = "nat list"

fun rng_next :: "rng \<Rightarrow> nat \<times> rng" where
  "rng_next [] = (0, [])"
| "rng_next (n # ns) = (n, ns)"

definition rng_random :: "rng \<Rightarrow> rat \<times> rng" where
  "rng_random r = (case rng_next r of (n, r') \<Rightarrow> (rat_of_nat (n mod 2 ^ 53) / 2 ^ 53, r'))"

fun rng_sample :: "nat \<Rightarrow> 'a list \<Rightarrow> rng \<Rightarrow> 'a list \<times> rng" where
  "rng_sample 0 xs r = ([], r)"
| "rng_sample (Suc k) [] r = ([], r)"
| "rng_sample (Suc k) (x # xs) r =
     (case rng_next r of (n, r1) \<Rightarrow>
        let i = n mod length (x # xs) in
        case rng_sample k (take i (x # xs) @ drop (Suc i) (x # xs)) r1 of
          (ys, r2) \<Rightarrow> ((x # xs) ! i # ys, r2))"

definition rng_choice :: "'a list \<Rightarrow> rng \<Rightarrow> 'a \<times> rng" where
  "rng_choice xs r = (case rng_next r of (n, r') \<Rightarrow> (xs ! (n mod length xs), r'))"

lemma rng_random_range: "0 \<le> fst (rng_random r)" "fst (rng_random r) < 1"
proof -
  have "rat_of_nat (n mod 2 ^ 53) < 2 ^ 53" for n
  proof -
    have "n mod 2 ^ 53 < (2 ^ 53 :: nat)" by simp
    then have "rat_of_nat (n mod 2 ^ 53) < rat_of_nat (2 ^ 53)" by (simp only: of_nat_less_iff)
    then show ?thesis by simp
  qed
  then show "fst (rng_random r) < 1" by (simp add: rng_random_def split: prod.split)
  show "0 \<le> fst (rng_random r)" by (simp add: rng_random_def split: prod.split)
qed

lemma fst_rng_sample_Suc:
  assumes "xs \<noteq> []"
  shows "fst (rng_sample (Suc k) xs r) =
    (let i = fst (rng_next r) mod length xs in
     xs ! i # fst (rng_sample k (take i xs @ drop (Suc i) xs) (snd (rng_next r))))"
  using assms by (cases xs) (simp_all add: Let_def split: prod.split)

declare rng_sample.simps(3) [simp del]

lemma length_rng_sample [simp]: "length (fst (rng_sample k xs r)) = min k (length xs)"
proof (induction k arbitrary: xs r)
  case (Suc k)
  show ?case
  proof (cases "xs = []")
    case False
    define i where "i = fst (rng_next r) mod length xs"
    define zs where "zs = take i xs @ drop (Suc i) xs"
    from False have "i < length xs" by (simp add: i_def)
    then have len: "length xs = Suc (length zs)" by (simp add: zs_def)
    have "fst (rng_sample (Suc k) xs r) = xs ! i # fst (rng_sample k zs (snd (rng_next r)))"
      by (simp add: fst_rng_sample_Suc [OF False] Let_def i_def zs_def)
    then show ?thesis by (simp add: Suc len)
  qed simp
qed simp

lemma take_drop_nth_subset: "set (take i xs @ drop (Suc i) xs) \<subseteq> set xs"
  by (auto dest: in_set_takeD in_set_dropD)

lemma distinct_take_drop_nth:
  assumes "distinct xs" "i < length xs"
  shows "distinct (take i xs @ drop (Suc i) xs)"
    and "xs ! i \<notin> set (take i xs @ drop (Suc i) xs)"
    and "set (take i xs @ drop (Suc i) xs) = set xs - {xs ! i}"
proof -
  have eq: "xs = take i xs @ xs ! i # drop (Suc i) xs"
    using assms(2) by (simp add: id_take_nth_drop)
  then have d: "distinct (take i xs @ xs ! i # drop (Suc i) xs)"
    using assms(1) by metis
  then show "distinct (take i xs @ drop (Suc i) xs)"
    and n: "xs ! i \<notin> set (take i xs @ drop (Suc i) xs)" by auto
  have "set xs = set (take i xs @ xs ! i # drop (Suc i) xs)"
    using eq by metis
  then show "set (take i xs @ drop (Suc i) xs) = set xs - {xs ! i}"
    using n by auto
qed

lemma rng_sample_sub: "set (fst (rng_sample k xs r)) \<subseteq> set xs"
proof (induction k arbitrary: xs r)
  case (Suc k)
  show ?case
  proof (cases "xs = []")
    case False
    define i where "i = fst (rng_next r) mod length xs"
    from False have "xs ! i \<in> set xs" by (simp add: i_def)
    moreover have "set (fst (rng_sample k (take i xs @ drop (Suc i) xs) r')) \<subseteq> set xs" for r'
      using Suc take_drop_nth_subset by (rule subset_trans)
    ultimately show ?thesis
      using False by (simp add: fst_rng_sample_Suc i_def [symmetric] Let_def)
  qed simp
qed simp

lemma rng_sample_distinct: "distinct xs \<Longrightarrow> distinct (fst (rng_sample k xs r))"
proof (induction k arbitrary: xs r)
  case (Suc k)
  show ?case
  proof (cases "xs = []")
    case False
    define i where "i = fst (rng_next r) mod length xs"
    define zs where "zs = take i xs @ drop (Suc i) xs"
    from False have i: "i < length xs" by (simp add: i_def)
    note d = distinct_take_drop_nth [OF Suc.prems i, folded zs_def]
    have "distinct (fst (rng_sample k zs r'))" for r'
      using d(1) by (rule Suc.IH)
    moreover have "xs ! i \<notin> set (fst (rng_sample k zs r'))" for r'
      using d(2) rng_sample_sub [of k zs r'] by blast
    ultimately show ?thesis
      using False by (simp add: fst_rng_sample_Suc i_def [symmetric] zs_def [symmetric] Let_def)
  qed simp
qed simp

lemma rng_sample_complete:
  "distinct xs \<Longrightarrow> distinct ys \<Longrightarrow> set ys \<subseteq> set xs \<Longrightarrow> \<exists>r. fst (rng_sample (length ys) xs r) = ys"
proof (induction ys arbitrary: xs)
  case (Cons y ys)
  then obtain i where i: "i < length xs" "xs ! i = y"
    by (auto simp: in_set_conv_nth)
  then have ne: "xs \<noteq> []" by auto
  define zs where "zs = take i xs @ drop (Suc i) xs"
  note d = distinct_take_drop_nth [OF Cons.prems(1) i(1), folded zs_def]
  obtain r where r: "fst (rng_sample (length ys) zs r) = ys"
    using Cons.IH [OF d(1)] Cons.prems d(3) i(2) by auto
  have "fst (rng_sample (Suc (length ys)) xs (i # r)) = y # ys"
    using i r by (simp add: fst_rng_sample_Suc [OF ne] zs_def Let_def)
  then show ?case by auto
qed simp

lemma rng_choice_mem: "xs \<noteq> [] \<Longrightarrow> fst (rng_choice xs r) \<in> set xs"
  by (auto simp: rng_choice_def split: prod.split)

end
