(* ===== verification/SkipList.thy ===== *)
theory SkipList
  imports Py_Random Py_Values "HOL-Library.Product_Lexorder"
begin

text \<open>
  \<open>engine/datatypes/skiplist.py\<close>: the skip list behind sorted sets.  Nodes live in an explicit
  heap from addresses to node records, so the pointer and span updates of \<open>insert\<close> and
  \<open>_unlink\<close> are the assignments of the source; the header is address 0 and a fresh node takes
  the next unused address.  The module-level generator is an argument and a result of \<open>insert\<close>.

  The source's \<open>while nxt is not None and ...\<close> loops are \<open>advance\<close>, whose guard also sees the
  distance travelled.  Its fuel is the number of addresses handed out; \<open>advance_lastpos\<close> shows
  that on a well-formed list any such fuel lets the loop end through its own guard, at the same
  node.
\<close>

section \<open>Nodes and heap\<close>

definition MAX_LEVEL :: nat where "MAX_LEVEL = 32"

record node =
  nd_member :: str
  nd_score :: pyfloat
  nd_backward :: "nat option"
  nd_forward :: "nat option list"
  nd_span :: "int list"

type_synonym heap = "nat \<Rightarrow> node"

definition node_new :: "nat \<Rightarrow> str \<Rightarrow> pyfloat \<Rightarrow> node" where
  "node_new level member score =
     \<lparr>nd_member = member, nd_score = score, nd_backward = None,
      nd_forward = replicate level None, nd_span = replicate level 0\<rparr>"

definition set_forward :: "nat \<Rightarrow> nat \<Rightarrow> nat option \<Rightarrow> heap \<Rightarrow> heap" where
  "set_forward x i v h = h(x := (h x)\<lparr>nd_forward := (nd_forward (h x))[i := v]\<rparr>)"

definition set_span :: "nat \<Rightarrow> nat \<Rightarrow> int \<Rightarrow> heap \<Rightarrow> heap" where
  "set_span x i v h = h(x := (h x)\<lparr>nd_span := (nd_span (h x))[i := v]\<rparr>)"

definition set_backward :: "nat \<Rightarrow> nat option \<Rightarrow> heap \<Rightarrow> heap" where
  "set_backward x v h = h(x := (h x)\<lparr>nd_backward := v\<rparr>)"

abbreviation fwd :: "heap \<Rightarrow> nat \<Rightarrow> nat \<Rightarrow> nat option" where
  "fwd h x i \<equiv> nd_forward (h x) ! i"

abbreviation spn :: "heap \<Rightarrow> nat \<Rightarrow> nat \<Rightarrow> int" where
  "spn h x i \<equiv> nd_span (h x) ! i"

record skiplist =
  sl_heap :: heap
  sl_next :: nat
  sl_tail :: "nat option"
  sl_level :: nat
  sl_length :: int

definition sl_init :: skiplist where
  "sl_init = \<lparr>sl_heap = (\<lambda>_. node_new MAX_LEVEL [] (Fin 0)), sl_next = 1, sl_tail = None,
              sl_level = 1, sl_length = 0\<rparr>"

section \<open>Search\<close>

definition before :: "node \<Rightarrow> pyfloat \<Rightarrow> str \<Rightarrow> bool" where
  "before nd score member \<longleftrightarrow>
     flt (nd_score nd) score \<or> (feq (nd_score nd) score \<and> nd_member nd < member)"

definition gte_min :: "pyfloat \<Rightarrow> pyfloat \<Rightarrow> bool \<Rightarrow> bool" where
  "gte_min score lo exclusive = (if exclusive then flt lo score else fle lo score)"

definition lte_max :: "pyfloat \<Rightarrow> pyfloat \<Rightarrow> bool \<Rightarrow> bool" where
  "lte_max score hi exclusive = (if exclusive then flt score hi else fle score hi)"

primrec advance :: "nat \<Rightarrow> heap \<Rightarrow> (node \<Rightarrow> int \<Rightarrow> bool) \<Rightarrow> nat \<Rightarrow> nat \<Rightarrow> int \<Rightarrow> nat \<times> int" where
  "advance 0 h guard i x t = (x, t)"
| "advance (Suc fuel) h guard i x t =
     (case fwd h x i of
        None \<Rightarrow> (x, t)
      | Some nxt \<Rightarrow>
          let t' = t + spn h x i
          in if guard (h nxt) t' then advance fuel h guard i nxt t' else (x, t))"

text \<open>
  The loop \<open>for i in range(self.level - 1, -1, -1)\<close>: the node and the distance at which each level
  stopped, level 0 first.
\<close>

primrec descend :: "nat \<Rightarrow> heap \<Rightarrow> (node \<Rightarrow> int \<Rightarrow> bool) \<Rightarrow> nat \<Rightarrow> nat \<Rightarrow> int \<Rightarrow> (nat \<times> int) list" where
  "descend fuel h guard 0 x t = []"
| "descend fuel h guard (Suc i) x t =
     (case advance fuel h guard i x t of
        (x', t') \<Rightarrow> descend fuel h guard i x' t' @ [(x', t')])"

section \<open>Insertion\<close>

primrec random_level_loop :: "nat \<Rightarrow> nat \<Rightarrow> rng \<Rightarrow> nat \<times> rng" where
  "random_level_loop 0 level r = (level, r)"
| "random_level_loop (Suc k) level r =
     (case rng_random r of (q, r') \<Rightarrow>
        if q < 1 / 4 then random_level_loop k (level + 1) r' else (level, r'))"

definition random_level :: "rng \<Rightarrow> nat \<times> rng" where
  "random_level r = random_level_loop (MAX_LEVEL - 1) 1 r"

definition link_level :: "nat \<Rightarrow> (nat \<Rightarrow> nat) \<Rightarrow> (nat \<Rightarrow> int) \<Rightarrow> nat \<Rightarrow> heap \<Rightarrow> heap" where
  "link_level a update rank i h =
     (let prev = update i;
          h = set_forward a i (fwd h prev i) h;
          h = set_forward prev i (Some a) h;
          h = set_span a i (spn h prev i - (rank 0 - rank i)) h;
          h = set_span prev i ((rank 0 - rank i) + 1) h
      in h)"

definition bump_level :: "(nat \<Rightarrow> nat) \<Rightarrow> nat \<Rightarrow> heap \<Rightarrow> heap" where
  "bump_level update i h = set_span (update i) i (spn h (update i) i + 1) h"

definition sl_insert :: "pyfloat \<Rightarrow> str \<Rightarrow> rng \<Rightarrow> skiplist \<Rightarrow> skiplist \<times> rng" where
  "sl_insert score member r s =
     (let trail = descend (sl_next s) (sl_heap s) (\<lambda>nd _. before nd score member) (sl_level s) 0 0;
          update = (\<lambda>i. if i < sl_level s then fst (trail ! i) else 0);
          rank = (\<lambda>i. if i < sl_level s then snd (trail ! i) else 0);
          (level, r') = random_level r;
          h = fold (\<lambda>i. set_span 0 i (sl_length s)) [sl_level s..<level] (sl_heap s);
          peak = max (sl_level s) level;
          a = sl_next s;
          h = h(a := node_new level member score);
          h = fold (link_level a update rank) [0..<level] h;
          h = fold (bump_level update) [level..<peak] h;
          h = set_backward a (if update 0 = 0 then None else Some (update 0)) h;
          after = fwd h a 0;
          h = (case after of Some b \<Rightarrow> set_backward b (Some a) h | None \<Rightarrow> h)
      in (\<lparr>sl_heap = h, sl_next = Suc a,
           sl_tail = (case after of Some b \<Rightarrow> sl_tail s | None \<Rightarrow> Some a),
           sl_level = peak, sl_length = sl_length s + 1\<rparr>, r'))"

section \<open>Deletion\<close>

definition unlink_level :: "nat \<Rightarrow> (nat \<Rightarrow> nat) \<Rightarrow> nat \<Rightarrow> heap \<Rightarrow> heap" where
  "unlink_level a update i h =
     (let prev = update i
      in if fwd h prev i = Some a
         then set_forward prev i (fwd h a i) (set_span prev i (spn h prev i + (spn h a i - 1)) h)
         else set_span prev i (spn h prev i - 1) h)"

fun shrink_level :: "heap \<Rightarrow> nat \<Rightarrow> nat" where
  "shrink_level h (Suc (Suc l)) =
     (if fwd h 0 (Suc l) = None then shrink_level h (Suc l) else Suc (Suc l))"
| "shrink_level h l = l"

definition sl_unlink :: "nat \<Rightarrow> (nat \<Rightarrow> nat) \<Rightarrow> skiplist \<Rightarrow> skiplist" where
  "sl_unlink a update s =
     (let h = fold (unlink_level a update) [0..<sl_level s] (sl_heap s);
          after = fwd h a 0;
          h' = (case after of Some b \<Rightarrow> set_backward b (nd_backward (h a)) h | None \<Rightarrow> h)
      in s\<lparr>sl_heap := h',
           sl_tail := (case after of Some b \<Rightarrow> sl_tail s | None \<Rightarrow> nd_backward (h a)),
           sl_level := shrink_level h' (sl_level s),
           sl_length := sl_length s - 1\<rparr>)"

definition sl_delete :: "pyfloat \<Rightarrow> str \<Rightarrow> skiplist \<Rightarrow> bool \<times> skiplist" where
  "sl_delete score member s =
     (let h = sl_heap s;
          trail = descend (sl_next s) h (\<lambda>nd _. before nd score member) (sl_level s) 0 0;
          update = (\<lambda>i. if i < sl_level s then fst (trail ! i) else 0)
      in case fwd h (update 0) 0 of
           None \<Rightarrow> (False, s)
         | Some target \<Rightarrow>
             if \<not> feq (nd_score (h target)) score \<or> nd_member (h target) \<noteq> member
             then (False, s)
             else (True, sl_unlink target update s))"

section \<open>Rank and range queries\<close>

primrec rank_loop :: "nat \<Rightarrow> heap \<Rightarrow> pyfloat \<Rightarrow> str \<Rightarrow> nat \<Rightarrow> nat \<Rightarrow> int \<Rightarrow> int" where
  "rank_loop fuel h score member 0 x t = 0"
| "rank_loop fuel h score member (Suc i) x t =
     (case advance fuel h (\<lambda>nd _. flt (nd_score nd) score \<or>
                (feq (nd_score nd) score \<and> nd_member nd \<le> member)) i x t of
        (x', t') \<Rightarrow> if x' \<noteq> 0 \<and> nd_member (h x') = member then t'
                    else rank_loop fuel h score member i x' t')"

definition sl_rank :: "pyfloat \<Rightarrow> str \<Rightarrow> skiplist \<Rightarrow> int" where
  "sl_rank score member s = rank_loop (sl_next s) (sl_heap s) score member (sl_level s) 0 0"

primrec by_rank_loop :: "nat \<Rightarrow> heap \<Rightarrow> int \<Rightarrow> nat \<Rightarrow> nat \<Rightarrow> int \<Rightarrow> nat option" where
  "by_rank_loop fuel h rank 0 x t = None"
| "by_rank_loop fuel h rank (Suc i) x t =
     (case advance fuel h (\<lambda>_ t'. t' \<le> rank) i x t of
        (x', t') \<Rightarrow> if t' = rank then Some x' else by_rank_loop fuel h rank i x' t')"

definition sl_by_rank :: "int \<Rightarrow> skiplist \<Rightarrow> nat option" where
  "sl_by_rank rank s = by_rank_loop (sl_next s) (sl_heap s) rank (sl_level s) 0 0"

definition sl_range_may_overlap :: "pyfloat \<Rightarrow> pyfloat \<Rightarrow> bool \<Rightarrow> bool \<Rightarrow> skiplist \<Rightarrow> bool" where
  "sl_range_may_overlap lo hi lo_ex hi_ex s =
     (if flt hi lo \<or> (feq lo hi \<and> (lo_ex \<or> hi_ex)) then False
      else case (fwd (sl_heap s) 0 0, sl_tail s) of
             (Some first, Some final) \<Rightarrow>
               gte_min (nd_score (sl_heap s final)) lo lo_ex \<and>
               lte_max (nd_score (sl_heap s first)) hi hi_ex
           | _ \<Rightarrow> False)"

text \<open>The node at which a descent ends: the level-0 entry of its trail.\<close>

definition descend_end :: "(node \<Rightarrow> bool) \<Rightarrow> skiplist \<Rightarrow> nat" where
  "descend_end guard s =
     fst (descend (sl_next s) (sl_heap s) (\<lambda>nd _. guard nd) (sl_level s) 0 0 ! 0)"

definition sl_first_in_range :: "pyfloat \<Rightarrow> pyfloat \<Rightarrow> bool \<Rightarrow> bool \<Rightarrow> skiplist \<Rightarrow> nat option" where
  "sl_first_in_range lo hi lo_ex hi_ex s =
     (if \<not> sl_range_may_overlap lo hi lo_ex hi_ex s then None
      else let x = descend_end (\<lambda>nd. \<not> gte_min (nd_score nd) lo lo_ex) s
           in case fwd (sl_heap s) x 0 of
                None \<Rightarrow> None
              | Some candidate \<Rightarrow>
                  if \<not> lte_max (nd_score (sl_heap s candidate)) hi hi_ex then None else Some candidate)"

definition sl_last_in_range :: "pyfloat \<Rightarrow> pyfloat \<Rightarrow> bool \<Rightarrow> bool \<Rightarrow> skiplist \<Rightarrow> nat option" where
  "sl_last_in_range lo hi lo_ex hi_ex s =
     (if \<not> sl_range_may_overlap lo hi lo_ex hi_ex s then None
      else let x = descend_end (\<lambda>nd. lte_max (nd_score nd) hi hi_ex) s
           in if x = 0 \<or> \<not> gte_min (nd_score (sl_heap s x)) lo lo_ex then None else Some x)"

text \<open>\<open>__iter__\<close>: the walk along level 0.\<close>

primrec walk_level0 :: "nat \<Rightarrow> heap \<Rightarrow> nat option \<Rightarrow> nat list" where
  "walk_level0 0 h x = []"
| "walk_level0 (Suc fuel) h x =
     (case x of None \<Rightarrow> [] | Some a \<Rightarrow> a # walk_level0 fuel h (fwd h a 0))"

definition sl_iter :: "skiplist \<Rightarrow> nat list" where
  "sl_iter s = walk_level0 (sl_next s) (sl_heap s) (fwd (sl_heap s) 0 0)"

section \<open>Well-formed lists\<close>

text \<open>
  The addresses of a list in order are a list \<open>ns\<close>; position 0 is the header and position
  \<open>k + 1\<close> the node \<open>ns ! k\<close>.  At level \<open>i\<close> the pointer of the node at position \<open>k\<close> goes to the
  first node of \<open>drop k ns\<close> higher than \<open>i\<close>, and its span counts the nodes it passes.
\<close>

abbreviation hgt :: "heap \<Rightarrow> nat \<Rightarrow> nat" where
  "hgt h a \<equiv> length (nd_forward (h a))"

abbreviation pos :: "nat list \<Rightarrow> nat \<Rightarrow> nat" where
  "pos ns k \<equiv> (0 # ns) ! k"

fun nxt_at :: "(nat \<Rightarrow> nat) \<Rightarrow> nat \<Rightarrow> nat list \<Rightarrow> nat option" where
  "nxt_at H i [] = None"
| "nxt_at H i (a # t) = (if i < H a then Some a else nxt_at H i t)"

fun dist_at :: "(nat \<Rightarrow> nat) \<Rightarrow> nat \<Rightarrow> nat list \<Rightarrow> int" where
  "dist_at H i [] = 0"
| "dist_at H i (a # t) = (if i < H a then 1 else 1 + dist_at H i t)"

definition links :: "heap \<Rightarrow> nat \<Rightarrow> nat list \<Rightarrow> bool" where
  "links h lvl ns \<longleftrightarrow> (\<forall>k \<le> length ns. \<forall>i < lvl. i < hgt h (pos ns k) \<longrightarrow>
     fwd h (pos ns k) i = nxt_at (hgt h) i (drop k ns) \<and>
     spn h (pos ns k) i = dist_at (hgt h) i (drop k ns))"

definition key_of :: "heap \<Rightarrow> nat \<Rightarrow> pyfloat \<times> str" where
  "key_of h a = (nd_score (h a), nd_member (h a))"

definition heights :: "heap \<Rightarrow> nat \<Rightarrow> nat list \<Rightarrow> bool" where
  "heights h lvl ns \<longleftrightarrow> 1 \<le> lvl \<and> lvl \<le> MAX_LEVEL \<and> hgt h 0 = MAX_LEVEL \<and>
     (\<forall>a\<in>set (0 # ns). length (nd_span (h a)) = hgt h a) \<and>
     (\<forall>a\<in>set ns. 1 \<le> hgt h a \<and> hgt h a \<le> lvl)"

definition backs :: "heap \<Rightarrow> nat list \<Rightarrow> bool" where
  "backs h ns \<longleftrightarrow> (\<forall>k < length ns. nd_backward (h (ns ! k)) = (if k = 0 then None else Some (ns ! (k - 1))))"

definition ordered :: "heap \<Rightarrow> nat list \<Rightarrow> bool" where
  "ordered h ns \<longleftrightarrow> sorted_wrt (<) (map (key_of h) ns) \<and> distinct (map (\<lambda>a. nd_member (h a)) ns) \<and>
     (\<forall>a\<in>set ns. nd_score (h a) \<noteq> NaN)"

definition sl_rep :: "skiplist \<Rightarrow> nat list \<Rightarrow> bool" where
  "sl_rep s ns \<longleftrightarrow> distinct (0 # ns) \<and> (\<forall>a\<in>set (0 # ns). a < sl_next s) \<and>
     heights (sl_heap s) (sl_level s) ns \<and> links (sl_heap s) (sl_level s) ns \<and>
     (\<forall>i. sl_level s \<le> i \<and> i < MAX_LEVEL \<longrightarrow> fwd (sl_heap s) 0 i = None) \<and>
     backs (sl_heap s) ns \<and> sl_tail s = (if ns = [] then None else Some (last ns)) \<and>
     sl_length s = int (length ns) \<and> ordered (sl_heap s) ns"

definition sl_inv :: "skiplist \<Rightarrow> bool" where
  "sl_inv s \<longleftrightarrow> sl_rep s (sl_iter s)"

text \<open>Pointers over a split list.\<close>

lemma nxt_at_append_low: "\<forall>a\<in>set u. H a \<le> i \<Longrightarrow> nxt_at H i (u @ t) = nxt_at H i t"
  by (induction u) auto

lemma dist_at_append_low: "\<forall>a\<in>set u. H a \<le> i \<Longrightarrow> dist_at H i (u @ t) = int (length u) + dist_at H i t"
  by (induction u) auto

lemma at_append_high:
  "\<exists>a\<in>set u. i < H a \<Longrightarrow> nxt_at H i (u @ t) = nxt_at H i u \<and> dist_at H i (u @ t) = dist_at H i u"
  by (induction u) auto

lemma at_cong:
  "\<forall>a\<in>set t. H a = H' a \<Longrightarrow> nxt_at H i t = nxt_at H' i t \<and> dist_at H i t = dist_at H' i t"
  by (induction t) auto

lemma at_low: "\<forall>a\<in>set t. H a \<le> i \<Longrightarrow> nxt_at H i t = None \<and> dist_at H i t = int (length t)"
  by (induction t) auto

lemma nxt_at_None: "nxt_at H i t = None \<longleftrightarrow> (\<forall>a\<in>set t. H a \<le> i)"
  by (induction t) auto

lemma nxt_at_SomeD:
  "nxt_at H i t = Some b \<Longrightarrow>
   \<exists>u w. t = u @ b # w \<and> (\<forall>a\<in>set u. H a \<le> i) \<and> i < H b \<and> dist_at H i t = int (length u) + 1"
proof (induction t)
  case (Cons a t)
  show ?case
  proof (cases "i < H a")
    case True
    with Cons.prems show ?thesis by (intro exI [of _ "[]"] exI [of _ t]) simp
  next
    case False
    with Cons obtain u w where "t = u @ b # w" "\<forall>a\<in>set u. H a \<le> i" "i < H b"
      "dist_at H i t = int (length u) + 1" by auto
    with False show ?thesis by (intro exI [of _ "a # u"] exI [of _ w]) simp
  qed
qed simp

lemma linksD:
  "links h lvl ns \<Longrightarrow> k \<le> length ns \<Longrightarrow> i < lvl \<Longrightarrow> i < hgt h (pos ns k) \<Longrightarrow>
   fwd h (pos ns k) i = nxt_at (hgt h) i (drop k ns) \<and> spn h (pos ns k) i = dist_at (hgt h) i (drop k ns)"
  by (simp add: links_def)

section \<open>Where a search stops\<close>

text \<open>The last position up to \<open>p\<close> whose node is higher than \<open>i\<close>.\<close>

fun lastpos :: "(nat \<Rightarrow> nat) \<Rightarrow> nat list \<Rightarrow> nat \<Rightarrow> nat \<Rightarrow> nat" where
  "lastpos H ns i 0 = 0"
| "lastpos H ns i (Suc p) = (if i < H (ns ! p) then Suc p else lastpos H ns i p)"

lemma lastpos_le [simp]: "lastpos H ns i p \<le> p"
  by (induction p) (auto simp: le_Suc_eq)

lemma lastpos_high: "i < H 0 \<Longrightarrow> i < H (pos ns (lastpos H ns i p))"
  by (induction p) auto

lemma lastpos_low: "lastpos H ns i p \<le> j \<Longrightarrow> j < p \<Longrightarrow> H (ns ! j) \<le> i"
  by (induction p) (auto simp: less_Suc_eq split: if_splits)

lemma lastpos_ge: "k \<le> p \<Longrightarrow> i < H (pos ns k) \<Longrightarrow> k \<le> lastpos H ns i p"
proof (induction p)
  case (Suc p)
  then show ?case by (cases "k = Suc p") auto
qed simp

lemma lastpos_mono: "i \<le> j \<Longrightarrow> lastpos H ns j p \<le> lastpos H ns i p"
  by (induction p) (auto intro: le_SucI order_trans [OF lastpos_le])

lemma lastpos_zero: "(\<And>j. j < p \<Longrightarrow> 0 < H (ns ! j)) \<Longrightarrow> lastpos H ns 0 p = p"
  by (cases p) auto

lemma lastpos_all_low: "(\<And>j. j < p \<Longrightarrow> H (ns ! j) \<le> i) \<Longrightarrow> lastpos H ns i p = 0"
  by (induction p) (auto simp: not_less)

lemma lastpos_set_low:
  assumes "p \<le> length ns" "k \<le> p" "i < H (pos ns k)"
  shows "(\<forall>a\<in>set (take (p - k) (drop k ns)). H a \<le> i) \<longleftrightarrow> lastpos H ns i p = k"
proof
  assume low: "\<forall>a\<in>set (take (p - k) (drop k ns)). H a \<le> i"
  show "lastpos H ns i p = k"
  proof (rule ccontr)
    assume "lastpos H ns i p \<noteq> k"
    with lastpos_ge [of k p i H ns] assms have *: "k < lastpos H ns i p" by simp
    define j where "j = lastpos H ns i p - 1"
    from * have j: "lastpos H ns i p = Suc j" "k \<le> j" by (simp_all add: j_def)
    have "j < p" using lastpos_le [of H ns i p] j by simp
    have "i < H (ns ! j)"
      using j(1) by (induction p) (auto split: if_splits)
    moreover have "ns ! j \<in> set (take (p - k) (drop k ns))"
      using \<open>j < p\<close> j(2) assms by (auto simp: in_set_conv_nth intro!: exI [of _ "j - k"])
    ultimately show False using low by fastforce
  qed
next
  assume "lastpos H ns i p = k"
  then show "\<forall>a\<in>set (take (p - k) (drop k ns)). H a \<le> i"
    using lastpos_low [of H ns i p] assms by (auto simp: in_set_conv_nth)
qed

definition cuts :: "heap \<Rightarrow> nat list \<Rightarrow> (node \<Rightarrow> int \<Rightarrow> bool) \<Rightarrow> nat \<Rightarrow> bool" where
  "cuts h ns guard p \<longleftrightarrow> p \<le> length ns \<and> (\<forall>j < length ns. guard (h (ns ! j)) (int j + 1) \<longleftrightarrow> j < p)"

lemma advance_lastpos:
  assumes "links h lvl ns" "i < lvl" "cuts h ns guard p"
  shows "k \<le> p \<Longrightarrow> i < hgt h (pos ns k) \<Longrightarrow> p - k < fuel \<Longrightarrow>
    advance fuel h guard i (pos ns k) (int k) = (pos ns (lastpos (hgt h) ns i p), int (lastpos (hgt h) ns i p))"
proof (induction fuel arbitrary: k)
  case (Suc fuel)
  from assms(3) have p: "p \<le> length ns"
    and guard: "\<And>j. j < length ns \<Longrightarrow> guard (h (ns ! j)) (int j + 1) \<longleftrightarrow> j < p"
    by (auto simp: cuts_def)
  note low = lastpos_set_low [where H = "hgt h", OF p Suc.prems(1,2)]
  have l: "fwd h (pos ns k) i = nxt_at (hgt h) i (drop k ns)"
    "spn h (pos ns k) i = dist_at (hgt h) i (drop k ns)"
    using linksD [OF assms(1) _ assms(2) Suc.prems(2)] Suc.prems(1) p by auto
  show ?case
  proof (cases "nxt_at (hgt h) i (drop k ns)")
    case None
    then have "\<forall>a\<in>set (take (p - k) (drop k ns)). hgt h a \<le> i"
      by (auto simp: nxt_at_None dest: in_set_takeD)
    with low l None show ?thesis by simp
  next
    case (Some b)
    then obtain u w where u: "drop k ns = u @ b # w" "\<forall>a\<in>set u. hgt h a \<le> i" "i < hgt h b"
      "dist_at (hgt h) i (drop k ns) = int (length u) + 1"
      using nxt_at_SomeD by blast
    define j where "j = k + length u"
    have j: "j < length ns" using arg_cong [OF u(1), of length] by (simp add: j_def)
    have b: "ns ! j = b" using arg_cong [OF u(1), of "\<lambda>t. t ! length u"] j Suc.prems(1) p
      by (simp add: j_def nth_append)
    have t: "int k + spn h (pos ns k) i = int j + 1" using l(2) u(4) by (simp add: j_def)
    show ?thesis
    proof (cases "j < p")
      case True
      have "advance fuel h guard i (pos ns (Suc j)) (int (Suc j)) =
          (pos ns (lastpos (hgt h) ns i p), int (lastpos (hgt h) ns i p))"
        using True b u(3) Suc.prems(3) by (intro Suc.IH) (auto simp: j_def)
      then show ?thesis
        using Some l(1) t b guard [OF j] True by (simp add: Let_def add.commute)
    next
      case False
      then have "\<forall>a\<in>set (take (p - k) (drop k ns)). hgt h a \<le> i"
        using u(1,2) by (auto simp: j_def dest: in_set_takeD)
      then have "lastpos (hgt h) ns i p = k" using low by simp
      then show ?thesis using Some l(1) t b guard [OF j] False by (simp add: Let_def)
    qed
  qed
qed simp

text \<open>Every level of a descent stops at the last high-enough position before the cut.\<close>

lemma descend_lastpos:
  assumes "links h lvl ns" "cuts h ns guard p" "lvl \<le> hgt h 0" "p < fuel"
  shows "n \<le> lvl \<Longrightarrow> k \<le> p \<Longrightarrow> n \<noteq> 0 \<longrightarrow> n - 1 < hgt h (pos ns k) \<Longrightarrow>
    descend fuel h guard n (pos ns k) (int k) =
    map (\<lambda>i. (pos ns (lastpos (hgt h) ns i p), int (lastpos (hgt h) ns i p))) [0..<n]"
proof (induction n arbitrary: k)
  case (Suc n)
  then have n: "n < lvl" "n < hgt h 0" using assms(3) by auto
  have "advance fuel h guard n (pos ns k) (int k) =
      (pos ns (lastpos (hgt h) ns n p), int (lastpos (hgt h) ns n p))"
    using Suc.prems assms(4) by (intro advance_lastpos [OF assms(1) n(1) assms(2)]) auto
  moreover have "descend fuel h guard n (pos ns (lastpos (hgt h) ns n p)) (int (lastpos (hgt h) ns n p)) =
      map (\<lambda>i. (pos ns (lastpos (hgt h) ns i p), int (lastpos (hgt h) ns i p))) [0..<n]"
    using lastpos_high [of n "hgt h" ns p] n Suc.prems(1) by (intro Suc.IH) auto
  ultimately show ?case by simp
qed simp

lemma sl_rep_heights:
  assumes "sl_rep s ns"
  shows "1 \<le> sl_level s" "sl_level s \<le> MAX_LEVEL" "hgt (sl_heap s) 0 = MAX_LEVEL"
    and "a \<in> set ns \<Longrightarrow> 1 \<le> hgt (sl_heap s) a" "a \<in> set ns \<Longrightarrow> hgt (sl_heap s) a \<le> sl_level s"
    and "a \<in> set (0 # ns) \<Longrightarrow> length (nd_span (sl_heap s a)) = hgt (sl_heap s) a"
  using assms by (auto simp: sl_rep_def heights_def)

lemma sl_rep_fuel:
  assumes "sl_rep s ns"
  shows "length ns < sl_next s"
proof -
  have "card (set (0 # ns)) \<le> card {..<sl_next s}"
    using assms by (intro card_mono) (auto simp: sl_rep_def)
  moreover have "card (set (0 # ns)) = length (0 # ns)"
    using assms by (intro distinct_card) (simp add: sl_rep_def)
  ultimately show ?thesis by simp
qed

lemma sl_rep_links: "sl_rep s ns \<Longrightarrow> links (sl_heap s) (sl_level s) ns"
  by (simp add: sl_rep_def)

lemma sl_descend:
  assumes "sl_rep s ns" "cuts (sl_heap s) ns guard p"
  shows "descend (sl_next s) (sl_heap s) guard (sl_level s) 0 0 =
    map (\<lambda>i. (pos ns (lastpos (hgt (sl_heap s)) ns i p), int (lastpos (hgt (sl_heap s)) ns i p)))
      [0..<sl_level s]"
proof -
  have "p < sl_next s" using sl_rep_fuel [OF assms(1)] assms(2) by (simp add: cuts_def)
  then have "descend (sl_next s) (sl_heap s) guard (sl_level s) (pos ns 0) (int 0) =
    map (\<lambda>i. (pos ns (lastpos (hgt (sl_heap s)) ns i p), int (lastpos (hgt (sl_heap s)) ns i p)))
      [0..<sl_level s]"
    using sl_rep_heights(1-3) [OF assms(1)] assms(2)
    by (intro descend_lastpos [OF sl_rep_links [OF assms(1)]]) auto
  then show ?thesis by simp
qed

lemma sl_lastpos_zero: "sl_rep s ns \<Longrightarrow> p \<le> length ns \<Longrightarrow> lastpos (hgt (sl_heap s)) ns 0 p = p"
  using sl_rep_heights(4) by (intro lastpos_zero) (auto simp: Suc_le_eq)

lemma sl_fwd0:
  assumes "sl_rep s ns" "k \<le> length ns"
  shows "fwd (sl_heap s) (pos ns k) 0 = (if k < length ns then Some (ns ! k) else None)"
proof -
  have pos: "0 < hgt (sl_heap s) (pos ns k)"
    using sl_rep_heights(3,4) [OF assms(1)] assms(2)
    by (cases k) (auto simp: MAX_LEVEL_def Suc_le_eq)
  have "0 < sl_level s" using sl_rep_heights(1) [OF assms(1)] by simp
  then have "fwd (sl_heap s) (pos ns k) 0 = nxt_at (hgt (sl_heap s)) 0 (drop k ns)"
    using linksD [OF sl_rep_links [OF assms(1)] assms(2) _ pos] by simp
  moreover have "drop k ns = ns ! k # drop (Suc k) ns" "0 < hgt (sl_heap s) (ns ! k)" if "k < length ns"
    using that sl_rep_heights(4) [OF assms(1), of "ns ! k"] by (simp_all add: Cons_nth_drop_Suc Suc_le_eq)
  ultimately show ?thesis by (cases "k < length ns") auto
qed

lemma walk_level0_drop:
  assumes "sl_rep s ns"
  shows "k \<le> length ns \<Longrightarrow> length ns - k < fuel \<Longrightarrow>
    walk_level0 fuel (sl_heap s) (fwd (sl_heap s) (pos ns k) 0) = drop k ns"
proof (induction fuel arbitrary: k)
  case (Suc fuel)
  show ?case
  proof (cases "k < length ns")
    case True
    have "walk_level0 fuel (sl_heap s) (fwd (sl_heap s) (pos ns (Suc k)) 0) = drop (Suc k) ns"
      using True Suc.prems by (intro Suc.IH) auto
    with True show ?thesis
      unfolding sl_fwd0 [OF assms Suc.prems(1)] by (simp add: Cons_nth_drop_Suc)
  next
    case False
    with Suc.prems show ?thesis unfolding sl_fwd0 [OF assms Suc.prems(1)] by simp
  qed
qed simp

lemma sl_rep_iter: "sl_rep s ns \<Longrightarrow> sl_iter s = ns"
  using walk_level0_drop [of s ns 0 "sl_next s"] sl_rep_fuel [of s ns] by (simp add: sl_iter_def)

lemma sl_repI: "sl_rep s ns \<Longrightarrow> sl_inv s"
  by (simp add: sl_inv_def sl_rep_iter)

end
