(* ===== verification/SkipList_Update.thy ===== *)
theory SkipList_Update
  imports SkipList
begin

text \<open>
  Insertion and deletion of \<open>engine/datatypes/skiplist.py\<close> keep the list well formed: every
  pointer and span of every level again leads to the next node of that height.
\<close>

section \<open>Pointer updates level by level\<close>

definition shape :: "heap \<Rightarrow> nat \<Rightarrow> str \<times> pyfloat \<times> nat option \<times> nat \<times> nat" where
  "shape h x = (nd_member (h x), nd_score (h x), nd_backward (h x), hgt h x, length (nd_span (h x)))"

lemma nth_update_if: "xs[i := v] ! j = (if i = j \<and> j < length xs then v else xs ! j)"
  by (cases "i < length xs") (auto simp: nth_list_update list_update_beyond)

lemma set_shape [simp]:
  "shape (set_forward x i v h) = shape h" "shape (set_span x i w h) = shape h"
  by (rule ext, simp add: shape_def set_forward_def set_span_def)+

lemma fwd_set [simp]:
  "fwd (set_forward x i v h) y j = (if y = x \<and> j = i \<and> j < hgt h x then v else fwd h y j)"
  "fwd (set_span x i w h) y j = fwd h y j"
  "fwd (set_backward x b h) y j = fwd h y j"
  by (auto simp: set_forward_def set_span_def set_backward_def nth_update_if)

lemma spn_set [simp]:
  "spn (set_forward x i v h) y j = spn h y j"
  "spn (set_span x i w h) y j = (if y = x \<and> j = i \<and> j < length (nd_span (h x)) then w else spn h y j)"
  "spn (set_backward x b h) y j = spn h y j"
  by (auto simp: set_forward_def set_span_def set_backward_def nth_update_if)

lemma hgt_set [simp]:
  "hgt (set_forward x i v h) y = hgt h y" "hgt (set_span x i w h) y = hgt h y"
  "hgt (set_backward x b h) y = hgt h y"
  "length (nd_span (set_forward x i v h y)) = length (nd_span (h y))"
  "length (nd_span (set_span x i w h y)) = length (nd_span (h y))"
  "length (nd_span (set_backward x b h y)) = length (nd_span (h y))"
  by (auto simp: set_forward_def set_span_def set_backward_def)

lemma shapeD:
  assumes "shape h = shape h'"
  shows "nd_member (h x) = nd_member (h' x)" "nd_score (h x) = nd_score (h' x)"
    "nd_backward (h x) = nd_backward (h' x)" "hgt h x = hgt h' x"
    "length (nd_span (h x)) = length (nd_span (h' x))"
  using fun_cong [OF assms, of x] by (simp_all add: shape_def)

lemma raise_fold:
  assumes "L \<le> length (nd_span (h 0))"
  shows "shape (fold (\<lambda>i. set_span 0 i n) [l..<L] h) = shape h
    \<and> (\<forall>x j. fwd (fold (\<lambda>i. set_span 0 i n) [l..<L] h) x j = fwd h x j)
    \<and> (\<forall>x j. spn (fold (\<lambda>i. set_span 0 i n) [l..<L] h) x j =
         (if x = 0 \<and> l \<le> j \<and> j < L then n else spn h x j))"
  using assms
proof (induction L)
  case (Suc L)
  show ?case
  proof (cases "l \<le> L")
    case True
    define g where "g = fold (\<lambda>i. set_span 0 i n) [l..<L] h"
    have IH: "shape g = shape h" "\<And>x j. fwd g x j = fwd h x j"
      "\<And>x j. spn g x j = (if x = 0 \<and> l \<le> j \<and> j < L then n else spn h x j)"
      using Suc by (simp_all add: g_def)
    have eq: "fold (\<lambda>i. set_span 0 i n) [l..<Suc L] h = set_span 0 L n g" using True by (simp add: g_def)
    show ?thesis unfolding eq using IH True Suc.prems
      by (auto simp: shapeD(5) [OF IH(1)] less_Suc_eq)
  qed (use Suc in auto)
qed simp

lemma link_fold:
  assumes "\<And>i. i < L \<Longrightarrow> update i \<noteq> a \<and> i < hgt h (update i) \<and> i < length (nd_span (h (update i)))"
    and "L \<le> hgt h a" "L \<le> length (nd_span (h a))"
  shows "shape (fold (link_level a update rank) [0..<L] h) = shape h
    \<and> (\<forall>x j. fwd (fold (link_level a update rank) [0..<L] h) x j =
         (if j < L \<and> x = a then fwd h (update j) j
          else if j < L \<and> x = update j then Some a else fwd h x j))
    \<and> (\<forall>x j. spn (fold (link_level a update rank) [0..<L] h) x j =
         (if j < L \<and> x = a then spn h (update j) j - (rank 0 - rank j)
          else if j < L \<and> x = update j then (rank 0 - rank j) + 1 else spn h x j))"
  using assms
proof (induction L)
  case (Suc L)
  define g where "g = fold (link_level a update rank) [0..<L] h"
  have IH: "shape g = shape h"
    "\<And>x j. fwd g x j = (if j < L \<and> x = a then fwd h (update j) j
        else if j < L \<and> x = update j then Some a else fwd h x j)"
    "\<And>x j. spn g x j = (if j < L \<and> x = a then spn h (update j) j - (rank 0 - rank j)
        else if j < L \<and> x = update j then (rank 0 - rank j) + 1 else spn h x j)"
    using Suc.IH Suc.prems by (simp_all add: less_Suc_eq g_def)
  note sh = shapeD [OF IH(1)]
  have L: "update L \<noteq> a" "L < hgt h (update L)" "L < length (nd_span (h (update L)))"
    "L < hgt h a" "L < length (nd_span (h a))" using Suc.prems by auto
  have eq: "fold (link_level a update rank) [0..<Suc L] h = link_level a update rank L g" by (simp add: g_def)
  show ?case unfolding eq using IH L by (simp add: link_level_def Let_def sh less_Suc_eq)
qed simp

lemma bump_fold:
  assumes "\<And>i. l \<le> i \<Longrightarrow> i < L \<Longrightarrow> i < length (nd_span (h (update i)))"
  shows "shape (fold (bump_level update) [l..<L] h) = shape h
    \<and> (\<forall>x j. fwd (fold (bump_level update) [l..<L] h) x j = fwd h x j)
    \<and> (\<forall>x j. spn (fold (bump_level update) [l..<L] h) x j =
         spn h x j + (if l \<le> j \<and> j < L \<and> x = update j then 1 else 0))"
  using assms
proof (induction L)
  case (Suc L)
  show ?case
  proof (cases "l \<le> L")
    case True
    define g where "g = fold (bump_level update) [l..<L] h"
    have IH: "shape g = shape h" "\<And>x j. fwd g x j = fwd h x j"
      "\<And>x j. spn g x j = spn h x j + (if l \<le> j \<and> j < L \<and> x = update j then 1 else 0)"
      using Suc by (simp_all add: less_Suc_eq g_def)
    have eq: "fold (bump_level update) [l..<Suc L] h = bump_level update L g" using True by (simp add: g_def)
    show ?thesis unfolding eq using IH True Suc.prems [of L]
      by (auto simp: bump_level_def shapeD(5) [OF IH(1)] less_Suc_eq)
  qed (use Suc in auto)
qed simp

lemma unlink_fold:
  assumes "\<And>i. i < L \<Longrightarrow> update i \<noteq> a \<and> i < hgt h (update i) \<and> i < length (nd_span (h (update i)))"
  shows "shape (fold (unlink_level a update) [0..<L] h) = shape h
    \<and> (\<forall>x j. fwd (fold (unlink_level a update) [0..<L] h) x j =
         (if j < L \<and> x = update j \<and> fwd h x j = Some a then fwd h a j else fwd h x j))
    \<and> (\<forall>x j. spn (fold (unlink_level a update) [0..<L] h) x j =
         (if j < L \<and> x = update j
          then if fwd h x j = Some a then spn h x j + (spn h a j - 1) else spn h x j - 1
          else spn h x j))"
  using assms
proof (induction L)
  case (Suc L)
  define g where "g = fold (unlink_level a update) [0..<L] h"
  have IH: "shape g = shape h"
    "\<And>x j. fwd g x j = (if j < L \<and> x = update j \<and> fwd h x j = Some a then fwd h a j else fwd h x j)"
    "\<And>x j. spn g x j = (if j < L \<and> x = update j
        then if fwd h x j = Some a then spn h x j + (spn h a j - 1) else spn h x j - 1
        else spn h x j)"
    using Suc.IH Suc.prems by (simp_all add: less_Suc_eq g_def)
  note sh = shapeD [OF IH(1)]
  have L: "update L \<noteq> a" "L < hgt h (update L)" "L < length (nd_span (h (update L)))"
    using Suc.prems by auto
  have eq: "fold (unlink_level a update) [0..<Suc L] h = unlink_level a update L g" by (simp add: g_def)
  show ?case unfolding eq using IH L by (auto simp: unlink_level_def Let_def sh less_Suc_eq)
qed simp

section \<open>Insertion keeps the pointers right\<close>

lemma pos_inj:
  "distinct (0 # ns) \<Longrightarrow> j \<le> length ns \<Longrightarrow> k \<le> length ns \<Longrightarrow> pos ns j = pos ns k \<longleftrightarrow> j = k"
  by (simp only: nth_eq_iff_index_eq length_Cons less_Suc_eq_le)

lemma pos_mem: "k \<le> length ns \<Longrightarrow> pos ns k \<in> set (0 # ns)"
  by (metis length_Cons less_Suc_eq_le nth_mem)

lemma pos_insert:
  assumes "p \<le> length ns"
  shows "k \<le> p \<Longrightarrow> pos (take p ns @ a # drop p ns) k = pos ns k"
    and "pos (take p ns @ a # drop p ns) (Suc p) = a"
    and "p < k \<Longrightarrow> k \<le> length ns \<Longrightarrow> pos (take p ns @ a # drop p ns) (Suc k) = pos ns k"
  using assms by (cases k; auto simp: nth_append min_def)+

lemma drop_insert:
  assumes "p \<le> length ns"
  shows "k \<le> p \<Longrightarrow> drop k (take p ns @ a # drop p ns) = take (p - k) (drop k ns) @ a # drop p ns"
    and "p \<le> k \<Longrightarrow> drop (Suc k) (take p ns @ a # drop p ns) = drop k ns"
    and "k \<le> p \<Longrightarrow> drop k ns = take (p - k) (drop k ns) @ drop p ns"
proof -
  show "drop k ns = take (p - k) (drop k ns) @ drop p ns" if "k \<le> p"
    using that by (metis append_take_drop_id drop_drop le_add_diff_inverse2)
qed (use assms in \<open>auto simp: min_def drop_take Suc_diff_le\<close>)

lemma links_insert:
  fixes h h' :: heap and ns :: "nat list" and update rank
  defines "H \<equiv> hgt h"
  assumes links: "links h peak ns" and peak: "peak \<le> hgt h 0" and p: "p \<le> length ns"
    and fresh: "a \<notin> set (0 # ns)" and dist: "distinct (0 # ns)"
    and update: "\<And>i. i < peak \<Longrightarrow> update i = pos ns (lastpos H ns i p)"
    and rank: "\<And>i. i < peak \<Longrightarrow> rank i = int (lastpos H ns i p)" and rank0: "rank 0 = int p"
    and hgt: "\<And>x. hgt h' x = (if x = a then L else H x)" and L: "L \<le> peak"
    and fwd: "\<And>x j. j < peak \<Longrightarrow> x \<noteq> a \<or> j < L \<Longrightarrow> fwd h' x j = (if j < L \<and> x = a then fwd h (update j) j
        else if j < L \<and> x = update j then Some a else fwd h x j)"
    and spn: "\<And>x j. j < peak \<Longrightarrow> x \<noteq> a \<or> j < L \<Longrightarrow> spn h' x j = (if j < L \<and> x = a then spn h (update j) j - (rank 0 - rank j)
        else if j < L \<and> x = update j then (rank 0 - rank j) + 1
        else spn h x j + (if L \<le> j \<and> x = update j then 1 else 0))"
  shows "links h' peak (take p ns @ a # drop p ns)"
  unfolding links_def
proof (intro allI impI)
  fix k i
  let ?ns = "take p ns @ a # drop p ns"
  assume k: "k \<le> length ?ns" and i: "i < peak" and hi: "i < hgt h' (pos ?ns k)"
  have cong: "nxt_at (hgt h') i t = nxt_at H i t \<and> dist_at (hgt h') i t = dist_at H i t"
    if "set t \<subseteq> set ns" for t using that fresh by (intro at_cong) (auto simp: hgt)
  have sub: "set (take q (drop k ns)) \<subseteq> set ns" "set (drop q ns) \<subseteq> set ns" for q
    by (auto dest: in_set_takeD in_set_dropD)
  note old = linksD [OF links _ i, folded H_def]
  let ?m = "lastpos H ns i p"
  have m: "?m \<le> p" "?m \<le> length ns" "i < H (pos ns ?m)"
    using p i peak lastpos_high [of i H ns p] by (auto simp: H_def intro: order_trans [OF lastpos_le])
  consider (le) "k \<le> p" | (new) "k = Suc p" | (gt) k' where "k = Suc k'" "p < k'" "k' \<le> length ns"
    using k p by (cases k) (auto simp: not_le less_Suc_eq, linarith)
  then show "fwd h' (pos ?ns k) i = nxt_at (hgt h') i (drop k ?ns) \<and>
      spn h' (pos ?ns k) i = dist_at (hgt h') i (drop k ?ns)"
  proof cases
    case le
    let ?u = "take (p - k) (drop k ns)" and ?w = "drop p ns" and ?x = "pos ns k"
    have x: "pos ?ns k = ?x" "drop k ?ns = ?u @ a # ?w" using p le by (simp_all only: pos_insert(1) drop_insert(1))
    have split: "drop k ns = ?u @ ?w" using drop_insert(3) [OF p le] .
    have xa: "?x \<noteq> a" using pos_mem [of k ns] fresh le p by auto
    have hx: "i < H ?x" using hi xa unfolding x by (simp add: hgt)
    have o: "fwd h ?x i = nxt_at H i (?u @ ?w)" "spn h ?x i = dist_at H i (?u @ ?w)"
      using old [of k] hx le p split by (simp_all add: H_def)
    have low: "(\<forall>b\<in>set ?u. H b \<le> i) \<longleftrightarrow> ?m = k" using lastpos_set_low [where H = H, OF p le hx] .
    show ?thesis
    proof (cases "?m = k")
      case True
      then have u: "\<forall>b\<in>set ?u. hgt h' b \<le> i" using low fresh sub by (auto simp: hgt dest: in_set_takeD)
      have "update i = ?x" using update [OF i] True by simp
      then show ?thesis
        unfolding x nxt_at_append_low [OF u] dist_at_append_low [OF u]
        using True low o xa fresh cong [OF sub(2)] rank [OF i] rank0 le p
        by (simp add: fwd [OF i] spn [OF i] hgt nxt_at_append_low dist_at_append_low)
    next
      case False
      then have "update i \<noteq> ?x" using update [OF i] m(2) le p by (simp only: pos_inj [OF dist]) simp
      moreover have "\<exists>b\<in>set ?u. i < H b" using False low by (auto simp: not_le)
      then have "\<exists>b\<in>set ?u. i < hgt h' b" using sub fresh by (force simp: hgt dest: in_set_takeD)
      ultimately show ?thesis
        unfolding x using o xa cong [OF sub(1)] \<open>\<exists>b\<in>set ?u. i < H b\<close>
        by (simp add: fwd [OF i] spn [OF i] at_append_high)
    qed
  next
    case new
    have x: "pos ?ns k = a" "drop k ?ns = drop p ns" using p new by (simp_all only: pos_insert(2) drop_insert(2) order_refl)
    have iL: "i < L" using hi unfolding x by (simp add: hgt)
    have low: "\<forall>b\<in>set (take (p - ?m) (drop ?m ns)). H b \<le> i"
      using lastpos_set_low [where H = H, OF p m(1,3)] by simp
    have "fwd h (pos ns ?m) i = nxt_at H i (drop p ns)"
      "spn h (pos ns ?m) i = int (p - ?m) + dist_at H i (drop p ns)"
      using old [OF m(2)] m drop_insert(3) [OF p m(1)] nxt_at_append_low [OF low, of "drop p ns"]
        dist_at_append_low [OF low, of "drop p ns"] p by (simp_all add: H_def)
    then show ?thesis
      unfolding x using iL cong [OF sub(2)] rank [OF i] rank0 update [OF i] m(1)
      by (simp add: fwd [OF i] spn [OF i] of_nat_diff)
  next
    case gt
    have x: "pos ?ns k = pos ns k'" "drop k ?ns = drop k' ns"
      using p gt by (simp_all only: pos_insert(3) drop_insert(2) less_imp_le)
    have xa: "pos ns k' \<noteq> a" using pos_mem [of k' ns] fresh gt by auto
    have "update i \<noteq> pos ns k'" unfolding update [OF i] pos_inj [OF dist m(2) gt(3)] using m(1) gt(2) by linarith
    moreover have "i < H (pos ns k')" using hi xa unfolding x by (simp add: hgt)
    ultimately show ?thesis
      unfolding x using old [OF gt(3)] xa cong [OF sub(2)] by (simp add: fwd [OF i] spn [OF i] H_def)
  qed
qed

section \<open>Deletion keeps the pointers right\<close>

lemma links_delete:
  fixes h h' :: heap and xs ys :: "nat list" and a :: nat and update
  defines "H \<equiv> hgt h" and "ns \<equiv> xs @ a # ys" and "p \<equiv> length xs"
  assumes links: "links h peak ns" and peak: "peak \<le> hgt h 0" and dist: "distinct (0 # ns)"
    and update: "\<And>i. i < peak \<Longrightarrow> update i = pos ns (lastpos H ns i p)"
    and hgt: "\<And>x. hgt h' x = H x"
    and fwd: "\<And>x j. j < peak \<Longrightarrow> fwd h' x j = (if x = update j \<and> fwd h x j = Some a then fwd h a j else fwd h x j)"
    and spn: "\<And>x j. j < peak \<Longrightarrow> spn h' x j = (if x = update j
        then if fwd h x j = Some a then spn h x j + (spn h a j - 1) else spn h x j - 1 else spn h x j)"
  shows "links h' peak (xs @ ys)"
  unfolding links_def
proof (intro allI impI)
  fix k i
  assume k: "k \<le> length (xs @ ys)" and i: "i < peak" and hi: "i < hgt h' (pos (xs @ ys) k)"
  have H: "hgt h' = H" using hgt by (intro ext)
  have p: "p \<le> length ns" by (simp add: p_def ns_def)
  note old = linksD [OF links _ i, folded H_def]
  let ?m = "lastpos H ns i p"
  have m: "?m \<le> p" "?m \<le> length ns" using p by (auto intro: order_trans [OF lastpos_le])
  show "fwd h' (pos (xs @ ys) k) i = nxt_at (hgt h') i (drop k (xs @ ys)) \<and>
      spn h' (pos (xs @ ys) k) i = dist_at (hgt h') i (drop k (xs @ ys))"
  proof (cases "k \<le> p")
    case True
    let ?u = "drop k xs" and ?x = "pos ns k"
    have x: "pos (xs @ ys) k = ?x" "drop k (xs @ ys) = ?u @ ys" "drop k ns = ?u @ a # ys"
      "take (p - k) (drop k ns) = ?u" using True by (cases k; auto simp: ns_def p_def nth_append)+
    have hx: "i < H ?x" using hi unfolding x by (simp add: hgt)
    have low: "(\<forall>b\<in>set ?u. H b \<le> i) \<longleftrightarrow> ?m = k"
      using lastpos_set_low [where H = H, OF p True hx] unfolding x(4) .
    have kn: "k \<le> length ns" using True p by simp
    have o: "fwd h ?x i = nxt_at H i (?u @ a # ys)" "spn h ?x i = dist_at H i (?u @ a # ys)"
      using old [OF kn] hx unfolding x by (simp_all add: H_def)
    have oa: "fwd h a i = nxt_at H i ys \<and> spn h a i = dist_at H i ys" if "i < H a"
      using old [of "Suc p"] that by (simp add: ns_def p_def H_def nth_append)
    have "a \<notin> set ys" using dist by (simp add: ns_def)
    then have ny: "nxt_at H i ys \<noteq> Some a" by (auto dest: nxt_at_SomeD)
    show ?thesis
    proof (cases "?m = k")
      case True
      then have u: "\<forall>b\<in>set ?u. H b \<le> i" using low by simp
      have "update i = ?x" using update [OF i] True by simp
      then show ?thesis
        unfolding x H nxt_at_append_low [OF u] dist_at_append_low [OF u]
        using o oa ny by (auto simp: fwd [OF i] spn [OF i] nxt_at_append_low [OF u] dist_at_append_low [OF u])
    next
      case False
      then have "update i \<noteq> ?x" unfolding update [OF i] pos_inj [OF dist m(2) kn] .
      moreover have "\<exists>b\<in>set ?u. i < H b" using False low by (auto simp: not_le)
      ultimately show ?thesis
        unfolding x H using o by (simp add: fwd [OF i] spn [OF i] at_append_high)
    qed
  next
    case False
    have x: "pos (xs @ ys) k = pos ns (Suc k)" "drop k (xs @ ys) = drop (Suc k) ns"
      using False k by (cases k; auto simp: ns_def p_def nth_append Suc_diff_le not_le)+
    have kn: "Suc k \<le> length ns" using k by (simp add: ns_def)
    have "update i \<noteq> pos ns (Suc k)"
      unfolding update [OF i] pos_inj [OF dist m(2) kn] using m(1) False by linarith
    moreover have "i < H (pos ns (Suc k))" using hi unfolding x by (simp add: hgt)
    ultimately show ?thesis
      unfolding x H using old [OF kn] by (simp add: fwd [OF i] spn [OF i] H_def)
  qed
qed

section \<open>The cut of an ordered list\<close>

lemma ordered_nth:
  "ordered h ns \<Longrightarrow> i < j \<Longrightarrow> j < length ns \<Longrightarrow> key_of h (ns ! i) < key_of h (ns ! j)"
  by (auto simp: ordered_def sorted_wrt_iff_nth_less)

lemma cuts_takeWhile:
  assumes ord: "ordered h ns"
    and down: "\<And>x y. x < y \<Longrightarrow> Q y \<Longrightarrow> Q x"
    and guard: "\<And>b t. b \<in> set ns \<Longrightarrow> guard (h b) t \<longleftrightarrow> Q (key_of h b)"
  shows "cuts h ns guard (length (takeWhile (\<lambda>b. Q (key_of h b)) ns))"
proof -
  let ?T = "takeWhile (\<lambda>b. Q (key_of h b)) ns" let ?p = "length ?T"
  have "Q (key_of h (ns ! j)) \<longleftrightarrow> j < ?p" if j: "j < length ns" for j
  proof
    assume "j < ?p"
    then have "ns ! j \<in> set ?T" by (metis nth_mem takeWhile_nth)
    then show "Q (key_of h (ns ! j))" by (rule set_takeWhileD [THEN conjunct2])
  next
    assume q: "Q (key_of h (ns ! j))"
    show "j < ?p"
    proof (rule ccontr)
      assume "\<not> j < ?p"
      then have p: "?p \<le> j" "?p < length ns" using j by auto
      then have "\<not> Q (key_of h (ns ! ?p))" using nth_length_takeWhile [of "\<lambda>b. Q (key_of h b)" ns] by simp
      with q p j ordered_nth [OF ord, of ?p j] down show False by (cases "?p = j") auto
    qed
  qed
  with guard show ?thesis by (auto simp: cuts_def length_takeWhile_le)
qed

lemma before_key:
  "nd_score (h b) \<noteq> NaN \<Longrightarrow> score \<noteq> NaN \<Longrightarrow> before (h b) score member \<longleftrightarrow> key_of h b < (score, member)"
  by (auto simp: before_def key_of_def)

lemma cuts_before:
  assumes "ordered h ns" "score \<noteq> NaN"
  shows "cuts h ns (\<lambda>nd _. before nd score member) (length (takeWhile (\<lambda>b. key_of h b < (score, member)) ns))"
  using assms by (intro cuts_takeWhile) (auto simp: before_key ordered_def intro: less_trans)

lemma random_level_loop_range:
  "level \<le> fst (random_level_loop k level r) \<and> fst (random_level_loop k level r) \<le> level + k"
proof (induction k arbitrary: level r)
  case (Suc k)
  show ?case using Suc [of "level + 1" "snd (rng_random r)"] by (auto split: prod.split)
qed simp

lemma random_level_range: "random_level r = (l, r') \<Longrightarrow> 1 \<le> l \<and> l \<le> MAX_LEVEL"
  using random_level_loop_range [of 1 "MAX_LEVEL - 1" r] by (simp add: random_level_def MAX_LEVEL_def)

section \<open>\<open>insert\<close>\<close>

text \<open>The heap of \<open>insert\<close> before the backward pointers are set.\<close>

definition ins_heap :: "pyfloat \<Rightarrow> str \<Rightarrow> nat \<Rightarrow> (nat \<Rightarrow> nat) \<Rightarrow> (nat \<Rightarrow> int) \<Rightarrow> skiplist \<Rightarrow> heap" where
  "ins_heap score member level update rank s =
     fold (bump_level update) [level..<max (sl_level s) level]
       (fold (link_level (sl_next s) update rank) [0..<level]
         ((fold (\<lambda>i. set_span 0 i (sl_length s)) [sl_level s..<level] (sl_heap s))
            (sl_next s := node_new level member score)))"

definition trail_update :: "skiplist \<Rightarrow> nat list \<Rightarrow> nat \<Rightarrow> nat \<Rightarrow> nat" where
  "trail_update s ns p i = (if i < sl_level s then pos ns (lastpos (hgt (sl_heap s)) ns i p) else 0)"

definition trail_rank :: "skiplist \<Rightarrow> nat list \<Rightarrow> nat \<Rightarrow> nat \<Rightarrow> int" where
  "trail_rank s ns p i = (if i < sl_level s then int (lastpos (hgt (sl_heap s)) ns i p) else 0)"

lemma trail_eq:
  assumes "sl_rep s ns" "cuts (sl_heap s) ns guard p"
  defines "trail \<equiv> descend (sl_next s) (sl_heap s) guard (sl_level s) 0 0"
  shows "(\<lambda>i. if i < sl_level s then fst (trail ! i) else 0) = trail_update s ns p"
    and "(\<lambda>i. if i < sl_level s then snd (trail ! i) else 0) = trail_rank s ns p"
  using sl_descend [OF assms(1,2)] by (auto simp: trail_def trail_update_def trail_rank_def)

lemma lastpos_peak:
  assumes "sl_rep s ns" "p \<le> length ns" "sl_level s \<le> i"
  shows "lastpos (hgt (sl_heap s)) ns i p = 0"
  using assms sl_rep_heights(5) [OF assms(1)] by (intro lastpos_all_low) (meson le_trans less_le_trans nth_mem)

lemma trail_lastpos:
  assumes "sl_rep s ns" "p \<le> length ns"
  shows "trail_update s ns p i = pos ns (lastpos (hgt (sl_heap s)) ns i p)"
    and "trail_rank s ns p i = int (lastpos (hgt (sl_heap s)) ns i p)"
    and "trail_rank s ns p 0 = int p" "trail_update s ns p 0 = pos ns p"
  using lastpos_peak [OF assms] sl_lastpos_zero [OF assms] sl_rep_heights(1) [OF assms(1)]
  by (auto simp: trail_update_def trail_rank_def)

lemma trail_in_range:
  assumes "sl_rep s ns" "p \<le> length ns" "i < MAX_LEVEL"
  shows "trail_update s ns p i \<in> set (0 # ns)" "i < hgt (sl_heap s) (trail_update s ns p i)"
    "i < length (nd_span (sl_heap s (trail_update s ns p i)))"
proof -
  let ?m = "lastpos (hgt (sl_heap s)) ns i p"
  have "?m \<le> length ns" using assms(2) by (auto intro: order_trans [OF lastpos_le])
  then show m: "trail_update s ns p i \<in> set (0 # ns)" unfolding trail_lastpos [OF assms(1,2)] by (rule pos_mem)
  show "i < hgt (sl_heap s) (trail_update s ns p i)"
    unfolding trail_lastpos [OF assms(1,2)] using sl_rep_heights(3) [OF assms(1)] assms(3)
    by (intro lastpos_high [where H = "hgt (sl_heap s)"]) simp
  then show "i < length (nd_span (sl_heap s (trail_update s ns p i)))"
    using sl_rep_heights(6) [OF assms(1) m] by simp
qed

lemma links_raise:
  assumes rep: "sl_rep s ns" and L: "L \<le> MAX_LEVEL"
  defines "h \<equiv> fold (\<lambda>i. set_span 0 i (sl_length s)) [sl_level s..<L] (sl_heap s)"
  shows "links h (max (sl_level s) L) ns" "shape h = shape (sl_heap s)" "fwd h x j = fwd (sl_heap s) x j"
proof -
  have "L \<le> length (nd_span (sl_heap s 0))"
    using L sl_rep_heights(6) [OF rep, of 0] sl_rep_heights(3) [OF rep] by simp
  note r = raise_fold [where h = "sl_heap s" and n = "sl_length s" and l = "sl_level s", OF this, folded h_def]
  show sh: "shape h = shape (sl_heap s)" and "fwd h x j = fwd (sl_heap s) x j" using r by simp_all
  have hg: "hgt h = hgt (sl_heap s)" using shapeD(4) [OF sh] by (intro ext)
  show "links h (max (sl_level s) L) ns"
    unfolding links_def hg
  proof (intro allI impI)
    fix k i
    assume k: "k \<le> length ns" and i: "i < max (sl_level s) L" and hi: "i < hgt h (pos ns k)"
    have hi': "i < hgt (sl_heap s) (pos ns k)" using hi shapeD(4) [OF sh] by simp
    show "fwd h (pos ns k) i = nxt_at (hgt (sl_heap s)) i (drop k ns) \<and>
        spn h (pos ns k) i = dist_at (hgt (sl_heap s)) i (drop k ns)"
    proof (cases "i < sl_level s")
      case True
      then show ?thesis using linksD [OF sl_rep_links [OF rep] k True hi'] r by simp
    next
      case False
      have "k = 0"
      proof (rule ccontr)
        assume "k \<noteq> 0"
        then have "pos ns k \<in> set ns" using k by (cases k) auto
        from sl_rep_heights(5) [OF rep this] hi' False show False by linarith
      qed
      moreover have "\<forall>a\<in>set ns. hgt (sl_heap s) a \<le> i"
        using sl_rep_heights(5) [OF rep] False by fastforce
      ultimately show ?thesis
        using at_low [of ns "hgt (sl_heap s)" i] r rep False i L by (simp add: sl_rep_def less_max_iff_disj)
    qed
  qed
qed

lemma ins_heap_shape:
  fixes score :: pyfloat and member :: str
  assumes rep: "sl_rep s ns" and p: "p \<le> length ns" and L: "1 \<le> L" "L \<le> MAX_LEVEL"
  defines "h \<equiv> ins_heap score member L (trail_update s ns p) (trail_rank s ns p) s"
  shows "shape h = (shape (sl_heap s))(sl_next s := (member, score, None, L, L))"
    and "links h (max (sl_level s) L) (take p ns @ sl_next s # drop p ns)"
    and "L \<le> i \<Longrightarrow> fwd h 0 i = fwd (sl_heap s) 0 i"
proof -
  let ?u = "trail_update s ns p" and ?r = "trail_rank s ns p" and ?a = "sl_next s"
  define h1 where "h1 = fold (\<lambda>i. set_span 0 i (sl_length s)) [sl_level s..<L] (sl_heap s)"
  note r = links_raise [OF rep L(2), folded h1_def]
  define h2 where "h2 = h1(?a := node_new L member score)"
  define h3 where "h3 = fold (link_level ?a ?u ?r) [0..<L] h2"
  have h: "h = fold (bump_level ?u) [L..<max (sl_level s) L] h3"
    by (simp add: h_def ins_heap_def h1_def h2_def h3_def)
  have fresh: "?a \<notin> set (0 # ns)" using rep by (auto simp: sl_rep_def)
  have ua: "?u i \<noteq> ?a" if "i < MAX_LEVEL" for i using trail_in_range(1) [OF rep p that] fresh by auto
  have mx: "max (sl_level s) L \<le> MAX_LEVEL" using L sl_rep_heights(2) [OF rep] by simp
  have in2: "?u i \<noteq> ?a \<and> i < hgt h2 (?u i) \<and> i < length (nd_span (h2 (?u i)))" if "i < MAX_LEVEL" for i
    using ua [OF that] trail_in_range(2,3) [OF rep p that] shapeD(4,5) [OF r(2)] by (simp add: h2_def)
  have s2: "shape h2 = (shape (sl_heap s))(?a := (member, score, None, L, L))"
    using r(2) by (auto simp: fun_eq_iff h2_def node_new_def shape_def)
  have "L \<le> hgt h2 ?a" "L \<le> length (nd_span (h2 ?a))" by (simp_all add: h2_def node_new_def)
  then have l: "shape h3 = shape h2"
    "\<And>x j. fwd h3 x j = (if j < L \<and> x = ?a then fwd h2 (?u j) j
        else if j < L \<and> x = ?u j then Some ?a else fwd h2 x j)"
    "\<And>x j. spn h3 x j = (if j < L \<and> x = ?a then spn h2 (?u j) j - (?r 0 - ?r j)
        else if j < L \<and> x = ?u j then (?r 0 - ?r j) + 1 else spn h2 x j)"
    using link_fold [of L ?u ?a h2 ?r, folded h3_def] in2 L(2) by auto
  have b: "shape h = shape h3" "\<And>x j. fwd h x j = fwd h3 x j"
    "\<And>x j. spn h x j = spn h3 x j + (if L \<le> j \<and> j < max (sl_level s) L \<and> x = ?u j then 1 else 0)"
    using bump_fold [of L "max (sl_level s) L" h3 ?u, folded h] in2 mx shapeD(5) [OF l(1)] by auto
  show sh: "shape h = (shape (sl_heap s))(?a := (member, score, None, L, L))" using b(1) l(1) s2 by simp
  show "fwd h 0 i = fwd (sl_heap s) 0 i" if "L \<le> i"
    using b(2) l(2) r(3) that fresh by (simp add: h2_def)
  have hg1: "hgt h1 = hgt (sl_heap s)" using shapeD(4) [OF r(2)] by (intro ext)
  have hg: "hgt h x = (if x = ?a then L else hgt h1 x)" for x
    using fun_cong [OF sh, of x] shapeD(4) [OF r(2), of x] by (auto simp: shape_def split: if_splits)
  show "links h (max (sl_level s) L) (take p ns @ ?a # drop p ns)"
  proof (rule links_insert [OF r(1) _ p fresh, where update = ?u and rank = ?r and L = L])
    show "max (sl_level s) L \<le> hgt h1 0" using mx shapeD(4) [OF r(2)] sl_rep_heights(3) [OF rep] by simp
    show "distinct (0 # ns)" using rep by (simp add: sl_rep_def)
    show "?u i = pos ns (lastpos (hgt h1) ns i p)" "?r i = int (lastpos (hgt h1) ns i p)" "?r 0 = int p" for i
      unfolding hg1 using trail_lastpos [OF rep p] by simp_all
    fix x j
    assume j: "j < max (sl_level s) L" and x: "x \<noteq> ?a \<or> j < L"
    show "fwd h x j = (if j < L \<and> x = ?a then fwd h1 (?u j) j
        else if j < L \<and> x = ?u j then Some ?a else fwd h1 x j)"
      using b(2) l(2) ua j x mx by (simp add: h2_def)
    show "spn h x j = (if j < L \<and> x = ?a then spn h1 (?u j) j - (?r 0 - ?r j)
        else if j < L \<and> x = ?u j then (?r 0 - ?r j) + 1
        else spn h1 x j + (if L \<le> j \<and> x = ?u j then 1 else 0))"
      using b(3) l(3) ua j x mx by (simp add: h2_def)
  qed (use hg in simp_all)
qed

lemma insort_takeWhile: "takeWhile (\<lambda>x. x < k) xs @ k # dropWhile (\<lambda>x. x < k) xs = insort k xs"
  by (induction xs) (auto simp: not_le)

lemma distinct_insert_mid:
  "distinct (map f (take p xs @ a # drop p xs)) \<longleftrightarrow> f a \<notin> f ` set xs \<and> distinct (map f xs)"
proof -
  define ys zs where "ys = take p xs" and "zs = drop p xs"
  then have "xs = ys @ zs" by simp
  then show ?thesis unfolding ys_def [symmetric] zs_def [symmetric] by auto
qed

lemma ordered_insert:
  fixes h' :: heap and p a :: nat and ns
  defines "ns' \<equiv> take p ns @ a # drop p ns"
  assumes ord: "ordered h ns" and p: "p = length (takeWhile (\<lambda>b. key_of h b < key) ns)"
    and new: "fst key \<noteq> NaN" "snd key \<notin> (\<lambda>b. nd_member (h b)) ` set ns"
    and keys: "key_of h' a = key" "\<And>b. b \<in> set ns \<Longrightarrow> key_of h' b = key_of h b"
  shows "ordered h' ns'"
    and "map (key_of h') ns' = insort key (map (key_of h) ns)"
proof -
  have sub: "set (take p ns) \<subseteq> set ns" "set (drop p ns) \<subseteq> set ns"
    by (auto dest: in_set_takeD in_set_dropD)
  have tw: "take p ns = takeWhile (\<lambda>b. key_of h b < key) ns" "drop p ns = dropWhile (\<lambda>b. key_of h b < key) ns"
    by (simp_all add: p takeWhile_eq_take [symmetric] dropWhile_eq_drop [symmetric])
  have "map (key_of h') (take p ns) = map (key_of h) (take p ns)"
    "map (key_of h') (drop p ns) = map (key_of h) (drop p ns)"
    using keys(2) sub by auto
  then have m: "map (key_of h') (take p ns) = takeWhile (\<lambda>x. x < key) (map (key_of h) ns)"
    "map (key_of h') (drop p ns) = dropWhile (\<lambda>x. x < key) (map (key_of h) ns)"
    by (simp_all add: tw takeWhile_map dropWhile_map comp_def)
  show eq: "map (key_of h') ns' = insort key (map (key_of h) ns)"
    using m by (simp add: ns'_def keys(1) insort_takeWhile)
  have nk: "key \<notin> set (map (key_of h) ns)" using new(2) by (auto simp: key_of_def)
  have mem: "nd_member (h' b) = nd_member (h b)" "nd_score (h' b) = nd_score (h b)" if "b \<in> set ns" for b
    using keys(2) [OF that] by (simp_all add: key_of_def)
  have "distinct (map (\<lambda>b. nd_member (h' b)) ns')"
    unfolding ns'_def distinct_insert_mid using ord new(2) keys(1) mem
    by (auto simp: ordered_def key_of_def cong: map_cong image_cong)
  moreover have "sorted_wrt (<) (map (key_of h') ns')"
    using ord nk unfolding eq by (simp add: ordered_def strict_sorted_iff distinct_insort sorted_insort)
  moreover have "\<forall>b\<in>set ns'. nd_score (h' b) \<noteq> NaN"
    using ord keys(1) new(1) mem sub by (auto simp: ns'_def ordered_def key_of_def)
  ultimately show "ordered h' ns'" by (simp add: ordered_def)
qed

lemma backs_insert:
  fixes h h' :: heap and p a :: nat and ns
  assumes backs: "backs h ns" and p: "p \<le> length ns" and "0 \<notin> set ns" and fresh: "a \<notin> set ns" "distinct ns"
    and a: "nd_backward (h' a) = (if pos ns p = 0 then None else Some (pos ns p))"
    and nxt: "p < length ns \<Longrightarrow> nd_backward (h' (ns ! p)) = Some a"
    and old: "\<And>b. b \<in> set ns \<Longrightarrow> p < length ns \<longrightarrow> b \<noteq> ns ! p \<Longrightarrow> nd_backward (h' b) = nd_backward (h b)"
  shows "backs h' (take p ns @ a # drop p ns)"
  unfolding backs_def
proof (intro allI impI)
  fix k
  let ?ns = "take p ns @ a # drop p ns"
  assume k: "k < length ?ns"
  have b: "nd_backward (h' (ns ! j)) = (if j = 0 then None else Some (ns ! (j - 1)))"
    if "j < length ns" "j \<noteq> p" for j
    using that old [of "ns ! j"] backs fresh(2) by (auto simp: backs_def nth_eq_iff_index_eq)
  consider (lt) "k < p" | (eq) "k = p" | (nxt) "k = Suc p" | (gt) "Suc p < k" by linarith
  then show "nd_backward (h' (?ns ! k)) = (if k = 0 then None else Some (?ns ! (k - 1)))"
  proof cases
    case lt
    then show ?thesis using b [of k] p by (cases k; cases ns) (simp_all add: nth_append min_def)
  next
    case eq
    moreover have "pos ns p \<noteq> 0" if "p \<noteq> 0" using that p assms(3) by (cases p) (auto simp: in_set_conv_nth)
    ultimately show ?thesis using a p by (cases p) (auto simp: nth_append min_def)
  next
    case nxt
    then show ?thesis using assms(7) k p by (simp add: nth_append min_def)
  next
    case gt
    define j where "j = k - 2"
    have "k = Suc (Suc j)" "p \<le> j" "Suc j < length ns" using gt k p by (simp_all add: j_def)
    then show ?thesis using b [of "Suc j"] p by (simp add: nth_append min_def Suc_diff_le)
  qed
qed

lemma sl_insert_eq:
  assumes rep: "sl_rep s ns" and cut: "cuts (sl_heap s) ns (\<lambda>nd _. before nd score member) p"
    and lvl: "random_level r = (L, r')"
  defines "a \<equiv> sl_next s"
    and "h \<equiv> ins_heap score member L (trail_update s ns p) (trail_rank s ns p) s"
  defines "h5 \<equiv> set_backward a (if pos ns p = 0 then None else Some (pos ns p)) h"
  shows "sl_insert score member r s =
    (\<lparr>sl_heap = (if p < length ns then set_backward (ns ! p) (Some a) h5 else h5), sl_next = Suc a,
      sl_tail = (if p < length ns then sl_tail s else Some a),
      sl_level = max (sl_level s) L, sl_length = sl_length s + 1\<rparr>, r')"
proof -
  have p: "p \<le> length ns" using cut by (simp add: cuts_def)
  note L = random_level_range [OF lvl]
  have "fwd h a 0 = nxt_at (hgt h) 0 (drop p ns)"
  proof -
    have n: "Suc p \<le> length (take p ns @ a # drop p ns)" using p by simp
    have at: "pos (take p ns @ a # drop p ns) (Suc p) = a" "drop (Suc p) (take p ns @ a # drop p ns) = drop p ns"
      using p by (simp_all only: pos_insert(2) drop_insert(2) order_refl)
    have "hgt h a = L" using fun_cong [OF ins_heap_shape(1) [OF rep p, of L score member], of a] L
      by (simp add: shape_def h_def a_def)
    then show ?thesis
      using linksD [OF ins_heap_shape(2) [OF rep p, of L score member, folded h_def a_def] n, of 0] L
      unfolding at by (simp add: less_max_iff_disj)
  qed
  also have "\<dots> = (if p < length ns then Some (ns ! p) else None)"
  proof (cases "p < length ns")
    case True
    then have "ns ! p \<in> set ns" by simp
    then have "ns ! p \<noteq> a" "1 \<le> hgt (sl_heap s) (ns ! p)"
      using rep sl_rep_heights(4) [OF rep, of "ns ! p"] by (auto simp: sl_rep_def a_def)
    then have "0 < hgt h (ns ! p)"
      using fun_cong [OF ins_heap_shape(1) [OF rep p, of L score member], of "ns ! p"] L
      by (auto simp: shape_def h_def a_def)
    moreover have "drop p ns = ns ! p # drop (Suc p) ns" using True by (simp add: Cons_nth_drop_Suc)
    ultimately show ?thesis using True by simp
  qed simp
  finally have after: "fwd h5 a 0 = (if p < length ns then Some (ns ! p) else None)" by (simp add: h5_def)
  have u0: "(if 0 < sl_level s then fst (descend (sl_next s) (sl_heap s)
      (\<lambda>nd _. before nd score member) (sl_level s) 0 0 ! 0) else 0) = pos ns p"
    using fun_cong [OF trail_eq(1) [OF rep cut], of 0] trail_lastpos(4) [OF rep p] by simp
  show ?thesis
    unfolding sl_insert_def lvl Let_def prod.case u0 trail_eq [OF rep cut]
    unfolding ins_heap_def [symmetric]
    unfolding h_def [symmetric]
    unfolding a_def [symmetric]
    unfolding h5_def [symmetric]
    using after by simp
qed

lemma sl_insert_rep:
  fixes r :: rng
  assumes rep: "sl_rep s ns" and new: "score \<noteq> NaN" "member \<notin> (\<lambda>b. nd_member (sl_heap s b)) ` set ns"
  defines "p \<equiv> length (takeWhile (\<lambda>b. key_of (sl_heap s) b < (score, member)) ns)"
    and "s' \<equiv> fst (sl_insert score member r s)"
  shows "sl_rep s' (take p ns @ sl_next s # drop p ns)"
    and "map (key_of (sl_heap s')) (take p ns @ sl_next s # drop p ns) =
      insort (score, member) (map (key_of (sl_heap s)) ns)"
proof -
  let ?a = "sl_next s" and ?ns = "take p ns @ sl_next s # drop p ns"
  have p: "p \<le> length ns" by (simp add: p_def length_takeWhile_le)
  have ord: "ordered (sl_heap s) ns" and d: "distinct (0 # ns)" and lt: "\<forall>b\<in>set (0 # ns). b < ?a"
    using rep by (simp_all add: sl_rep_def)
  have cut: "cuts (sl_heap s) ns (\<lambda>nd _. before nd score member) p"
    unfolding p_def by (rule cuts_before [OF ord new(1)])
  obtain L r' where lvl: "random_level r = (L, r')" by (cases "random_level r")
  note L = random_level_range [OF lvl]
  define h where "h = ins_heap score member L (trail_update s ns p) (trail_rank s ns p) s"
  define h5 where "h5 = set_backward ?a (if pos ns p = 0 then None else Some (pos ns p)) h"
  define h6 where "h6 = (if p < length ns then set_backward (ns ! p) (Some ?a) h5 else h5)"
  have s': "s' = \<lparr>sl_heap = h6, sl_next = Suc ?a, sl_tail = (if p < length ns then sl_tail s else Some ?a),
      sl_level = max (sl_level s) L, sl_length = sl_length s + 1\<rparr>"
    using sl_insert_eq [OF rep cut lvl] unfolding s'_def h6_def h5_def h_def by simp
  have "shape h x = (if x = ?a then (member, score, None, L, L) else shape (sl_heap s) x)" for x
    using ins_heap_shape(1) [OF rep p, of L score member] L by (simp add: h_def)
  then have sh: "nd_member (h x) = (if x = ?a then member else nd_member (sl_heap s x))"
    "nd_score (h x) = (if x = ?a then score else nd_score (sl_heap s x))"
    "nd_backward (h x) = (if x = ?a then None else nd_backward (sl_heap s x))"
    "hgt h x = (if x = ?a then L else hgt (sl_heap s) x)"
    "length (nd_span (h x)) = (if x = ?a then L else length (nd_span (sl_heap s x)))" for x
    unfolding shape_def by (metis prod.inject)+
  have node: "nd_member (h6 x) = nd_member (h x)" "nd_score (h6 x) = nd_score (h x)"
    "nd_forward (h6 x) = nd_forward (h x)" "nd_span (h6 x) = nd_span (h x)"
    "nd_backward (h6 x) = (if p < length ns \<and> x = ns ! p then Some ?a
       else if x = ?a then (if pos ns p = 0 then None else Some (pos ns p)) else nd_backward (h x))" for x
    by (auto simp: h6_def h5_def set_backward_def)
  have key: "key_of h6 ?a = (score, member)" "\<And>b. b \<in> set ns \<Longrightarrow> key_of h6 b = key_of (sl_heap s) b"
    using lt by (auto simp: key_of_def sh node)
  note o = ordered_insert [OF ord meta_eq_to_obj_eq [OF p_def] _ _ key] new
  have set: "set ?ns = insert ?a (set ns)" using append_take_drop_id [of p ns] by (metis Un_insert_right list.simps(15) set_append)
  have fresh: "?a \<notin> set (0 # ns)" using lt by auto
  show "map (key_of (sl_heap s')) ?ns = insort (score, member) (map (key_of (sl_heap s)) ns)"
    using o by (simp add: s')
  have "links h6 (max (sl_level s) L) ?ns"
    using ins_heap_shape(2) [OF rep p, of L score member] L node by (simp add: h_def links_def)
  moreover have "heights h6 (max (sl_level s) L) ?ns"
    unfolding heights_def set list.set(2) using sl_rep_heights [OF rep] L fresh
    by (auto simp: sh node le_max_iff_disj)
  moreover have "backs h6 ?ns"
    using rep p d fresh
    by (intro backs_insert [where h = "sl_heap s"]) (auto simp: sl_rep_def sh(3) node(5))
  moreover have "distinct (0 # ?ns)" "\<forall>b\<in>set (0 # ?ns). b < Suc ?a"
    using distinct_insert_mid [of id p ns ?a] d fresh lt by (auto simp: set less_SucI dest: in_set_takeD in_set_dropD)
  moreover have "fwd h6 0 i = None" if "max (sl_level s) L \<le> i" "i < MAX_LEVEL" for i
    using that ins_heap_shape(3) [OF rep p, of L i score member] L rep node(3) by (simp add: h_def sl_rep_def)
  moreover have "ordered h6 ?ns" using o by simp
  ultimately show "sl_rep s' ?ns"
    using rep p by (auto simp: sl_rep_def s')
qed

section \<open>\<open>delete\<close>\<close>

lemma shrink_level_spec:
  "1 \<le> l \<Longrightarrow> 1 \<le> shrink_level h l \<and> shrink_level h l \<le> l \<and>
   (\<forall>i. shrink_level h l \<le> i \<and> i < l \<longrightarrow> fwd h 0 i = None)"
  by (induction h l rule: shrink_level.induct) (auto simp: less_Suc_eq)

lemma backs_delete:
  assumes backs: "backs h (xs @ a # ys)" and d: "distinct (xs @ a # ys)"
    and nxt: "ys \<noteq> [] \<Longrightarrow> nd_backward (h' (hd ys)) = nd_backward (h a)"
    and old: "\<And>b. ys \<noteq> [] \<longrightarrow> b \<noteq> hd ys \<Longrightarrow> nd_backward (h' b) = nd_backward (h b)"
  shows "backs h' (xs @ ys)"
  unfolding backs_def
proof (intro allI impI)
  fix k
  assume k: "k < length (xs @ ys)"
  note b = backs [unfolded backs_def, rule_format]
  show "nd_backward (h' ((xs @ ys) ! k)) = (if k = 0 then None else Some ((xs @ ys) ! (k - 1)))"
  proof (cases "k < length xs")
    case True
    then have "(xs @ ys) ! k \<noteq> hd ys" if "ys \<noteq> []" using d that by (cases ys) (auto simp: nth_append)
    with True old [of "(xs @ ys) ! k"] b [of k] show ?thesis by (auto simp: nth_append)
  next
    case False
    define j where "j = k - length xs"
    have j: "k = length xs + j" "j < length ys" using False k by (auto simp: j_def)
    show ?thesis
    proof (cases j)
      case 0
      with j have "ys \<noteq> []" "(xs @ ys) ! k = hd ys" by (auto simp: nth_append hd_conv_nth)
      then show ?thesis using nxt b [of "length xs"] 0 j by (auto simp: nth_append)
    next
      case (Suc i)
      with j d have "(xs @ ys) ! k \<noteq> hd ys" by (cases ys) (auto simp: nth_append)
      with old [of "(xs @ ys) ! k"] b [of "Suc k"] j Suc show ?thesis by (auto simp: nth_append)
    qed
  qed
qed

lemma sl_unlink_rep:
  assumes rep: "sl_rep s (xs @ a # ys)"
    and update: "\<And>i. i < sl_level s \<Longrightarrow> update i = trail_update s (xs @ a # ys) (length xs) i"
  shows "sl_rep (sl_unlink a update s) (xs @ ys)"
    and "key_of (sl_heap (sl_unlink a update s)) = key_of (sl_heap s)"
proof -
  let ?ns = "xs @ a # ys" and ?h = "sl_heap s" and ?l = "sl_level s"
  have d: "distinct (0 # ?ns)" and p: "length xs \<le> length ?ns" using rep by (auto simp: sl_rep_def)
  define h1 where "h1 = fold (unlink_level a update) [0..<?l] ?h"
  have in_range: "update i \<noteq> a \<and> i < hgt ?h (update i) \<and> i < length (nd_span (?h (update i)))" if "i < ?l" for i
  proof -
    let ?m = "lastpos (hgt ?h) ?ns i (length xs)"
    have m: "?m \<le> length xs" "?m \<le> length ?ns" "Suc (length xs) \<le> length ?ns"
      by (auto intro: order_trans [OF lastpos_le])
    have "pos ?ns ?m \<noteq> pos ?ns (Suc (length xs))" unfolding pos_inj [OF d m(2,3)] using m(1) by linarith
    then show ?thesis
      using that trail_in_range [OF rep p, of i] trail_lastpos(1) [OF rep p, of i] sl_rep_heights(2) [OF rep]
      by (simp add: update nth_append)
  qed
  have u: "shape h1 = shape ?h"
    "\<And>x j. fwd h1 x j = (if j < ?l \<and> x = update j \<and> fwd ?h x j = Some a then fwd ?h a j else fwd ?h x j)"
    "\<And>x j. spn h1 x j = (if j < ?l \<and> x = update j
       then if fwd ?h x j = Some a then spn ?h x j + (spn ?h a j - 1) else spn ?h x j - 1 else spn ?h x j)"
    using unlink_fold [of ?l update a ?h, folded h1_def] in_range by simp_all
  have hg: "hgt h1 x = hgt ?h x" for x using shapeD(4) [OF u(1)] .
  have "links h1 ?l (xs @ ys)"
  proof (rule links_delete [OF sl_rep_links [OF rep] _ d, where update = update])
    show "update i = pos ?ns (lastpos (hgt ?h) ?ns i (length xs))" if "i < ?l" for i
      using update [OF that] trail_lastpos(1) [OF rep p] by simp
  qed (use sl_rep_heights [OF rep] hg u in simp_all)
  define h2 where "h2 = (if ys = [] then h1 else set_backward (hd ys) (nd_backward (h1 a)) h1)"
  have "0 < ?l" using sl_rep_heights(1) [OF rep] by simp
  then have "fwd h1 a 0 = fwd ?h a 0" using in_range [of 0] by (auto simp: u(2))
  also have "\<dots> = (if ys = [] then None else Some (hd ys))"
    using sl_fwd0 [OF rep, of "Suc (length xs)"] by (cases ys) (simp_all add: nth_append)
  finally have s': "sl_unlink a update s = s\<lparr>sl_heap := h2,
      sl_tail := (if ys = [] then nd_backward (h1 a) else sl_tail s),
      sl_level := shrink_level h2 ?l, sl_length := sl_length s - 1\<rparr>"
    by (simp add: sl_unlink_def h1_def [symmetric] h2_def Let_def)
  have node: "nd_member (h2 x) = nd_member (?h x)" "nd_score (h2 x) = nd_score (?h x)"
    "nd_forward (h2 x) = nd_forward (h1 x)" "nd_span (h2 x) = nd_span (h1 x)"
    "nd_backward (h2 x) = (if ys \<noteq> [] \<and> x = hd ys then nd_backward (?h a) else nd_backward (?h x))"
    "hgt h2 x = hgt ?h x" for x
    using shapeD [OF u(1)] by (auto simp: h2_def set_backward_def)
  have key: "key_of h2 = key_of ?h" by (rule ext) (simp add: key_of_def node)
  then show "key_of (sl_heap (sl_unlink a update s)) = key_of ?h" by (simp add: s')
  have links: "links h2 ?l (xs @ ys)" using \<open>links h1 ?l (xs @ ys)\<close> by (simp add: links_def node(3,4))
  let ?l' = "shrink_level h2 ?l"
  note l' = shrink_level_spec [OF sl_rep_heights(1) [OF rep], of h2]
  have "links h2 ?l' (xs @ ys)" using links l' by (simp add: links_def)
  moreover have low: "hgt ?h b \<le> ?l'" if b: "b \<in> set (xs @ ys)" for b
  proof (rule ccontr)
    assume c: "\<not> hgt ?h b \<le> ?l'"
    define i where "i = hgt ?h b - 1"
    have "hgt ?h b \<le> ?l" using sl_rep_heights(5) [OF rep, of b] b by auto
    with c have i: "?l' \<le> i" "i < ?l" "i < hgt ?h b" by (auto simp: i_def)
    have "fwd h2 0 i = nxt_at (hgt h2) i (xs @ ys)"
      using linksD [OF links _ i(2), of 0] i sl_rep_heights(2,3) [OF rep] by (simp add: node(6))
    then have "nxt_at (hgt h2) i (xs @ ys) = None" using l' i by simp
    then have "hgt h2 b \<le> i" using b unfolding nxt_at_None by blast
    then show False using i(3) node(6) by simp
  qed
  moreover have "heights h2 ?l' (xs @ ys)"
    unfolding heights_def using sl_rep_heights [OF rep] l' low
    by (auto simp: node(4,6) shapeD(5) [OF u(1)] hg)
  moreover have "backs h2 (xs @ ys)"
  proof (rule backs_delete [where h = ?h and a = a])
    show "backs ?h ?ns" using rep by (simp add: sl_rep_def)
  qed (use d in \<open>auto simp: node(5)\<close>)
  moreover have "fwd h2 0 i = None" if "?l' \<le> i" "i < MAX_LEVEL" for i
  proof (cases "i < ?l")
    case False
    then have "fwd ?h 0 i = None" using that(2) rep by (simp add: sl_rep_def)
    then show ?thesis using False by (simp add: node(3) u(2))
  qed (use that l' in simp)
  moreover have "ordered h2 (xs @ ys)"
    using rep by (auto simp: sl_rep_def ordered_def key node sorted_wrt_append)
  moreover have "(if ys = [] then nd_backward (h1 a) else sl_tail s) =
      (if xs @ ys = [] then None else Some (last (xs @ ys)))"
  proof (cases "ys = []")
    case True
    have "nd_backward (?h a) = (if xs = [] then None else Some (last xs))"
      using rep by (auto simp: sl_rep_def backs_def nth_append last_conv_nth dest!: spec [of _ "length xs"])
    with True show ?thesis using shapeD(3) [OF u(1)] by simp
  qed (use rep in \<open>simp add: sl_rep_def\<close>)
  ultimately show "sl_rep (sl_unlink a update s) (xs @ ys)"
    using rep by (auto simp: sl_rep_def s')
qed

lemma key_split:
  assumes "ordered h ns" "key \<in> key_of h ` set ns"
  obtains xs a ys where "ns = xs @ a # ys" "key_of h a = key" "\<forall>b\<in>set xs. key_of h b < key"
    "\<forall>b\<in>set ys. key < key_of h b"
proof -
  from assms(2) obtain a where a: "a \<in> set ns" "key_of h a = key" by auto
  then obtain xs ys where "ns = xs @ a # ys" by (meson split_list)
  with assms(1) a that show thesis by (auto simp: ordered_def sorted_wrt_append)
qed

lemma takeWhile_key_split:
  "\<forall>b\<in>set xs. f b < k \<Longrightarrow> f a = k \<Longrightarrow> takeWhile (\<lambda>b. f b < k) (xs @ a # ys) = xs" for k :: "'a :: order"
  by (induction xs) auto

lemma sl_delete_found:
  assumes rep: "sl_rep s ns" and score: "score \<noteq> NaN" and key: "(score, member) \<in> key_of (sl_heap s) ` set ns"
  shows "\<exists>xs a ys s'. ns = xs @ a # ys \<and> key_of (sl_heap s) a = (score, member) \<and>
    sl_delete score member s = (True, s') \<and> sl_rep s' (xs @ ys) \<and> key_of (sl_heap s') = key_of (sl_heap s)"
proof -
  let ?k = "(score, member)" and ?h = "sl_heap s"
  have ord: "ordered ?h ns" using rep by (simp add: sl_rep_def)
  from key_split [OF ord key] obtain xs a ys where ns: "ns = xs @ a # ys" and a: "key_of ?h a = ?k"
    and xs: "\<forall>b\<in>set xs. key_of ?h b < ?k" by metis
  have tw: "takeWhile (\<lambda>b. key_of ?h b < ?k) ns = xs"
    unfolding ns using xs a by (rule takeWhile_key_split)
  have cut: "cuts ?h ns (\<lambda>nd _. before nd score member) (length xs)"
    using cuts_before [OF ord score, of member] unfolding tw .
  define update where "update = trail_update s ns (length xs)"
  have p: "length xs \<le> length ns" by (simp add: ns)
  have "fwd ?h (update 0) 0 = Some a"
    unfolding update_def trail_lastpos(4) [OF rep p] sl_fwd0 [OF rep p] by (simp add: ns)
  moreover have "feq (nd_score (?h a)) score" "nd_member (?h a) = member"
    using a score by (auto simp: key_of_def)
  ultimately have "sl_delete score member s = (True, sl_unlink a update s)"
    unfolding sl_delete_def Let_def trail_eq(1) [OF rep cut]
    using fun_cong [OF trail_eq(1) [OF rep cut], of 0] by (simp add: update_def)
  moreover have "sl_rep (sl_unlink a update s) (xs @ ys)" "key_of (sl_heap (sl_unlink a update s)) = key_of ?h"
    using sl_unlink_rep [of s xs a ys update] rep by (simp_all add: ns update_def)
  ultimately show ?thesis using ns a by blast
qed

lemma sl_delete_absent:
  assumes rep: "sl_rep s ns" and key: "(score, member) \<notin> key_of (sl_heap s) ` set ns"
  shows "sl_delete score member s = (False, s)"
proof -
  let ?u = "fst (descend (sl_next s) (sl_heap s) (\<lambda>nd _. before nd score member) (sl_level s) 0 0 ! 0)"
  have "\<exists>k \<le> length ns. ?u = pos ns k"
  proof (cases "score = NaN")
    case True
    have "cuts (sl_heap s) ns (\<lambda>nd _. before nd score member) 0"
      using True by (auto simp: cuts_def before_def)
    from sl_descend [OF rep this] sl_rep_heights(1) [OF rep] show ?thesis
      by (auto simp: nth_append)
  next
    case False
    have ord: "ordered (sl_heap s) ns" using rep by (simp add: sl_rep_def)
    note c = cuts_before [OF ord False, of member]
    show ?thesis using sl_descend [OF rep c] sl_rep_heights(1) [OF rep] sl_lastpos_zero [OF rep]
        length_takeWhile_le [of "\<lambda>b. key_of (sl_heap s) b < (score, member)" ns] by auto
  qed
  then obtain k where k: "k \<le> length ns" "?u = pos ns k" by blast
  have "\<not> (feq (nd_score (sl_heap s b)) score \<and> nd_member (sl_heap s b) = member)" if "b \<in> set ns" for b
    using that key rep by (auto simp: sl_rep_def ordered_def key_of_def)
  then show ?thesis
    using sl_fwd0 [OF rep k(1)] sl_rep_heights(1) [OF rep] k
    by (auto simp: sl_delete_def Let_def)
qed

lemma sl_init_rep: "sl_rep sl_init []"
  by (auto simp: sl_rep_def sl_init_def node_new_def heights_def links_def backs_def ordered_def MAX_LEVEL_def)

end
