(* ===== verification/SkipList_Query.thy ===== *)
theory SkipList_Query
  imports SkipList_Update
begin

text \<open>
  The queries of \<open>engine/datatypes/skiplist.py\<close> (rank, element at a rank, first and last element
  of a score range) against the ordered list of elements, and the contract \<open>ordered_index\<close> that
  sorted sets rely on, interpreted on the skip list as \<open>sl\<close>.
\<close>

section \<open>Rank\<close>

lemma ordered_member_inj:
  assumes "ordered h ns" "i < length ns" "j < length ns" "nd_member (h (ns ! i)) = nd_member (h (ns ! j))"
  shows "i = j"
  using assms by (auto simp: ordered_def distinct_conv_nth)

lemma rank_loop_found:
  assumes rep: "sl_rep s ns" and q: "q < length ns" and mem: "nd_member (sl_heap s (ns ! q)) = member"
    and cut: "cuts (sl_heap s) ns (\<lambda>nd _. flt (nd_score nd) score \<or>
      (feq (nd_score nd) score \<and> nd_member nd \<le> member)) (Suc q)" and fuel: "length ns < fuel"
  shows "1 \<le> n \<Longrightarrow> n \<le> sl_level s \<Longrightarrow> k \<le> Suc q \<Longrightarrow> n - 1 < hgt (sl_heap s) (pos ns k) \<Longrightarrow>
    rank_loop fuel (sl_heap s) score member n (pos ns k) (int k) = int (Suc q)"
proof (induction n arbitrary: k)
  case (Suc i)
  let ?h = "sl_heap s"
  define m where "m = lastpos (hgt (sl_heap s)) ns i (Suc q)"
  have i: "i < sl_level s" "i < hgt ?h 0" using Suc.prems sl_rep_heights(2,3) [OF rep] by auto
  have adv: "advance fuel ?h (\<lambda>nd _. flt (nd_score nd) score \<or>
      (feq (nd_score nd) score \<and> nd_member nd \<le> member)) i (pos ns k) (int k) = (pos ns m, int m)"
    using Suc.prems fuel q unfolding m_def by (intro advance_lastpos [OF sl_rep_links [OF rep] i(1) cut]) auto
  have m_le: "m \<le> Suc q" unfolding m_def by (rule lastpos_le)
  have ord: "ordered ?h ns" and "0 \<notin> set ns" using rep by (simp_all add: sl_rep_def)
  show ?case
  proof (cases "pos ns m \<noteq> 0 \<and> nd_member (?h (pos ns m)) = member")
    case True
    then obtain j where j: "m = Suc j" by (cases m) auto
    with m_le q True mem have "j = q" by (intro ordered_member_inj [OF ord]) auto
    with adv True j show ?thesis by simp
  next
    case False
    have "i \<noteq> 0"
    proof
      assume "i = 0"
      with sl_lastpos_zero [OF rep, of "Suc q"] q have "m = Suc q" by (simp add: m_def)
      with False mem q \<open>0 \<notin> set ns\<close> show False by (auto simp: in_set_conv_nth)
    qed
    moreover have "i < hgt ?h (pos ns m)"
      using i(2) unfolding m_def by (rule lastpos_high [where H = "hgt ?h"])
    ultimately have "rank_loop fuel ?h score member i (pos ns m) (int m) = int (Suc q)"
      using Suc.prems m_le by (intro Suc.IH) auto
    with adv False show ?thesis by auto
  qed
qed simp

lemma cuts_le:
  assumes ord: "ordered h ns" and q: "q < length ns" and key: "key_of h (ns ! q) = (score, member)"
  shows "cuts h ns (\<lambda>nd _. flt (nd_score nd) score \<or> (feq (nd_score nd) score \<and> nd_member nd \<le> member)) (Suc q)"
proof -
  have "score \<noteq> NaN" using ord q key by (auto simp: ordered_def key_of_def)
  then have g: "(flt (nd_score (h b)) score \<or> (feq (nd_score (h b)) score \<and> nd_member (h b) \<le> member))
      \<longleftrightarrow> key_of h b \<le> key_of h (ns ! q)" if "b \<in> set ns" for b
    using that ord key by (auto simp: ordered_def key_of_def)
  have "key_of h (ns ! j) \<le> key_of h (ns ! q) \<longleftrightarrow> j < Suc q" if "j < length ns" for j
    using ordered_nth [OF ord, of j q] ordered_nth [OF ord, of q j] q that
    by (cases j q rule: linorder_cases) (auto simp: not_le [symmetric])
  with g q show ?thesis by (auto simp: cuts_def)
qed

lemma sl_rank_found:
  assumes "sl_rep s ns" "q < length ns" "key_of (sl_heap s) (ns ! q) = (score, member)"
  shows "sl_rank score member s = int (Suc q)"
proof -
  have ord: "ordered (sl_heap s) ns" using assms(1) by (simp add: sl_rep_def)
  have "rank_loop (sl_next s) (sl_heap s) score member (sl_level s) (pos ns 0) (int 0) = int (Suc q)"
    using sl_rep_heights [OF assms(1)] assms(3) sl_rep_fuel [OF assms(1)]
    by (intro rank_loop_found [OF assms(1,2) _ cuts_le [OF ord assms(2,3)]]) (auto simp: key_of_def)
  then show ?thesis by (simp add: sl_rank_def)
qed

section \<open>Element at a rank\<close>

lemma by_rank_loop_found:
  assumes rep: "sl_rep s ns" and q: "q \<le> length ns" and fuel: "length ns < fuel"
  shows "1 \<le> n \<Longrightarrow> n \<le> sl_level s \<Longrightarrow> k \<le> q \<Longrightarrow> n - 1 < hgt (sl_heap s) (pos ns k) \<Longrightarrow>
    by_rank_loop fuel (sl_heap s) (int q) n (pos ns k) (int k) = Some (pos ns q)"
proof (induction n arbitrary: k)
  case (Suc i)
  let ?h = "sl_heap s" and ?m = "lastpos (hgt (sl_heap s)) ns i q"
  have i: "i < sl_level s" "i < hgt ?h 0" using Suc.prems sl_rep_heights(2,3) [OF rep] by auto
  have cut: "cuts ?h ns (\<lambda>_ t. t \<le> int q) q" using q by (auto simp: cuts_def)
  have adv: "advance fuel ?h (\<lambda>_ t. t \<le> int q) i (pos ns k) (int k) = (pos ns ?m, int ?m)"
    using Suc.prems fuel q by (intro advance_lastpos [OF sl_rep_links [OF rep] i(1) cut]) auto
  show ?case
  proof (cases "?m = q")
    case False
    then have "i \<noteq> 0" using sl_lastpos_zero [OF rep q] by metis
    moreover have "i < hgt ?h (pos ns ?m)" using i(2) by (rule lastpos_high [where H = "hgt ?h"])
    ultimately have "by_rank_loop fuel ?h (int q) i (pos ns ?m) (int ?m) = Some (pos ns q)"
      using Suc.prems by (intro Suc.IH) auto
    with adv False show ?thesis by simp
  qed (use adv in simp)
qed simp

lemma sl_by_rank_found:
  assumes "sl_rep s ns" "q < length ns"
  shows "sl_by_rank (int (Suc q)) s = Some (ns ! q)"
proof -
  have "by_rank_loop (sl_next s) (sl_heap s) (int (Suc q)) (sl_level s) (pos ns 0) (int 0) = Some (pos ns (Suc q))"
    using assms(2) sl_rep_heights [OF assms(1)] sl_rep_fuel [OF assms(1)]
    by (intro by_rank_loop_found [OF assms(1)]) auto
  then show ?thesis by (simp add: sl_by_rank_def)
qed

section \<open>Score ranges\<close>

definition in_range :: "pyfloat \<Rightarrow> pyfloat \<Rightarrow> bool \<Rightarrow> bool \<Rightarrow> pyfloat \<Rightarrow> bool" where
  "in_range lo hi lo_ex hi_ex score \<longleftrightarrow> gte_min score lo lo_ex \<and> lte_max score hi hi_ex"

text \<open>The number of elements below the range, and the number not above it.\<close>

definition below_range :: "heap \<Rightarrow> nat list \<Rightarrow> pyfloat \<Rightarrow> bool \<Rightarrow> nat" where
  "below_range h ns lo lo_ex = length (takeWhile (\<lambda>b. \<not> gte_min (nd_score (h b)) lo lo_ex) ns)"

definition upto_range :: "heap \<Rightarrow> nat list \<Rightarrow> pyfloat \<Rightarrow> bool \<Rightarrow> nat" where
  "upto_range h ns hi hi_ex = length (takeWhile (\<lambda>b. lte_max (nd_score (h b)) hi hi_ex) ns)"

lemma cuts_below:
  assumes "ordered h ns"
  shows "cuts h ns (\<lambda>nd _. \<not> gte_min (nd_score nd) lo lo_ex) (below_range h ns lo lo_ex)"
proof -
  let ?Q = "\<lambda>k :: pyfloat \<times> str. lo = NaN \<or> (if lo_ex then fst k \<le> lo else fst k < lo)"
  have q: "\<not> gte_min (nd_score (h b)) lo lo_ex \<longleftrightarrow> ?Q (key_of h b)" if "b \<in> set ns" for b
    using that assms by (cases "lo = NaN") (auto simp: ordered_def gte_min_def key_of_def)
  have "cuts h ns (\<lambda>nd _. \<not> gte_min (nd_score nd) lo lo_ex) (length (takeWhile (\<lambda>b. ?Q (key_of h b)) ns))"
    using q by (intro cuts_takeWhile [OF assms]) (auto split: if_splits)
  moreover have "takeWhile (\<lambda>b. ?Q (key_of h b)) ns = takeWhile (\<lambda>b. \<not> gte_min (nd_score (h b)) lo lo_ex) ns"
    using q by (intro takeWhile_cong) auto
  ultimately show ?thesis by (simp add: below_range_def)
qed

lemma cuts_upto:
  assumes "ordered h ns"
  shows "cuts h ns (\<lambda>nd _. lte_max (nd_score nd) hi hi_ex) (upto_range h ns hi hi_ex)"
proof -
  let ?Q = "\<lambda>k :: pyfloat \<times> str. hi \<noteq> NaN \<and> (if hi_ex then fst k < hi else fst k \<le> hi)"
  have q: "lte_max (nd_score (h b)) hi hi_ex \<longleftrightarrow> ?Q (key_of h b)" if "b \<in> set ns" for b
    using that assms by (cases "hi = NaN") (auto simp: ordered_def lte_max_def key_of_def)
  have "cuts h ns (\<lambda>nd _. lte_max (nd_score nd) hi hi_ex) (length (takeWhile (\<lambda>b. ?Q (key_of h b)) ns))"
    using q by (intro cuts_takeWhile [OF assms]) (auto split: if_splits)
  moreover have "takeWhile (\<lambda>b. ?Q (key_of h b)) ns = takeWhile (\<lambda>b. lte_max (nd_score (h b)) hi hi_ex) ns"
    using q by (intro takeWhile_cong) auto
  ultimately show ?thesis by (simp add: upto_range_def)
qed

lemma range_nth:
  assumes "ordered h ns" "j < length ns"
  shows "gte_min (nd_score (h (ns ! j))) lo lo_ex \<longleftrightarrow> below_range h ns lo lo_ex \<le> j"
    and "lte_max (nd_score (h (ns ! j))) hi hi_ex \<longleftrightarrow> j < upto_range h ns hi hi_ex"
  using cuts_below [OF assms(1), of lo lo_ex] cuts_upto [OF assms(1), of hi hi_ex] assms(2)
  by (auto simp: cuts_def)

lemma range_le: "below_range h ns lo lo_ex \<le> length ns" "upto_range h ns hi hi_ex \<le> length ns"
  by (simp_all add: below_range_def upto_range_def length_takeWhile_le)

lemma filter_segment:
  assumes "\<And>j. j < length ns \<Longrightarrow> P (ns ! j) \<longleftrightarrow> p \<le> j \<and> j < q" "p \<le> length ns" "q \<le> length ns"
  shows "filter P ns = drop p (take q ns)"
proof (cases "p \<le> q")
  case True
  have "ns = take p ns @ drop p (take q ns) @ drop q ns"
    using True by (metis append.assoc append_take_drop_id take_take min.absorb1)
  moreover have "filter P (take p ns) = []" "filter P (drop q ns) = []" "filter P (drop p (take q ns)) = drop p (take q ns)"
    using assms by (auto simp: filter_empty_conv filter_id_conv in_set_conv_nth)
  ultimately show ?thesis by (metis append_Nil append_Nil2 filter_append)
next
  case False
  then have "filter P ns = []" using assms(1) by (auto simp: filter_empty_conv in_set_conv_nth)
  with False show ?thesis by simp
qed

lemma range_segment:
  assumes "ordered h ns"
  shows "filter (\<lambda>b. in_range lo hi lo_ex hi_ex (nd_score (h b))) ns =
    drop (below_range h ns lo lo_ex) (take (upto_range h ns hi hi_ex) ns)"
  using range_nth [OF assms] range_le by (intro filter_segment) (auto simp: in_range_def)

lemma range_overlap:
  assumes rep: "sl_rep s ns"
    and pq: "below_range (sl_heap s) ns lo lo_ex < upto_range (sl_heap s) ns hi hi_ex"
  shows "sl_range_may_overlap lo hi lo_ex hi_ex s"
proof -
  let ?h = "sl_heap s"
  have ord: "ordered ?h ns" using rep by (simp add: sl_rep_def)
  let ?p = "below_range ?h ns lo lo_ex" and ?q = "upto_range ?h ns hi hi_ex"
  have p: "?p < length ns" using pq range_le(2) [of ?h ns hi hi_ex] by simp
  then have ne: "ns \<noteq> []" by auto
  have "gte_min (nd_score (?h (ns ! ?p))) lo lo_ex" "lte_max (nd_score (?h (ns ! ?p))) hi hi_ex"
    using range_nth [OF ord p] pq by simp_all
  then have "\<not> (flt hi lo \<or> (feq lo hi \<and> (lo_ex \<or> hi_ex)))"
    using ord p by (cases "lo = NaN"; cases "hi = NaN") (auto simp: gte_min_def lte_max_def ordered_def split: if_splits)
  moreover have "fwd ?h 0 0 = Some (ns ! 0)" using sl_fwd0 [OF rep, of 0] ne by simp
  moreover have "sl_tail s = Some (ns ! (length ns - 1))" using rep ne by (simp add: sl_rep_def last_conv_nth)
  moreover have "gte_min (nd_score (?h (ns ! (length ns - 1)))) lo lo_ex" "lte_max (nd_score (?h (ns ! 0))) hi hi_ex"
    using range_nth [OF ord] p pq ne by (auto simp: Suc_le_eq)
  ultimately show ?thesis by (simp add: sl_range_may_overlap_def)
qed

lemma descend_end_cut:
  assumes "sl_rep s ns" "cuts (sl_heap s) ns (\<lambda>nd _. guard nd) p"
  shows "descend_end guard s = pos ns p"
proof -
  have p: "p \<le> length ns" using assms(2) by (simp add: cuts_def)
  have "0 < sl_level s" using sl_rep_heights(1) [OF assms(1)] by simp
  then show ?thesis
    using sl_descend [OF assms] sl_lastpos_zero [OF assms(1) p] by (simp add: descend_end_def)
qed

lemma sl_first_in_range_eq:
  fixes lo hi :: pyfloat and lo_ex hi_ex :: bool
  assumes rep: "sl_rep s ns"
  defines "R \<equiv> filter (\<lambda>b. in_range lo hi lo_ex hi_ex (nd_score (sl_heap s b))) ns"
  shows "sl_first_in_range lo hi lo_ex hi_ex s = (if R = [] then None else Some (hd R))"
proof -
  let ?h = "sl_heap s" let ?p = "below_range ?h ns lo lo_ex" and ?q = "upto_range ?h ns hi hi_ex"
  have ord: "ordered ?h ns" using rep by (simp add: sl_rep_def)
  have R: "R = drop ?p (take ?q ns)" unfolding R_def by (rule range_segment [OF ord])
  have stop: "descend_end (\<lambda>nd. \<not> gte_min (nd_score nd) lo lo_ex) s = pos ns ?p"
    by (rule descend_end_cut [OF rep cuts_below [OF ord]])
  have f: "fwd ?h (pos ns ?p) 0 = (if ?p < length ns then Some (ns ! ?p) else None)"
    by (rule sl_fwd0 [OF rep range_le(1)])
  have q: "?q \<le> length ns" by (rule range_le)
  show ?thesis
  proof (cases "?p < ?q")
    case True
    with R q have "R \<noteq> []" "hd R = ns ! ?p" by (auto simp: hd_drop_conv_nth)
    then show ?thesis
      using True q range_nth(2) [OF ord, of ?p hi hi_ex] range_overlap [OF rep True] f
      by (simp add: sl_first_in_range_def Let_def stop)
  next
    case False
    then have "R = []" using R by simp
    then show ?thesis
      using False f range_nth(2) [OF ord, of ?p hi hi_ex] by (auto simp: sl_first_in_range_def Let_def stop)
  qed
qed

lemma sl_last_in_range_eq:
  fixes lo hi :: pyfloat and lo_ex hi_ex :: bool
  assumes rep: "sl_rep s ns"
  defines "R \<equiv> filter (\<lambda>b. in_range lo hi lo_ex hi_ex (nd_score (sl_heap s b))) ns"
  shows "sl_last_in_range lo hi lo_ex hi_ex s = (if R = [] then None else Some (last R))"
proof -
  let ?h = "sl_heap s" let ?p = "below_range ?h ns lo lo_ex" and ?q = "upto_range ?h ns hi hi_ex"
  have ord: "ordered ?h ns" and z: "0 \<notin> set ns" using rep by (simp_all add: sl_rep_def)
  have R: "R = drop ?p (take ?q ns)" unfolding R_def by (rule range_segment [OF ord])
  have stop: "descend_end (\<lambda>nd. lte_max (nd_score nd) hi hi_ex) s = pos ns ?q"
    by (rule descend_end_cut [OF rep cuts_upto [OF ord]])
  have q: "?q \<le> length ns" by (rule range_le)
  have nz: "pos ns ?q = ns ! (?q - 1) \<and> ns ! (?q - 1) \<noteq> 0" if "0 < ?q"
    using that q z by (cases ?q) (auto simp: in_set_conv_nth)
  have g: "gte_min (nd_score (?h (ns ! (?q - 1)))) lo lo_ex \<longleftrightarrow> ?p < ?q" if "0 < ?q"
    using range_nth(1) [OF ord, of "?q - 1" lo lo_ex] that q by auto
  show ?thesis
  proof (cases "?p < ?q")
    case True
    have "length (take ?q ns) = ?q" using q by simp
    with True R have "R \<noteq> []" "last R = ns ! (?q - 1)" by (auto simp: last_conv_nth)
    then show ?thesis
      using True nz g range_overlap [OF rep True] by (simp add: sl_last_in_range_def Let_def stop)
  next
    case False
    then have "R = []" using R by simp
    moreover have "pos ns ?q = 0 \<or> \<not> gte_min (nd_score (?h (pos ns ?q))) lo lo_ex"
      using False nz g by (cases "?q = 0") auto
    ultimately show ?thesis by (auto simp: sl_last_in_range_def Let_def stop)
  qed
qed

section \<open>The contract of an ordered index\<close>

text \<open>\<open>SortedSet._walk\<close>: at most \<open>count\<close> nodes along a pointer.\<close>

primrec walk :: "nat \<Rightarrow> (nat \<Rightarrow> nat option) \<Rightarrow> nat option \<Rightarrow> nat list" where
  "walk 0 step x = []"
| "walk (Suc n) step x = (case x of None \<Rightarrow> [] | Some a \<Rightarrow> a # walk n step (step a))"

lemma walk_along:
  assumes "\<And>j. j < length ns \<Longrightarrow> step (ns ! j) = (if Suc j < length ns then Some (ns ! Suc j) else None)"
  shows "walk n step (if j < length ns then Some (ns ! j) else None) = take n (drop j ns)"
proof (induction n arbitrary: j)
  case (Suc n)
  show ?case
  proof (cases "j < length ns")
    case True
    then have "take (Suc n) (drop j ns) = ns ! j # take n (drop (Suc j) ns)"
      by (simp add: Cons_nth_drop_Suc [symmetric])
    with True Suc [of "Suc j"] assms [of j] show ?thesis by simp
  qed simp
qed simp

definition sl_elems :: "skiplist \<Rightarrow> (pyfloat \<times> str) list" where
  "sl_elems s = map (key_of (sl_heap s)) (sl_iter s)"

definition sl_key :: "skiplist \<Rightarrow> nat \<Rightarrow> pyfloat \<times> str" where
  "sl_key s a = key_of (sl_heap s) a"

definition sl_fwd :: "skiplist \<Rightarrow> nat \<Rightarrow> nat option" where
  "sl_fwd s a = fwd (sl_heap s) a 0"

definition sl_bwd :: "skiplist \<Rightarrow> nat \<Rightarrow> nat option" where
  "sl_bwd s a = nd_backward (sl_heap s a)"

definition sl_head :: "skiplist \<Rightarrow> nat option" where
  "sl_head s = fwd (sl_heap s) 0 0"

locale ordered_index =
  fixes x_inv :: "'s \<Rightarrow> bool" and x_empty :: 's
    and x_nodes :: "'s \<Rightarrow> nat list" and x_key :: "'s \<Rightarrow> nat \<Rightarrow> pyfloat \<times> str"
    and x_insert :: "pyfloat \<Rightarrow> str \<Rightarrow> rng \<Rightarrow> 's \<Rightarrow> 's \<times> rng" and x_delete :: "pyfloat \<Rightarrow> str \<Rightarrow> 's \<Rightarrow> bool \<times> 's"
    and x_rank :: "pyfloat \<Rightarrow> str \<Rightarrow> 's \<Rightarrow> int" and x_by_rank :: "int \<Rightarrow> 's \<Rightarrow> nat option"
    and x_first x_last :: "pyfloat \<Rightarrow> pyfloat \<Rightarrow> bool \<Rightarrow> bool \<Rightarrow> 's \<Rightarrow> nat option"
    and x_next x_prev :: "'s \<Rightarrow> nat \<Rightarrow> nat option" and x_head x_tail :: "'s \<Rightarrow> nat option"
    and x_elems :: "'s \<Rightarrow> (pyfloat \<times> str) list"
  assumes elems_nodes: "x_elems s = map (x_key s) (x_nodes s)"
    and empty: "x_inv x_empty" "x_elems x_empty = []"
    and sorted: "x_inv s \<Longrightarrow> sorted_wrt (<) (x_elems s)"
    and members: "x_inv s \<Longrightarrow> distinct (map snd (x_elems s))"
    and no_nan: "x_inv s \<Longrightarrow> e \<in> set (x_elems s) \<Longrightarrow> fst e \<noteq> NaN"
    and nodes_distinct: "x_inv s \<Longrightarrow> distinct (x_nodes s)"
    and insert: "x_inv s \<Longrightarrow> sc \<noteq> NaN \<Longrightarrow> m \<notin> snd ` set (x_elems s) \<Longrightarrow>
      x_inv (fst (x_insert sc m r s)) \<and> x_elems (fst (x_insert sc m r s)) = insort (sc, m) (x_elems s)"
    and delete: "x_inv s \<Longrightarrow> sc \<noteq> NaN \<Longrightarrow>
      fst (x_delete sc m s) = ((sc, m) \<in> set (x_elems s)) \<and> x_inv (snd (x_delete sc m s)) \<and>
      x_elems (snd (x_delete sc m s)) = remove1 (sc, m) (x_elems s)"
    and rank: "x_inv s \<Longrightarrow> j < length (x_elems s) \<Longrightarrow> x_elems s ! j = (sc, m) \<Longrightarrow> x_rank sc m s = int j + 1"
    and by_rank: "x_inv s \<Longrightarrow> j < length (x_elems s) \<Longrightarrow> x_by_rank (int j + 1) s = Some (x_nodes s ! j)"
    and first: "x_inv s \<Longrightarrow> x_first lo hi lx hx s =
      (case filter (\<lambda>a. in_range lo hi lx hx (fst (x_key s a))) (x_nodes s) of [] \<Rightarrow> None | a # _ \<Rightarrow> Some a)"
    and last: "x_inv s \<Longrightarrow> x_last lo hi lx hx s =
      (case rev (filter (\<lambda>a. in_range lo hi lx hx (fst (x_key s a))) (x_nodes s)) of [] \<Rightarrow> None | a # _ \<Rightarrow> Some a)"
    and segment: "x_inv s \<Longrightarrow> \<exists>p q. p \<le> q \<and> q \<le> length (x_nodes s) \<and>
      (\<forall>j < length (x_nodes s). in_range lo hi lx hx (fst (x_key s (x_nodes s ! j))) \<longleftrightarrow> p \<le> j \<and> j < q)"
    and "next": "x_inv s \<Longrightarrow> j < length (x_nodes s) \<Longrightarrow>
      x_next s (x_nodes s ! j) = (if Suc j < length (x_nodes s) then Some (x_nodes s ! Suc j) else None)"
    and prev: "x_inv s \<Longrightarrow> j < length (x_nodes s) \<Longrightarrow>
      x_prev s (x_nodes s ! j) = (if j = 0 then None else Some (x_nodes s ! (j - 1)))"
    and head: "x_inv s \<Longrightarrow> x_head s = (case x_nodes s of [] \<Rightarrow> None | a # _ \<Rightarrow> Some a)"
    and tail: "x_inv s \<Longrightarrow> x_tail s = (case rev (x_nodes s) of [] \<Rightarrow> None | a # _ \<Rightarrow> Some a)"
begin

lemma length_elems: "length (x_elems s) = length (x_nodes s)"
  by (simp add: elems_nodes)

lemma walk_next:
  assumes "x_inv s" "j < length (x_nodes s)"
  shows "walk n (x_next s) (Some (x_nodes s ! j)) = take n (drop j (x_nodes s))"
  using walk_along [of "x_nodes s" "x_next s" n j, OF "next" [OF assms(1)]] assms(2) by simp

lemma walk_prev:
  assumes "x_inv s" "j < length (x_nodes s)"
  shows "walk n (x_prev s) (Some (x_nodes s ! j)) = take n (rev (take (Suc j) (x_nodes s)))"
proof -
  let ?ns = "x_nodes s" let ?n = "length (x_nodes s)"
  have "x_prev s (rev ?ns ! i) = (if Suc i < length (rev ?ns) then Some (rev ?ns ! Suc i) else None)"
    if "i < length (rev ?ns)" for i
  proof -
    have "x_prev s (?ns ! (?n - Suc i)) = (if ?n - Suc i = 0 then None else Some (?ns ! (?n - Suc i - 1)))"
      using that by (intro prev [OF assms(1)]) simp
    then show ?thesis using that by (auto simp: rev_nth)
  qed
  note w = walk_along [OF this, where n = n and j = "?n - Suc j"]
  have "?n - Suc j < length (rev ?ns)" "rev ?ns ! (?n - Suc j) = ?ns ! j"
    using assms(2) by (simp_all add: rev_nth Suc_diff_Suc)
  with w assms(2) show ?thesis by (simp add: drop_rev)
qed

text \<open>Counting a score range by two ranks.\<close>

lemma count_by_ranks:
  assumes inv: "x_inv s" and a: "x_first lo hi lx hx s = Some a" and b: "x_last lo hi lx hx s = Some b"
  shows "x_rank (fst (x_key s b)) (snd (x_key s b)) s - x_rank (fst (x_key s a)) (snd (x_key s a)) s + 1 =
    int (length (filter (\<lambda>e. in_range lo hi lx hx (fst e)) (x_elems s)))"
proof -
  let ?P = "\<lambda>a. in_range lo hi lx hx (fst (x_key s a))"
  from segment [OF inv] obtain p q where pq: "p \<le> q" "q \<le> length (x_nodes s)"
    "\<forall>j < length (x_nodes s). ?P (x_nodes s ! j) \<longleftrightarrow> p \<le> j \<and> j < q" by metis
  then have R: "filter ?P (x_nodes s) = drop p (take q (x_nodes s))" by (intro filter_segment) auto
  then have ne: "drop p (take q (x_nodes s)) \<noteq> []" using first [OF inv] a by (auto split: list.splits)
  then have lt: "p < q" "p < length (x_nodes s)" "q - 1 < length (x_nodes s)" using pq by auto
  have "a = hd (drop p (take q (x_nodes s)))"
    using first [OF inv, of lo hi lx hx] a R by (auto split: list.splits)
  then have "a = x_nodes s ! p" using lt pq by (simp add: hd_drop_conv_nth)
  have "b = List.last (drop p (take q (x_nodes s)))"
    using last [OF inv, of lo hi lx hx] b R by (auto split: list.splits simp: rev_eq_Cons_iff)
  then have "b = x_nodes s ! (q - 1)" using lt pq by (simp add: last_conv_nth)
  moreover note \<open>a = x_nodes s ! p\<close>
  moreover have "x_rank (fst (x_key s (x_nodes s ! j))) (snd (x_key s (x_nodes s ! j))) s = int j + 1"
    if "j < length (x_nodes s)" for j
    using that by (intro rank [OF inv]) (simp_all add: elems_nodes)
  moreover have "length (filter (\<lambda>e. in_range lo hi lx hx (fst e)) (x_elems s)) = q - p"
    using arg_cong [OF R, of length] pq by (simp add: elems_nodes filter_map comp_def)
  ultimately show ?thesis using lt pq by simp
qed

end

section \<open>The skip list provides it\<close>

lemma sl_inv_rep: "sl_inv s \<longleftrightarrow> sl_rep s (sl_iter s)"
  by (simp add: sl_inv_def)

lemma sl_insert_spec:
  assumes inv: "sl_inv s" and sc: "sc \<noteq> NaN" and m: "m \<notin> snd ` set (sl_elems s)"
  shows "sl_inv (fst (sl_insert sc m r s)) \<and> sl_elems (fst (sl_insert sc m r s)) = insort (sc, m) (sl_elems s)"
proof -
  have "m \<notin> (\<lambda>b. nd_member (sl_heap s b)) ` set (sl_iter s)"
    using m by (simp add: sl_elems_def key_of_def image_image)
  note r = sl_insert_rep [OF inv [unfolded sl_inv_def] sc this, of r]
  from r(1) show ?thesis
    using r(2) by (simp add: sl_repI sl_elems_def sl_rep_iter)
qed

lemma sl_delete_spec:
  assumes inv: "sl_inv s" and sc: "sc \<noteq> NaN"
  shows "fst (sl_delete sc m s) = ((sc, m) \<in> set (sl_elems s)) \<and> sl_inv (snd (sl_delete sc m s)) \<and>
    sl_elems (snd (sl_delete sc m s)) = remove1 (sc, m) (sl_elems s)"
proof (cases "(sc, m) \<in> set (sl_elems s)")
  case True
  then have key: "(sc, m) \<in> key_of (sl_heap s) ` set (sl_iter s)" by (simp add: sl_elems_def)
  from sl_delete_found [OF inv [unfolded sl_inv_def] sc key] obtain xs a ys s' where
    *: "sl_iter s = xs @ a # ys" "key_of (sl_heap s) a = (sc, m)" "sl_delete sc m s = (True, s')"
      "sl_rep s' (xs @ ys)" "key_of (sl_heap s') = key_of (sl_heap s)" by blast
  have "distinct (sl_elems s)"
    using inv by (auto simp: sl_inv_def sl_rep_def ordered_def sl_elems_def strict_sorted_iff)
  then have "(sc, m) \<notin> set (map (key_of (sl_heap s)) xs)" using *(1,2) by (auto simp: sl_elems_def)
  then show ?thesis using * True
    by (simp add: sl_repI sl_rep_iter sl_elems_def remove1_append)
next
  case False
  with inv show ?thesis
    by (simp add: sl_delete_absent [of s "sl_iter s"] sl_inv_def sl_elems_def remove1_idem)
qed

interpretation sl: ordered_index sl_inv sl_init sl_iter sl_key sl_insert sl_delete sl_rank sl_by_rank
  sl_first_in_range sl_last_in_range sl_fwd sl_bwd sl_head sl_tail sl_elems
proof unfold_locales
  fix s sc m r lo hi lx hx j e
  show "sl_elems s = map (sl_key s) (sl_iter s)" by (simp add: sl_elems_def sl_key_def)
  show "sl_inv sl_init" by (rule sl_repI [OF sl_init_rep])
  show "sl_elems sl_init = []" by (simp add: sl_elems_def sl_rep_iter [OF sl_init_rep])
  assume inv: "sl_inv s"
  then have rep: "sl_rep s (sl_iter s)" by (simp add: sl_inv_def)
  then have ord: "ordered (sl_heap s) (sl_iter s)" by (simp add: sl_rep_def)
  show "sorted_wrt (<) (sl_elems s)" "distinct (map snd (sl_elems s))"
    using ord by (simp_all add: ordered_def sl_elems_def comp_def key_of_def)
  show "e \<in> set (sl_elems s) \<Longrightarrow> fst e \<noteq> NaN" using ord by (auto simp: ordered_def sl_elems_def key_of_def)
  show "distinct (sl_iter s)" using rep by (simp add: sl_rep_def)
  show "sc \<noteq> NaN \<Longrightarrow> m \<notin> snd ` set (sl_elems s) \<Longrightarrow>
      sl_inv (fst (sl_insert sc m r s)) \<and> sl_elems (fst (sl_insert sc m r s)) = insort (sc, m) (sl_elems s)"
    using sl_insert_spec [OF inv] .
  show "sc \<noteq> NaN \<Longrightarrow> fst (sl_delete sc m s) = ((sc, m) \<in> set (sl_elems s)) \<and> sl_inv (snd (sl_delete sc m s)) \<and>
      sl_elems (snd (sl_delete sc m s)) = remove1 (sc, m) (sl_elems s)"
    using sl_delete_spec [OF inv] .
  show "j < length (sl_elems s) \<Longrightarrow> sl_elems s ! j = (sc, m) \<Longrightarrow> sl_rank sc m s = int j + 1"
    using sl_rank_found [OF rep, of j sc m] by (simp add: sl_elems_def)
  show "j < length (sl_elems s) \<Longrightarrow> sl_by_rank (int j + 1) s = Some (sl_iter s ! j)"
    using sl_by_rank_found [OF rep, of j] by (simp add: sl_elems_def add.commute)
  show "sl_first_in_range lo hi lx hx s =
      (case filter (\<lambda>a. in_range lo hi lx hx (fst (sl_key s a))) (sl_iter s) of [] \<Rightarrow> None | a # _ \<Rightarrow> Some a)"
    using sl_first_in_range_eq [OF rep, of lo hi lx hx] by (auto simp: sl_key_def key_of_def split: list.split)
  show "sl_last_in_range lo hi lx hx s =
      (case rev (filter (\<lambda>a. in_range lo hi lx hx (fst (sl_key s a))) (sl_iter s)) of [] \<Rightarrow> None | a # _ \<Rightarrow> Some a)"
    using sl_last_in_range_eq [OF rep, of lo hi lx hx]
    by (auto simp: sl_key_def key_of_def rev_eq_Cons_iff split: list.split)
  show "\<exists>p q. p \<le> q \<and> q \<le> length (sl_iter s) \<and>
      (\<forall>j < length (sl_iter s). in_range lo hi lx hx (fst (sl_key s (sl_iter s ! j))) \<longleftrightarrow> p \<le> j \<and> j < q)"
    using range_nth [OF ord] range_le [of "sl_heap s" "sl_iter s"]
    by (intro exI [of _ "below_range (sl_heap s) (sl_iter s) lo lx"]
        exI [of _ "max (below_range (sl_heap s) (sl_iter s) lo lx) (upto_range (sl_heap s) (sl_iter s) hi hx)"])
      (auto simp: in_range_def sl_key_def key_of_def less_max_iff_disj)
  show "j < length (sl_iter s) \<Longrightarrow>
      sl_fwd s (sl_iter s ! j) = (if Suc j < length (sl_iter s) then Some (sl_iter s ! Suc j) else None)"
    using sl_fwd0 [OF rep, of "Suc j"] by (simp add: sl_fwd_def)
  show "j < length (sl_iter s) \<Longrightarrow> sl_bwd s (sl_iter s ! j) = (if j = 0 then None else Some (sl_iter s ! (j - 1)))"
    using rep by (simp add: sl_bwd_def sl_rep_def backs_def)
  show "sl_head s = (case sl_iter s of [] \<Rightarrow> None | a # _ \<Rightarrow> Some a)"
    using sl_fwd0 [OF rep, of 0] by (auto simp: sl_head_def split: list.split)
  show "sl_tail s = (case rev (sl_iter s) of [] \<Rightarrow> None | a # _ \<Rightarrow> Some a)"
    using rep by (auto simp: sl_rep_def rev_eq_Cons_iff split: list.split)
qed

section \<open>Properties\<close>

text \<open>
  C19.  Inserting a new member into a well-formed skip list, whatever level the generator picks,
  gives a well-formed skip list (every pointer and span on every level correct, backward
  pointers, tail, length and level included) whose elements are the old ones with the new
  (score, member) pair at its place in the order.
\<close>

theorem insert_correct:
  assumes "sl_inv s" "score \<noteq> NaN" "member \<notin> snd ` set (sl_elems s)"
  shows "sl_inv (fst (sl_insert score member r s))
    \<and> sl_elems (fst (sl_insert score member r s)) = insort (score, member) (sl_elems s)
    \<and> sl_length (fst (sl_insert score member r s)) = sl_length s + 1"
proof -
  note i = sl.insert [OF assms, of r]
  have "sl_length s' = int (length (sl_elems s'))" if "sl_inv s'" for s'
    using that by (simp add: sl_inv_def sl_rep_def sl_elems_def)
  with i assms(1) show ?thesis by simp
qed

theorem insert_correct_witness:
  "sl_elems (fst (sl_insert (Fin 2) [98] [0, 0, 2 ^ 52] (fst (sl_insert (Fin 5) [97] [0, 2 ^ 52] sl_init))))
     = [(Fin 2, [98]), (Fin 5, [97])]
   \<and> sl_inv (fst (sl_insert (Fin 2) [98] [0, 0, 2 ^ 52] (fst (sl_insert (Fin 5) [97] [0, 2 ^ 52] sl_init))))"
proof -
  let ?s = "fst (sl_insert (Fin 5) [97] [0, 2 ^ 52] sl_init)"
  have 1: "sl_inv ?s" "sl_elems ?s = [(Fin 5, [97])]"
    using insert_correct [OF sl.empty(1), of "Fin 5" "[97]" "[0, 2 ^ 52]"] by (simp_all add: sl.empty(2))
  then show ?thesis using insert_correct [OF 1(1), of "Fin 2" "[98]" "[0, 0, 2 ^ 52]"] by (simp add: less_pyfloat_def)
qed

text \<open>
  C20.  Deleting from a well-formed skip list reports whether the pair was there, removes exactly
  that pair, and leaves a well-formed list (the level lowered to the highest one still in use).
\<close>

theorem delete_correct:
  assumes "sl_inv s" "score \<noteq> NaN"
  shows "(fst (sl_delete score member s) \<longleftrightarrow> (score, member) \<in> set (sl_elems s))
    \<and> sl_inv (snd (sl_delete score member s))
    \<and> sl_elems (snd (sl_delete score member s)) = remove1 (score, member) (sl_elems s)"
  using sl.delete [OF assms] by simp

theorem delete_correct_witness:
  "fst (sl_delete (Fin 5) [97] (fst (sl_insert (Fin 5) [97] [0, 2 ^ 52] sl_init)))
   \<and> sl_elems (snd (sl_delete (Fin 5) [97] (fst (sl_insert (Fin 5) [97] [0, 2 ^ 52] sl_init)))) = []"
proof -
  let ?s = "fst (sl_insert (Fin 5) [97] [0, 2 ^ 52] sl_init)"
  have "sl_inv ?s" "sl_elems ?s = [(Fin 5, [97])]"
    using sl.insert [OF sl.empty(1), of "Fin 5" "[97]" "[0, 2 ^ 52]"] by (simp_all add: sl.empty(2))
  then show ?thesis using delete_correct [of ?s "Fin 5" "[97]"] by simp
qed

text \<open>
  C22.  On a well-formed skip list the span arithmetic is right: the rank of the element at index
  \<open>j\<close> of the order is \<open>j + 1\<close>, and looking up that rank gives its node; the first and last node
  of a score range are the first and last elements of the order whose score is in the range, and
  there is none exactly when no element is in it.
\<close>

theorem queries_correct:
  assumes "sl_inv s"
  shows "(\<forall>j < length (sl_elems s).
        sl_rank (fst (sl_elems s ! j)) (snd (sl_elems s ! j)) s = int j + 1
      \<and> sl_by_rank (int j + 1) s = Some (sl_iter s ! j))
    \<and> map_option (sl_key s) (sl_first_in_range lo hi lo_ex hi_ex s) =
        find (\<lambda>e. in_range lo hi lo_ex hi_ex (fst e)) (sl_elems s)
    \<and> map_option (sl_key s) (sl_last_in_range lo hi lo_ex hi_ex s) =
        find (\<lambda>e. in_range lo hi lo_ex hi_ex (fst e)) (rev (sl_elems s))"
proof (intro conjI)
  show "\<forall>j < length (sl_elems s).
        sl_rank (fst (sl_elems s ! j)) (snd (sl_elems s ! j)) s = int j + 1
      \<and> sl_by_rank (int j + 1) s = Some (sl_iter s ! j)"
    using sl.rank [OF assms] sl.by_rank [OF assms] by simp
  have find: "find P (map f xs) = (case filter (P \<circ> f) xs of [] \<Rightarrow> None | a # _ \<Rightarrow> Some (f a))"
    for P and f :: "nat \<Rightarrow> pyfloat \<times> str" and xs
    by (induction xs) auto
  show "map_option (sl_key s) (sl_first_in_range lo hi lo_ex hi_ex s) =
        find (\<lambda>e. in_range lo hi lo_ex hi_ex (fst e)) (sl_elems s)"
    unfolding sl.first [OF assms] sl.elems_nodes find comp_def by (simp split: list.split)
  show "map_option (sl_key s) (sl_last_in_range lo hi lo_ex hi_ex s) =
        find (\<lambda>e. in_range lo hi lo_ex hi_ex (fst e)) (rev (sl_elems s))"
    unfolding sl.last [OF assms] sl.elems_nodes rev_map find comp_def rev_filter by (simp split: list.split)
qed

theorem queries_correct_witness:
  "sl_rank (Fin 5) [97] (fst (sl_insert (Fin 5) [97] [0, 2 ^ 52] sl_init)) = 1
   \<and> map_option (sl_key (fst (sl_insert (Fin 5) [97] [0, 2 ^ 52] sl_init)))
       (sl_first_in_range (Fin 1) PosInf True False (fst (sl_insert (Fin 5) [97] [0, 2 ^ 52] sl_init)))
     = Some (Fin 5, [97])"
proof -
  let ?s = "fst (sl_insert (Fin 5) [97] [0, 2 ^ 52] sl_init)"
  have "sl_inv ?s" "sl_elems ?s = [(Fin 5, [97])]"
    using sl.insert [OF sl.empty(1), of "Fin 5" "[97]" "[0, 2 ^ 52]"] by (simp_all add: sl.empty(2))
  moreover have "in_range (Fin 1) PosInf True False (Fin 5)" by code_simp
  ultimately show ?thesis
    using queries_correct [of ?s "Fin 1" PosInf True False] by (simp add: find.simps)
qed



end
