(* ===== verification/Keyset.thy ===== *)
theory Keyset
  imports Py_Random
begin

text \<open>
  \<open>engine/keyset.py\<close>: \<open>SampleableKeySet\<close>, a dense array of keys plus a key-to-position index,
  with removal by swapping the last element into the hole.  The locale \<open>sample_set\<close> is the
  contract its four clients rely on (the store's TTL set, set values, the LFU and random
  eviction policies); the model is its interpretation \<open>ks\<close>.
\<close>

section \<open>The data structure\<close>

record keyset =
  ks_items :: "str list"
  ks_index :: "(str, nat) dict"

definition ks_empty :: keyset where
  "ks_empty = \<lparr>ks_items = [], ks_index = []\<rparr>"

definition ks_contains :: "keyset \<Rightarrow> str \<Rightarrow> bool" where
  "ks_contains s key \<longleftrightarrow> dict_get (ks_index s) key \<noteq> None"

definition ks_add :: "str \<Rightarrow> keyset \<Rightarrow> keyset" where
  "ks_add key s =
     (if \<not> ks_contains s key
      then \<lparr>ks_items = ks_items s @ [key],
            ks_index = dict_set key (length (ks_items s)) (ks_index s)\<rparr>
      else s)"

definition ks_discard :: "str \<Rightarrow> keyset \<Rightarrow> keyset" where
  "ks_discard key s =
     (case dict_get (ks_index s) key of
        None \<Rightarrow> s
      | Some idx \<Rightarrow>
          let index = dict_pop key (ks_index s);
              last_key = last (ks_items s);
              items = butlast (ks_items s)
          in if idx < length items
             then \<lparr>ks_items = items[idx := last_key], ks_index = dict_set last_key idx index\<rparr>
             else \<lparr>ks_items = items, ks_index = index\<rparr>)"

definition ks_sample :: "nat \<Rightarrow> keyset \<Rightarrow> rng \<Rightarrow> str list \<times> rng" where
  "ks_sample k s r = rng_sample (min k (length (ks_items s))) (ks_items s) r"

definition ks_len :: "keyset \<Rightarrow> nat" where
  "ks_len s = length (ks_items s)"

section \<open>Invariant\<close>

text \<open>The index is exactly the inverse of the array: no gaps, no stale position.\<close>

definition ks_inv :: "keyset \<Rightarrow> bool" where
  "ks_inv s \<longleftrightarrow> dict_ok (ks_index s) \<and>
     (\<forall>key i. dict_get (ks_index s) key = Some i \<longleftrightarrow>
        i < length (ks_items s) \<and> ks_items s ! i = key)"

lemma ks_inv_distinct: "ks_inv s \<Longrightarrow> distinct (ks_items s)"
  unfolding ks_inv_def distinct_conv_nth by (metis option.inject)

lemma ks_contains_iff: "ks_inv s \<Longrightarrow> ks_contains s key \<longleftrightarrow> key \<in> set (ks_items s)"
  by (auto simp: ks_inv_def ks_contains_def in_set_conv_nth)

lemma ks_inv_empty [inv_intro]: "ks_inv ks_empty"
  by (simp add: ks_inv_def ks_empty_def)

lemma ks_items_empty [simp]: "ks_items ks_empty = []"
  by (simp add: ks_empty_def)

lemma ks_items_add:
  "ks_inv s \<Longrightarrow> ks_items (ks_add key s) =
     (if key \<in> set (ks_items s) then ks_items s else ks_items s @ [key])"
  by (simp add: ks_add_def ks_contains_iff)

lemma ks_inv_add [inv_intro]:
  assumes inv: "ks_inv s"
  shows "ks_inv (ks_add key s)"
proof (cases "ks_contains s key")
  case True
  with inv show ?thesis by (simp add: ks_add_def)
next
  case False
  with inv have new: "key \<notin> set (ks_items s)" by (simp add: ks_contains_iff)
  have "dict_get (dict_set key (length (ks_items s)) (ks_index s)) k = Some i \<longleftrightarrow>
      i < length (ks_items s @ [key]) \<and> (ks_items s @ [key]) ! i = k" for k i
    using inv new unfolding ks_inv_def
    by (auto simp: nth_append less_Suc_eq in_set_conv_nth)
  with inv False show ?thesis by (simp add: ks_inv_def ks_add_def)
qed

lemma ks_discard_absent: "ks_inv s \<Longrightarrow> key \<notin> set (ks_items s) \<Longrightarrow> ks_discard key s = s"
  by (auto simp: ks_discard_def ks_inv_def in_set_conv_nth split: option.split)

text \<open>A removal moves only the last element; everything else keeps its place.\<close>

lemma ks_discard_present:
  assumes inv: "ks_inv s" and items: "ks_items s = xs @ [l]" and i: "i < length xs" "xs ! i = key"
  shows "ks_items (ks_discard key s) = xs[i := l] \<and> ks_inv (ks_discard key s)"
proof -
  from inv items i have idx: "dict_get (ks_index s) key = Some i"
    by (simp add: ks_inv_def nth_append)
  then have eq: "ks_discard key s =
      \<lparr>ks_items = xs[i := l], ks_index = dict_set l i (dict_pop key (ks_index s))\<rparr>"
    using items i by (simp add: ks_discard_def)
  from inv items have d: "distinct (xs @ [l])" by (metis ks_inv_distinct)
  then have ne: "key \<noteq> l" using i by auto
  have get: "dict_get (ks_index s) k = Some j \<longleftrightarrow> j < Suc (length xs) \<and> (xs @ [l]) ! j = k" for k j
    using inv items by (simp add: ks_inv_def)
  have "dict_get (dict_set l i (dict_pop key (ks_index s))) k = Some j \<longleftrightarrow>
      j < length (xs[i := l]) \<and> xs[i := l] ! j = k" for k j
  proof (cases "k = l")
    case True
    then show ?thesis using i d ne by (auto simp: nth_list_update in_set_conv_nth)
  next
    case False
    then show ?thesis
      using i d ne get [of k j] by (auto simp: nth_list_update nth_append nth_eq_iff_index_eq less_Suc_eq)
  qed
  with inv eq show ?thesis by (simp add: ks_inv_def)
qed

lemma ks_discard_last:
  assumes inv: "ks_inv s" and items: "ks_items s = xs @ [key]"
  shows "ks_items (ks_discard key s) = xs \<and> ks_inv (ks_discard key s)"
proof -
  from inv items have "dict_get (ks_index s) key = Some (length xs)"
    by (simp add: ks_inv_def)
  then have eq: "ks_discard key s = \<lparr>ks_items = xs, ks_index = dict_pop key (ks_index s)\<rparr>"
    using items by (simp add: ks_discard_def)
  from inv items have d: "distinct (xs @ [key])" by (metis ks_inv_distinct)
  have get: "dict_get (ks_index s) k = Some j \<longleftrightarrow> j < Suc (length xs) \<and> (xs @ [key]) ! j = k" for k j
    using inv items by (simp add: ks_inv_def)
  have "dict_get (dict_pop key (ks_index s)) k = Some j \<longleftrightarrow> j < length xs \<and> xs ! j = k" for k j
    using get [of k j] d by (auto simp: nth_append less_Suc_eq in_set_conv_nth)
  with inv eq show ?thesis by (simp add: ks_inv_def)
qed

lemma ks_discard_cases:
  assumes "ks_inv s" "key \<in> set (ks_items s)"
  obtains (hole) xs l i where "ks_items s = xs @ [l]" "i < length xs" "xs ! i = key"
  | (last) xs where "ks_items s = xs @ [key]"
proof -
  from assms(2) have "ks_items s \<noteq> []" by auto
  then obtain xs l where xs: "ks_items s = xs @ [l]" by (metis rev_exhaust)
  show thesis
  proof (cases "key = l")
    case True
    with xs last show thesis by simp
  next
    case False
    with assms(2) xs obtain i where "i < length xs" "xs ! i = key" by (auto simp: in_set_conv_nth)
    with xs hole show thesis by blast
  qed
qed

lemma ks_inv_discard [inv_intro]:
  assumes inv: "ks_inv s"
  shows "ks_inv (ks_discard key s)"
proof (cases "key \<in> set (ks_items s)")
  case True
  with inv show ?thesis
    by (cases rule: ks_discard_cases) (simp_all add: ks_discard_present [OF inv] ks_discard_last [OF inv])
qed (simp add: inv ks_discard_absent)

lemma ks_set_discard:
  assumes inv: "ks_inv s"
  shows "set (ks_items (ks_discard key s)) = set (ks_items s) - {key}"
proof (cases "key \<in> set (ks_items s)")
  case False
  with inv show ?thesis by (simp add: ks_discard_absent)
next
  case True
  from inv have d: "distinct (ks_items s)" by (rule ks_inv_distinct)
  from inv True show ?thesis
  proof (cases rule: ks_discard_cases)
    case (hole xs l i)
    with inv have "ks_items (ks_discard key s) = xs[i := l]" by (simp add: ks_discard_present)
    with hole d show ?thesis by (auto simp: set_update_distinct)
  next
    case (last xs)
    with inv have "ks_items (ks_discard key s) = xs" by (simp add: ks_discard_last)
    with last d show ?thesis by auto
  qed
qed

section \<open>The contract of a sampleable set\<close>

locale sample_set =
  fixes s_empty :: "'s"
    and s_add :: "'k \<Rightarrow> 's \<Rightarrow> 's"
    and s_discard :: "'k \<Rightarrow> 's \<Rightarrow> 's"
    and s_contains :: "'s \<Rightarrow> 'k \<Rightarrow> bool"
    and s_list :: "'s \<Rightarrow> 'k list"
    and s_sample :: "nat \<Rightarrow> 's \<Rightarrow> rng \<Rightarrow> 'k list \<times> rng"
    and s_inv :: "'s \<Rightarrow> bool"
  assumes list_empty: "s_list s_empty = []"
    and inv_empty: "s_inv s_empty"
    and inv_add: "s_inv s \<Longrightarrow> s_inv (s_add k s)"
    and inv_discard: "s_inv s \<Longrightarrow> s_inv (s_discard k s)"
    and list_distinct: "s_inv s \<Longrightarrow> distinct (s_list s)"
    and contains_list: "s_inv s \<Longrightarrow> s_contains s k \<longleftrightarrow> k \<in> set (s_list s)"
    and list_add: "s_inv s \<Longrightarrow> set (s_list (s_add k s)) = insert k (set (s_list s))"
    and list_discard: "s_inv s \<Longrightarrow> set (s_list (s_discard k s)) = set (s_list s) - {k}"
    and sample_sub: "s_inv s \<Longrightarrow> set (fst (s_sample n s r)) \<subseteq> set (s_list s)"
    and sample_distinct: "s_inv s \<Longrightarrow> distinct (fst (s_sample n s r))"
    and sample_length: "s_inv s \<Longrightarrow> length (fst (s_sample n s r)) = min n (length (s_list s))"
begin

lemma length_list: "s_inv s \<Longrightarrow> length (s_list s) = card (set (s_list s))"
  by (simp add: list_distinct distinct_card)

lemma contains_add: "s_inv s \<Longrightarrow> s_contains (s_add k s) k' \<longleftrightarrow> k' = k \<or> s_contains s k'"
  by (simp add: contains_list list_add inv_add)

lemma contains_discard: "s_inv s \<Longrightarrow> s_contains (s_discard k s) k' \<longleftrightarrow> k' \<noteq> k \<and> s_contains s k'"
  by (auto simp: contains_list list_discard inv_discard)

lemma length_discard:
  assumes "s_inv s" "s_contains s k"
  shows "Suc (length (s_list (s_discard k s))) = length (s_list s)"
proof -
  from assms have "Suc (card (set (s_list s) - {k})) = card (set (s_list s))"
    by (intro card_Suc_Diff1) (simp_all add: contains_list)
  with assms(1) show ?thesis
    by (simp only: length_list inv_discard list_discard)
qed

lemma sample_all: "s_inv s \<Longrightarrow> length (s_list s) \<le> n \<Longrightarrow> set (fst (s_sample n s r)) = set (s_list s)"
  by (metis card_subset_eq List.finite_set distinct_card list_distinct min.absorb2 sample_distinct
      sample_length sample_sub)

lemma discard_all:
  "s_inv s \<Longrightarrow> set (s_list (fold s_discard ks s)) = set (s_list s) - set ks \<and> s_inv (fold s_discard ks s)"
  by (induction ks arbitrary: s) (auto simp: list_discard inv_discard)

end

interpretation ks: sample_set ks_empty ks_add ks_discard ks_contains ks_items ks_sample ks_inv
proof unfold_locales
  fix s :: keyset and k n r
  assume inv: "ks_inv s"
  show "set (ks_items (ks_add k s)) = insert k (set (ks_items s))"
    using inv by (auto simp: ks_items_add)
  show "set (fst (ks_sample n s r)) \<subseteq> set (ks_items s)"
    by (simp add: ks_sample_def rng_sample_sub)
  show "distinct (fst (ks_sample n s r))"
    using inv by (simp add: ks_sample_def rng_sample_distinct ks_inv_distinct)
  show "length (fst (ks_sample n s r)) = min n (length (ks_items s))"
    by (simp add: ks_sample_def)
qed (simp_all add: ks_inv_empty ks_inv_add ks_inv_discard ks_inv_distinct ks_contains_iff ks_set_discard)

lemmas ks_facts = ks.contains_add ks.contains_discard ks.length_discard ks.list_discard ks.list_add

section \<open>Properties\<close>

text \<open>
  C30.  Removing a present key from a well-formed key set removes exactly that key: the result is
  well formed (array and index still inverse to each other), the other keys all stay, the array
  shrinks by one, and only the element that was last may change its position.
\<close>

theorem discard_exact:
  assumes "ks_inv s" "key \<in> set (ks_items s)"
  shows "ks_inv (ks_discard key s)
    \<and> set (ks_items (ks_discard key s)) = set (ks_items s) - {key}
    \<and> Suc (ks_len (ks_discard key s)) = ks_len s
    \<and> (\<forall>k i. dict_get (ks_index s) k = Some i \<and> k \<noteq> key \<and> k \<noteq> last (ks_items s) \<longrightarrow>
          dict_get (ks_index (ks_discard key s)) k = Some i)"
proof (intro conjI allI impI)
  show "ks_inv (ks_discard key s)" using assms(1) by (rule ks.inv_discard)
  show "set (ks_items (ks_discard key s)) = set (ks_items s) - {key}"
    using assms(1) by (rule ks.list_discard)
  show "Suc (ks_len (ks_discard key s)) = ks_len s"
    using ks.length_discard assms by (simp add: ks_len_def ks_contains_iff)
  show "dict_get (ks_index (ks_discard key s)) k = Some i"
    if "dict_get (ks_index s) k = Some i \<and> k \<noteq> key \<and> k \<noteq> last (ks_items s)" for k i
    using that by (auto simp: ks_discard_def Let_def split: option.splits)
qed

theorem discard_exact_witness:
  "ks_inv (ks_add [98] (ks_add [97] ks_empty)) \<and>
   set (ks_items (ks_discard [97] (ks_add [98] (ks_add [97] ks_empty)))) = {[98]}"
proof -
  have inv: "ks_inv (ks_add [98] (ks_add [97] ks_empty))"
    by (intro ks.inv_add ks.inv_empty)
  have mem: "[97] \<in> set (ks_items (ks_add [98] (ks_add [97] ks_empty)))"
    by code_simp
  have items: "set (ks_items (ks_add [98] (ks_add [97] ks_empty))) = {[97], [98]}"
    by code_simp
  show ?thesis using discard_exact [OF inv mem] inv items by auto
qed

end
