(* ===== verification/Containers.thy ===== *)
theory Containers
  imports Keyset Py_Values "HOL-Library.Multiset"
begin

text \<open>
  \<open>engine/datatypes/containers.py\<close> and the constants of \<open>sizing.py\<close>: \<open>ListValue\<close>, \<open>HashValue\<close>
  and \<open>SetValue\<close>, each a Python container with a running memory estimate \<open>nbytes\<close>.  A method
  that mutates its object returns the new object.  The locale \<open>sized\<close> is what the store relies
  on when it charges a value: the running estimate is a function of the content alone.
\<close>

section \<open>Sizes\<close>

definition ENTRY_OVERHEAD :: int where "ENTRY_OVERHEAD = 120"
definition LIST_ITEM_OVERHEAD :: int where "LIST_ITEM_OVERHEAD = 8"
definition HASH_ITEM_OVERHEAD :: int where "HASH_ITEM_OVERHEAD = 50"
definition SET_ITEM_OVERHEAD :: int where "SET_ITEM_OVERHEAD = 60"
definition ZSET_ITEM_OVERHEAD :: int where "ZSET_ITEM_OVERHEAD = 200"
definition EMPTY_CONTAINER :: int where "EMPTY_CONTAINER = 200"

lemmas overhead_defs = ENTRY_OVERHEAD_def LIST_ITEM_OVERHEAD_def HASH_ITEM_OVERHEAD_def
  SET_ITEM_OVERHEAD_def ZSET_ITEM_OVERHEAD_def EMPTY_CONTAINER_def

locale sized =
  fixes nbytes :: "'c \<Rightarrow> int" and elems :: "'c \<Rightarrow> 'e list" and cost :: "'e \<Rightarrow> int"
    and ok :: "'c \<Rightarrow> bool"
  assumes nbytes_elems: "ok c \<Longrightarrow> nbytes c = EMPTY_CONTAINER + sum_list (map cost (elems c))"
    and cost_pos: "0 < cost e"
begin

lemma sum_cost_nonneg: "0 \<le> sum_list (map cost es)"
proof -
  have "0 \<le> cost e" for e using cost_pos [of e] by simp
  then show ?thesis by (intro sum_list_nonneg) auto
qed

lemma nbytes_empty_le: "ok c \<Longrightarrow> EMPTY_CONTAINER \<le> nbytes c"
  using sum_cost_nonneg by (simp add: nbytes_elems)

lemma nbytes_determined: "ok c \<Longrightarrow> ok d \<Longrightarrow> mset (elems c) = mset (elems d) \<Longrightarrow> nbytes c = nbytes d"
  by (metis nbytes_elems sum_mset_sum_list mset_map)

end

section \<open>Index arithmetic\<close>

definition clamp :: "int \<Rightarrow> int \<Rightarrow> int \<Rightarrow> (int \<times> int) option" where
  "clamp start stop len =
     (let start = (if start < 0 then max 0 (len + start) else start);
          stop = (if stop < 0 then stop + len else stop);
          stop = min stop (len - 1)
      in if start > stop \<or> start \<ge> len then None else Some (start, stop))"

lemma clamp_bounds: "clamp a b n = Some (lo, hi) \<Longrightarrow> 0 \<le> lo \<and> lo \<le> hi \<and> hi < n"
  by (auto simp: clamp_def Let_def max_def min_def split: if_splits)

lemma clamp_interval:
  fixes start stop n :: int
  assumes "0 \<le> n"
  defines "lo \<equiv> max 0 (if start < 0 then start + n else start)"
    and "hi \<equiv> min (n - 1) (if stop < 0 then stop + n else stop)"
  shows "clamp start stop n = (if lo \<le> hi then Some (lo, hi) else None)"
  using assms(1) by (auto simp: clamp_def lo_def hi_def Let_def max_def min_def)

text \<open>\<open>itertools.islice(xs, lo, hi)\<close>.\<close>

definition islice :: "'a list \<Rightarrow> int \<Rightarrow> int \<Rightarrow> 'a list" where
  "islice xs lo hi = take (nat (hi - lo)) (drop (nat lo) xs)"

section \<open>Lists\<close>

record list_value =
  lv_items :: "str list"
  lv_nbytes :: int

definition list_len :: "list_value \<Rightarrow> int" where
  "list_len v = int (length (lv_items v))"

primrec list_push_left :: "str list \<Rightarrow> list_value \<Rightarrow> list_value" where
  "list_push_left [] v = v"
| "list_push_left (x # xs) v =
     list_push_left xs \<lparr>lv_items = x # lv_items v, lv_nbytes = lv_nbytes v + (str_size x + LIST_ITEM_OVERHEAD)\<rparr>"

primrec list_push_right :: "str list \<Rightarrow> list_value \<Rightarrow> list_value" where
  "list_push_right [] v = v"
| "list_push_right (x # xs) v =
     list_push_right xs \<lparr>lv_items = lv_items v @ [x], lv_nbytes = lv_nbytes v + (str_size x + LIST_ITEM_OVERHEAD)\<rparr>"

definition list_init :: "str list \<Rightarrow> list_value" where
  "list_init items = list_push_right items \<lparr>lv_items = [], lv_nbytes = EMPTY_CONTAINER\<rparr>"

primrec list_pop_loop :: "nat \<Rightarrow> bool \<Rightarrow> list_value \<Rightarrow> str list \<times> list_value" where
  "list_pop_loop 0 left v = ([], v)"
| "list_pop_loop (Suc n) left v =
     (let x = (if left then hd (lv_items v) else last (lv_items v));
          rest = (if left then tl (lv_items v) else butlast (lv_items v))
      in case list_pop_loop n left
            \<lparr>lv_items = rest, lv_nbytes = lv_nbytes v - (str_size x + LIST_ITEM_OVERHEAD)\<rparr> of
           (xs, w) \<Rightarrow> (x # xs, w))"

definition list_pop :: "int \<Rightarrow> bool \<Rightarrow> list_value \<Rightarrow> str list \<times> list_value" where
  "list_pop cnt left v = list_pop_loop (nat (min cnt (list_len v))) left v"

definition list_normalize :: "int \<Rightarrow> list_value \<Rightarrow> nat option" where
  "list_normalize index v =
     (let index = (if index < 0 then index + list_len v else index)
      in if 0 \<le> index \<and> index < list_len v then Some (nat index) else None)"

definition list_get :: "int \<Rightarrow> list_value \<Rightarrow> str option" where
  "list_get index v = map_option (\<lambda>pos. lv_items v ! pos) (list_normalize index v)"

definition list_set :: "int \<Rightarrow> str \<Rightarrow> list_value \<Rightarrow> bool \<times> list_value" where
  "list_set index value v =
     (case list_normalize index v of
        None \<Rightarrow> (False, v)
      | Some pos \<Rightarrow>
          (True, \<lparr>lv_items = (lv_items v)[pos := value],
                  lv_nbytes = lv_nbytes v + (str_size value - str_size (lv_items v ! pos))\<rparr>))"

definition list_range :: "int \<Rightarrow> int \<Rightarrow> list_value \<Rightarrow> str list" where
  "list_range start stop v =
     (case clamp start stop (list_len v) of
        None \<Rightarrow> []
      | Some (lo, hi) \<Rightarrow>
          let len = list_len v
          in if lo > len - 1 - hi
             then rev (islice (rev (lv_items v)) (len - 1 - hi) (len - lo))
             else islice (lv_items v) lo (hi + 1))"

definition list_trim :: "int \<Rightarrow> int \<Rightarrow> list_value \<Rightarrow> list_value" where
  "list_trim start stop v =
     list_push_right (list_range start stop v) \<lparr>lv_items = [], lv_nbytes = EMPTY_CONTAINER\<rparr>"

primrec list_remove_loop :: "int \<Rightarrow> str \<Rightarrow> str list \<Rightarrow> int \<Rightarrow> str list \<times> int" where
  "list_remove_loop cnt value [] removed = ([], removed)"
| "list_remove_loop cnt value (item # items) removed =
     (if item = value \<and> (cnt = 0 \<or> removed < \<bar>cnt\<bar>)
      then list_remove_loop cnt value items (removed + 1)
      else case list_remove_loop cnt value items removed of (kept, r) \<Rightarrow> (item # kept, r))"

definition list_remove :: "int \<Rightarrow> str \<Rightarrow> list_value \<Rightarrow> int \<times> list_value" where
  "list_remove cnt value v =
     (let items = (if cnt < 0 then rev (lv_items v) else lv_items v)
      in case list_remove_loop cnt value items 0 of (kept, removed) \<Rightarrow>
           if removed \<noteq> 0
           then (removed, \<lparr>lv_items = (if cnt < 0 then rev kept else kept),
                           lv_nbytes = lv_nbytes v - removed * (str_size value + LIST_ITEM_OVERHEAD)\<rparr>)
           else (removed, v))"

section \<open>Hashes\<close>

record hash_value =
  hv_fields :: "(str, str) dict"
  hv_nbytes :: int

definition hash_init :: hash_value where
  "hash_init = \<lparr>hv_fields = [], hv_nbytes = EMPTY_CONTAINER\<rparr>"

definition hash_len :: "hash_value \<Rightarrow> int" where
  "hash_len v = int (length (hv_fields v))"

definition hash_contains :: "str \<Rightarrow> hash_value \<Rightarrow> bool" where
  "hash_contains field v \<longleftrightarrow> dict_get (hv_fields v) field \<noteq> None"

definition hash_get :: "str \<Rightarrow> hash_value \<Rightarrow> str option" where
  "hash_get field v = dict_get (hv_fields v) field"

definition hash_set :: "str \<Rightarrow> str \<Rightarrow> hash_value \<Rightarrow> bool \<times> hash_value" where
  "hash_set field value v =
     (let fields = dict_set field value (hv_fields v)
      in case dict_get (hv_fields v) field of
           None \<Rightarrow> (True, \<lparr>hv_fields = fields,
             hv_nbytes = hv_nbytes v + (str_size field + str_size value + HASH_ITEM_OVERHEAD)\<rparr>)
         | Some old \<Rightarrow> (False, \<lparr>hv_fields = fields,
             hv_nbytes = hv_nbytes v + (str_size value - str_size old)\<rparr>))"

definition hash_delete :: "str \<Rightarrow> hash_value \<Rightarrow> bool \<times> hash_value" where
  "hash_delete field v =
     (case dict_get (hv_fields v) field of
        None \<Rightarrow> (False, v)
      | Some old \<Rightarrow> (True, \<lparr>hv_fields = dict_pop field (hv_fields v),
          hv_nbytes = hv_nbytes v - (str_size field + str_size old + HASH_ITEM_OVERHEAD)\<rparr>))"

definition hash_items :: "hash_value \<Rightarrow> (str \<times> str) list" where
  "hash_items v = hv_fields v"

section \<open>Sets\<close>

record set_value =
  sv_members :: keyset
  sv_nbytes :: int

definition set_init :: set_value where
  "set_init = \<lparr>sv_members = ks_empty, sv_nbytes = EMPTY_CONTAINER\<rparr>"

definition set_len :: "set_value \<Rightarrow> int" where
  "set_len v = int (ks_len (sv_members v))"

definition set_contains :: "str \<Rightarrow> set_value \<Rightarrow> bool" where
  "set_contains member v \<longleftrightarrow> ks_contains (sv_members v) member"

definition set_iter :: "set_value \<Rightarrow> str list" where
  "set_iter v = ks_items (sv_members v)"

definition set_add :: "str \<Rightarrow> set_value \<Rightarrow> bool \<times> set_value" where
  "set_add member v =
     (if ks_contains (sv_members v) member then (False, v)
      else (True, \<lparr>sv_members = ks_add member (sv_members v),
                   sv_nbytes = sv_nbytes v + (str_size member + SET_ITEM_OVERHEAD)\<rparr>))"

definition set_remove :: "str \<Rightarrow> set_value \<Rightarrow> bool \<times> set_value" where
  "set_remove member v =
     (if \<not> ks_contains (sv_members v) member then (False, v)
      else (True, \<lparr>sv_members = ks_discard member (sv_members v),
                   sv_nbytes = sv_nbytes v - (str_size member + SET_ITEM_OVERHEAD)\<rparr>))"

definition set_sample :: "nat \<Rightarrow> set_value \<Rightarrow> rng \<Rightarrow> str list \<times> rng" where
  "set_sample cnt v r = ks_sample cnt (sv_members v) r"

section \<open>List operations against their specification\<close>

definition list_cost :: "str \<Rightarrow> int" where
  "list_cost x = str_size x + LIST_ITEM_OVERHEAD"

definition list_ok :: "list_value \<Rightarrow> bool" where
  "list_ok v \<longleftrightarrow> lv_nbytes v = EMPTY_CONTAINER + sum_list (map list_cost (lv_items v))"

interpretation lv: sized lv_nbytes lv_items list_cost list_ok
  by unfold_locales (simp_all add: list_ok_def list_cost_def LIST_ITEM_OVERHEAD_def str_size_pos add_pos_pos)

lemma list_push_left_items [simp]: "lv_items (list_push_left xs v) = rev xs @ lv_items v"
  by (induction xs arbitrary: v) simp_all

lemma list_push_right_items [simp]: "lv_items (list_push_right xs v) = lv_items v @ xs"
  by (induction xs arbitrary: v) simp_all

lemma list_ok_push_left [inv_intro]: "list_ok v \<Longrightarrow> list_ok (list_push_left xs v)"
  by (induction xs arbitrary: v) (simp_all add: list_ok_def list_cost_def)

lemma list_ok_push_right [inv_intro]: "list_ok v \<Longrightarrow> list_ok (list_push_right xs v)"
  by (induction xs arbitrary: v) (simp_all add: list_ok_def list_cost_def)

lemma list_ok_empty [simp]: "list_ok \<lparr>lv_items = [], lv_nbytes = EMPTY_CONTAINER\<rparr>"
  by (simp add: list_ok_def)

lemma list_init_items [simp]: "lv_items (list_init xs) = xs"
  by (simp add: list_init_def)

lemma list_ok_init [inv_intro]: "list_ok (list_init xs)"
  by (simp add: list_init_def list_ok_push_right)

lemma sum_list_butlast_last:
  "xs \<noteq> [] \<Longrightarrow> sum_list (map f xs) = sum_list (map f (butlast xs)) + (f (last xs) :: int)"
  by (induction xs) auto

lemma list_pop_loop_spec:
  "n \<le> length (lv_items v) \<Longrightarrow> list_ok v \<Longrightarrow> list_pop_loop n left v = (xs, w) \<Longrightarrow>
   list_ok w \<and> xs = take n (if left then lv_items v else rev (lv_items v)) \<and>
   lv_items w = (if left then drop n (lv_items v) else take (length (lv_items v) - n) (lv_items v))"
proof (induction n arbitrary: v xs w)
  case (Suc n)
  from Suc.prems(1) have ne: "lv_items v \<noteq> []" by auto
  define x where "x = (if left then hd (lv_items v) else last (lv_items v))"
  define rest where "rest = (if left then tl (lv_items v) else butlast (lv_items v))"
  define u where "u = \<lparr>lv_items = rest, lv_nbytes = lv_nbytes v - (str_size x + LIST_ITEM_OVERHEAD)\<rparr>"
  obtain ys where ys: "list_pop_loop n left u = (ys, w)" "xs = x # ys"
    using Suc.prems(3) by (auto simp: Let_def u_def x_def rest_def split: prod.splits if_splits)
  have len: "length rest = length (lv_items v) - 1" by (simp add: rest_def)
  have "sum_list (map list_cost (lv_items v)) = sum_list (map list_cost rest) + list_cost x"
    using ne sum_list_butlast_last [OF ne, of list_cost]
    by (cases left; cases "lv_items v") (simp_all add: x_def rest_def)
  with Suc.prems(2) have "list_ok u" by (simp add: list_ok_def u_def list_cost_def)
  with Suc.IH [OF _ this ys(1)] Suc.prems(1) len have
    "list_ok w \<and> ys = take n (if left then rest else rev rest) \<and>
     lv_items w = (if left then drop n rest else take (length rest - n) rest)"
    by (simp add: u_def)
  moreover have "take (length (butlast (lv_items v)) - n) (butlast (lv_items v)) =
      take (length (lv_items v) - Suc n) (lv_items v)"
    by (simp add: butlast_conv_take)
  moreover have "take (Suc n) (rev (lv_items v)) = last (lv_items v) # take n (rev (butlast (lv_items v)))"
    using ne by (cases "lv_items v" rule: rev_cases) simp_all
  moreover have "take (Suc n) (lv_items v) = hd (lv_items v) # take n (tl (lv_items v))"
    using ne by (cases "lv_items v") simp_all
  ultimately show ?case using ys(2)
    by (cases left) (simp_all add: x_def rest_def drop_Suc)
qed simp

lemma list_pop_spec:
  assumes "list_ok v" "list_pop cnt left v = (xs, w)"
  shows "list_ok w"
    and "xs = take (nat cnt) (if left then lv_items v else rev (lv_items v))"
    and "lv_items w = (if left then drop (nat cnt) (lv_items v)
                       else take (length (lv_items v) - nat cnt) (lv_items v))"
proof -
  let ?n = "nat (min cnt (list_len v))"
  have n: "?n \<le> length (lv_items v)" by (simp add: list_len_def)
  have "?n = min (nat cnt) (length (lv_items v))" by (simp add: list_len_def min_def nat_le_iff)
  with list_pop_loop_spec [OF n assms(1), of left xs w] assms(2)
  show "list_ok w"
    and "xs = take (nat cnt) (if left then lv_items v else rev (lv_items v))"
    and "lv_items w = (if left then drop (nat cnt) (lv_items v)
                       else take (length (lv_items v) - nat cnt) (lv_items v))"
    by (auto simp: list_pop_def min_def split: if_splits)
qed

lemma list_normalize_Some: "list_normalize index v = Some pos \<Longrightarrow> pos < length (lv_items v)"
  by (auto simp: list_normalize_def list_len_def Let_def split: if_splits)

lemma sum_list_update_int:
  "i < length xs \<Longrightarrow> sum_list (map f (xs[i := y])) = sum_list (map f xs) - f (xs ! i) + (f y :: int)"
  by (induction xs arbitrary: i) (auto split: nat.split)

lemma list_ok_set [inv_intro]: "list_ok v \<Longrightarrow> list_ok (snd (list_set index x v))"
  by (auto simp: list_set_def list_ok_def sum_list_update_int list_cost_def dest: list_normalize_Some split: option.split)

lemma list_ok_trim [inv_intro]: "list_ok (list_trim start stop v)"
  by (simp add: list_trim_def list_ok_push_right)

lemma list_trim_items [simp]: "lv_items (list_trim start stop v) = list_range start stop v"
  by (simp add: list_trim_def)

text \<open>Both directions of the walk in \<open>range\<close> deliver the same slice.\<close>

lemma islice_rev:
  assumes "0 \<le> lo" "lo \<le> hi" "hi < int (length xs)"
  shows "rev (islice (rev xs) (int (length xs) - 1 - hi) (int (length xs) - lo)) = islice xs lo (hi + 1)"
proof (rule nth_equalityI)
  show "length (rev (islice (rev xs) (int (length xs) - 1 - hi) (int (length xs) - lo))) =
      length (islice xs lo (hi + 1))"
    using assms by (simp add: islice_def)
  fix i
  assume "i < length (rev (islice (rev xs) (int (length xs) - 1 - hi) (int (length xs) - lo)))"
  then show "rev (islice (rev xs) (int (length xs) - 1 - hi) (int (length xs) - lo)) ! i = islice xs lo (hi + 1) ! i"
    using assms by (simp add: islice_def rev_nth) (rule arg_cong [of _ _ "(!) xs"], arith)
qed

lemma list_range_islice:
  "list_range start stop v =
     (case clamp start stop (list_len v) of None \<Rightarrow> [] | Some (lo, hi) \<Rightarrow> islice (lv_items v) lo (hi + 1))"
  using islice_rev [of _ _ "lv_items v"] clamp_bounds [of start stop "list_len v"]
  by (auto simp: list_range_def list_len_def Let_def split: option.split)

lemma islice_upto:
  assumes "0 \<le> lo" "hi < int (length xs)"
  shows "islice xs lo (hi + 1) = map (\<lambda>i. xs ! nat i) [lo..hi]"
  using assms by (intro nth_equalityI) (auto simp: islice_def nth_upto nat_add_distrib)

lemma list_remove_loop_spec:
  "0 \<le> r \<Longrightarrow> list_remove_loop cnt value items r = (kept, r') \<Longrightarrow>
   r \<le> r' \<and> (cnt \<noteq> 0 \<longrightarrow> r \<le> \<bar>cnt\<bar> \<longrightarrow> r' \<le> \<bar>cnt\<bar>) \<and>
   (\<exists>pre post. items = pre @ post \<and> kept = filter (\<lambda>x. x \<noteq> value) pre @ post \<and>
      r' - r = int (count_list pre value) \<and> (value \<notin> set post \<or> cnt \<noteq> 0 \<and> \<bar>cnt\<bar> \<le> r'))"
proof (induction items arbitrary: r kept r')
  case (Cons item items)
  show ?case
  proof (cases "cnt \<noteq> 0 \<and> \<bar>cnt\<bar> \<le> r")
    case True
    have "list_remove_loop cnt value items r = (items, r)" for items
      using True by (induction items) auto
    with Cons.prems True show ?thesis by (intro conjI exI [of _ "[]"] exI [of _ "item # items"]) auto
  next
    case False
    show ?thesis
    proof (cases "item = value")
      case True
      with False Cons.prems have "list_remove_loop cnt value items (r + 1) = (kept, r')" by auto
      from Cons.IH [OF _ this] Cons.prems(1) obtain pre post where
        "r + 1 \<le> r'" "cnt \<noteq> 0 \<longrightarrow> r + 1 \<le> \<bar>cnt\<bar> \<longrightarrow> r' \<le> \<bar>cnt\<bar>" "items = pre @ post"
        "kept = filter (\<lambda>x. x \<noteq> value) pre @ post" "r' - (r + 1) = int (count_list pre value)"
        "value \<notin> set post \<or> cnt \<noteq> 0 \<and> \<bar>cnt\<bar> \<le> r'" by auto
      with True False show ?thesis by (intro conjI exI [of _ "item # pre"] exI [of _ post]) auto
    next
      case False
      with Cons.prems obtain kept' where k: "list_remove_loop cnt value items r = (kept', r')"
        "kept = item # kept'" by (auto split: prod.splits)
      from Cons.IH [OF Cons.prems(1) k(1)] obtain pre post where
        "r \<le> r'" "cnt \<noteq> 0 \<longrightarrow> r \<le> \<bar>cnt\<bar> \<longrightarrow> r' \<le> \<bar>cnt\<bar>" "items = pre @ post"
        "kept' = filter (\<lambda>x. x \<noteq> value) pre @ post" "r' - r = int (count_list pre value)"
        "value \<notin> set post \<or> cnt \<noteq> 0 \<and> \<bar>cnt\<bar> \<le> r'" by auto
      with False k show ?thesis by (intro conjI exI [of _ "item # pre"] exI [of _ post]) auto
    qed
  qed
qed auto

lemma sum_filter_ne:
  "sum_list (map f (filter (\<lambda>x. x \<noteq> a) xs)) = sum_list (map f xs) - int (count_list xs a) * (f a :: int)"
  by (induction xs) (auto simp: algebra_simps)

lemma list_remove_cases:
  assumes "list_remove cnt value v = (removed, w)"
  obtains pre post where
    "lv_items v = (if cnt < 0 then rev post @ rev pre else pre @ post)"
    "lv_items w = (if cnt < 0 then rev post @ rev (filter (\<lambda>x. x \<noteq> value) pre)
                   else filter (\<lambda>x. x \<noteq> value) pre @ post)"
    "removed = int (count_list pre value)" "cnt \<noteq> 0 \<longrightarrow> removed \<le> \<bar>cnt\<bar>"
    "value \<notin> set post \<or> cnt \<noteq> 0 \<and> removed = \<bar>cnt\<bar>"
    "lv_nbytes w = lv_nbytes v - removed * (str_size value + LIST_ITEM_OVERHEAD)"
proof -
  define items where "items = (if cnt < 0 then rev (lv_items v) else lv_items v)"
  obtain kept r where k: "list_remove_loop cnt value items 0 = (kept, r)" by (cases "list_remove_loop cnt value items 0")
  from list_remove_loop_spec [OF _ k] obtain pre post where *:
    "cnt \<noteq> 0 \<longrightarrow> r \<le> \<bar>cnt\<bar>" "items = pre @ post" "kept = filter (\<lambda>x. x \<noteq> value) pre @ post"
    "r = int (count_list pre value)" "value \<notin> set post \<or> cnt \<noteq> 0 \<and> \<bar>cnt\<bar> \<le> r" by auto
  have pre: "filter (\<lambda>x. x \<noteq> value) pre = pre" if "r = 0"
    using that *(4) by (auto simp: count_list_0_iff filter_id_conv)
  have items: "lv_items v = (if cnt < 0 then rev post @ rev pre else pre @ post)"
    using *(2) by (auto simp: items_def split: if_splits) (metis rev_append rev_rev_ident)
  show thesis
  proof (rule that [OF items])
    show "removed = int (count_list pre value)" "cnt \<noteq> 0 \<longrightarrow> removed \<le> \<bar>cnt\<bar>"
      "value \<notin> set post \<or> cnt \<noteq> 0 \<and> removed = \<bar>cnt\<bar>"
      "lv_nbytes w = lv_nbytes v - removed * (str_size value + LIST_ITEM_OVERHEAD)"
      using assms k * by (auto simp: list_remove_def Let_def items_def split: if_splits)
    show "lv_items w = (if cnt < 0 then rev post @ rev (filter (\<lambda>x. x \<noteq> value) pre)
                   else filter (\<lambda>x. x \<noteq> value) pre @ post)"
      using assms k * pre items by (auto simp: list_remove_def Let_def items_def split: if_splits)
  qed
qed

lemma list_ok_remove [inv_intro]:
  assumes "list_ok v" "list_remove cnt value v = (removed, w)"
  shows "list_ok w"
  using assms(2)
proof (cases rule: list_remove_cases)
  case (1 pre post)
  have "sum_list (map list_cost (lv_items w)) =
      sum_list (map list_cost (lv_items v)) - int (count_list pre value) * list_cost value"
    using 1(1,2) by (simp add: sum_filter_ne rev_map [symmetric] rev_filter [symmetric])
  with assms(1) 1 show ?thesis by (simp add: list_ok_def list_cost_def)
qed

section \<open>Hash and set operations keep their account\<close>

definition hash_cost :: "str \<times> str \<Rightarrow> int" where
  "hash_cost p = str_size (fst p) + str_size (snd p) + HASH_ITEM_OVERHEAD"

definition hash_ok :: "hash_value \<Rightarrow> bool" where
  "hash_ok v \<longleftrightarrow> dict_ok (hv_fields v) \<and>
     hv_nbytes v = EMPTY_CONTAINER + sum_list (map hash_cost (hv_fields v))"

interpretation hv: sized hv_nbytes hv_fields hash_cost hash_ok
  by unfold_locales (simp_all add: hash_ok_def hash_cost_def HASH_ITEM_OVERHEAD_def str_size_pos add_pos_pos)

lemma hash_ok_init [inv_intro]: "hash_ok hash_init"
  by (simp add: hash_ok_def hash_init_def)

lemma hash_ok_set [inv_intro]: "hash_ok v \<Longrightarrow> hash_ok (snd (hash_set field x v))"
  by (auto simp: hash_ok_def hash_set_def Let_def sum_dict_set_new sum_dict_set_old hash_cost_def split: option.split)

lemma hash_ok_delete [inv_intro]: "hash_ok v \<Longrightarrow> hash_ok (snd (hash_delete field v))"
  by (auto simp: hash_ok_def hash_delete_def sum_dict_pop hash_cost_def split: option.split)

lemma hash_get_set: "hash_get f (snd (hash_set field x v)) = (if f = field then Some x else hash_get f v)"
  by (simp add: hash_get_def hash_set_def Let_def split: option.split)

lemma hash_get_delete: "hash_get f (snd (hash_delete field v)) = (if f = field then None else hash_get f v)"
  by (auto simp: hash_get_def hash_delete_def split: option.split)

lemma hash_set_new: "fst (hash_set field x v) \<longleftrightarrow> \<not> hash_contains field v"
  by (simp add: hash_set_def hash_contains_def Let_def split: option.split)

lemma hash_delete_found: "fst (hash_delete field v) \<longleftrightarrow> hash_contains field v"
  by (simp add: hash_delete_def hash_contains_def split: option.split)

definition set_cost :: "str \<Rightarrow> int" where
  "set_cost m = str_size m + SET_ITEM_OVERHEAD"

definition set_ok :: "set_value \<Rightarrow> bool" where
  "set_ok v \<longleftrightarrow> ks_inv (sv_members v) \<and>
     sv_nbytes v = EMPTY_CONTAINER + sum_list (map set_cost (set_iter v))"

interpretation sv: sized sv_nbytes set_iter set_cost set_ok
  by unfold_locales (simp_all add: set_ok_def set_cost_def SET_ITEM_OVERHEAD_def str_size_pos add_pos_pos)

lemma set_ok_init [inv_intro]: "set_ok set_init"
  by (simp add: set_ok_def set_init_def set_iter_def ks.inv_empty)

lemma set_contains_iter: "set_ok v \<Longrightarrow> set_contains m v \<longleftrightarrow> m \<in> set (set_iter v)"
  by (simp add: set_ok_def set_contains_def set_iter_def ks.contains_list)

lemma set_iter_distinct: "set_ok v \<Longrightarrow> distinct (set_iter v)"
  by (simp add: set_ok_def set_iter_def ks.list_distinct)

lemma sum_list_distinct_set:
  "distinct xs \<Longrightarrow> sum_list (map f xs) = (\<Sum>x\<in>set xs. (f x :: int))"
  by (simp add: sum_list_distinct_conv_sum_set)

lemma set_ok_add [inv_intro]: "set_ok v \<Longrightarrow> set_ok (snd (set_add m v))"
  by (simp add: set_ok_def set_add_def set_iter_def ks.inv_add ks_items_add ks.contains_list set_cost_def)

lemma set_iter_add: "set_ok v \<Longrightarrow> set (set_iter (snd (set_add m v))) = insert m (set (set_iter v))"
  by (auto simp: set_ok_def set_add_def set_iter_def ks.list_add ks.contains_list)

lemma set_iter_remove: "set_ok v \<Longrightarrow> set (set_iter (snd (set_remove m v))) = set (set_iter v) - {m}"
  by (auto simp: set_ok_def set_remove_def set_iter_def ks.list_discard ks.contains_list)

lemma set_ok_remove [inv_intro]:
  assumes "set_ok v"
  shows "set_ok (snd (set_remove m v))"
proof (cases "ks_contains (sv_members v) m")
  case True
  let ?s = "sv_members v"
  from assms have inv: "ks_inv ?s" by (simp add: set_ok_def)
  note d = ks.list_distinct [OF inv] ks.list_distinct [OF ks.inv_discard [OF inv, of m]]
  have "sum_list (map set_cost (ks_items (ks_discard m ?s))) =
      sum_list (map set_cost (ks_items ?s)) - set_cost m"
    using True inv by (simp add: sum_list_distinct_set d ks.list_discard ks.contains_list sum_diff1)
  with assms True inv show ?thesis
    by (simp add: set_ok_def set_remove_def set_iter_def ks.inv_discard set_cost_def)
qed (use assms in \<open>simp add: set_remove_def\<close>)

section \<open>Properties\<close>

text \<open>
  C28.  \<open>ListValue.range\<close> returns exactly the elements at the positions from the resolved start
  (negative indexes count from the end, clamped at 0) to the resolved stop (clamped at the last
  position), in order, whichever end of the deque it walks in from; \<open>trim\<close> keeps exactly those.
\<close>

theorem list_range_positions:
  fixes v :: list_value and start stop :: int
  defines "lo \<equiv> max 0 (if start < 0 then start + list_len v else start)"
    and "hi \<equiv> min (list_len v - 1) (if stop < 0 then stop + list_len v else stop)"
  shows "list_range start stop v = map (\<lambda>i. lv_items v ! nat i) [lo..hi]
    \<and> lv_items (list_trim start stop v) = map (\<lambda>i. lv_items v ! nat i) [lo..hi]"
proof -
  have c: "clamp start stop (list_len v) = (if lo \<le> hi then Some (lo, hi) else None)"
    unfolding lo_def hi_def by (rule clamp_interval) (simp add: list_len_def)
  have "islice (lv_items v) lo (hi + 1) = map (\<lambda>i. lv_items v ! nat i) [lo..hi]"
    by (rule islice_upto) (auto simp: lo_def hi_def list_len_def)
  with c show ?thesis by (simp add: list_range_islice)
qed

text \<open>
  C29.  \<open>ListValue.remove\<close> (LREM) removes occurrences of the value and nothing else: the list
  splits so that one side loses all its occurrences of the value and the other is untouched,
  the touched side being the head for a count of 0 or more and the tail for a negative count;
  the number removed is returned, and it is the requested count or the value no longer occurs
  on the untouched side; the memory estimate stays exact.
\<close>

theorem list_remove_exact:
  assumes "list_ok v" "list_remove cnt value v = (removed, w)"
  shows "list_ok w \<and>
    (\<exists>near far. removed = int (count_list near value)
      \<and> lv_items v = (if cnt < 0 then far @ near else near @ far)
      \<and> lv_items w = (if cnt < 0 then far @ filter (\<lambda>x. x \<noteq> value) near
                      else filter (\<lambda>x. x \<noteq> value) near @ far)
      \<and> (value \<notin> set far \<or> cnt \<noteq> 0 \<and> removed = \<bar>cnt\<bar>)
      \<and> (cnt \<noteq> 0 \<longrightarrow> removed \<le> \<bar>cnt\<bar>))"
  using assms(2)
proof (cases rule: list_remove_cases)
  case (1 pre post)
  let ?near = "if cnt < 0 then rev pre else pre" and ?far = "if cnt < 0 then rev post else post"
  have "removed = int (count_list ?near value)" using 1(3) by simp
  moreover have "lv_items v = (if cnt < 0 then ?far @ ?near else ?near @ ?far)" using 1(1) by simp
  moreover have "lv_items w = (if cnt < 0 then ?far @ filter (\<lambda>x. x \<noteq> value) ?near
      else filter (\<lambda>x. x \<noteq> value) ?near @ ?far)" using 1(2) by (simp add: rev_filter)
  moreover have "value \<notin> set ?far \<or> cnt \<noteq> 0 \<and> removed = \<bar>cnt\<bar>" using 1(5) by simp
  moreover note 1(4) list_ok_remove [OF assms]
  ultimately show ?thesis by blast
qed

theorem list_remove_exact_witness:
  "list_remove (- 1) [7] (list_init [[7], [8], [7], [9]]) = (1, list_init [[7], [8], [9]])
   \<and> list_ok (list_init [[7], [8], [9]])"
proof -
  have eq: "list_remove (- 1) [7] (list_init [[7], [8], [7], [9]]) = (1, list_init [[7], [8], [9]])"
    by code_simp
  show ?thesis using list_remove_exact [OF list_ok_init eq] eq by blast
qed

text \<open>
  C27.  Every mutation of a list, hash or set value keeps its running memory estimate equal to
  the empty-container cost plus the cost of each element it now holds, so the estimate never
  needs to be re-measured; the hash keeps its fields distinct and the set its index exact.
\<close>

theorem containers_accounted:
  "list_ok (list_init xs) \<and> hash_ok hash_init \<and> set_ok set_init
   \<and> (list_ok v \<longrightarrow> list_ok (list_push_left xs v) \<and> list_ok (list_push_right xs v)
        \<and> list_ok (snd (list_pop cnt left v)) \<and> list_ok (snd (list_set i x v))
        \<and> list_ok (list_trim i j v) \<and> list_ok (snd (list_remove cnt x v)))
   \<and> (hash_ok h \<longrightarrow> hash_ok (snd (hash_set f x h)) \<and> hash_ok (snd (hash_delete f h)))
   \<and> (set_ok s \<longrightarrow> set_ok (snd (set_add m s)) \<and> set_ok (snd (set_remove m s)))"
proof -
  have "list_ok v \<Longrightarrow> list_ok (snd (list_pop cnt left v))"
    using list_pop_spec(1) [of v cnt left] by (metis prod.collapse)
  moreover have "list_ok v \<Longrightarrow> list_ok (snd (list_remove cnt x v))"
    using list_ok_remove [of v cnt x] by (metis prod.collapse)
  ultimately show ?thesis
    by (simp add: list_ok_init hash_ok_init set_ok_init list_ok_push_left list_ok_push_right
        list_ok_set list_ok_trim hash_ok_set hash_ok_delete set_ok_add set_ok_remove)
qed

theorem containers_accounted_witness:
  "list_ok (snd (list_pop 2 False (list_init [[97], [98], [99]])))
   \<and> hash_ok (snd (hash_delete [102] hash_init)) \<and> set_ok (snd (set_remove [109] set_init))"
  using containers_accounted [of "[[97], [98], [99]]" "list_init [[97], [98], [99]]" 2 False 0 "[]" 0
      hash_init "[102]" set_init "[109]"]
  by (simp add: list_ok_init hash_ok_init set_ok_init)

end
