(* ===== verification/Exceptions.thy ===== *)
theory Exceptions
  imports Py_Values
begin

text \<open>
  \<open>core/exceptions.py\<close>: the error classes, what their constructors put into an error, and the
  two conversions to and from a RESP error line.  An error value carries its class, its prefix
  and its message; a raise is an \<open>Inl\<close> of such a value everywhere in the development.
\<close>

section \<open>Classes\<close>

datatype err_class =
    KVStoreError | CommandError | UnknownCommandError | WrongArityError | InvalidArgumentError
  | WrongTypeError | OutOfMemoryError | KeyNotFoundError | ProtocolError | PersistenceError
  | PersistenceWriteError | AOFCorruptedError | SnapshotCorruptedError | ClusterError
  | NodeUnavailableError | ConnectFailedError | CrossShardError | ReadOnlyReplicaError
  | TryAgainError | AskRedirectError | NotEnoughReplicasError

fun class_name :: "err_class \<Rightarrow> str" where
  "class_name KVStoreError = lit ''KVStoreError''"
| "class_name CommandError = lit ''CommandError''"
| "class_name UnknownCommandError = lit ''UnknownCommandError''"
| "class_name WrongArityError = lit ''WrongArityError''"
| "class_name InvalidArgumentError = lit ''InvalidArgumentError''"
| "class_name WrongTypeError = lit ''WrongTypeError''"
| "class_name OutOfMemoryError = lit ''OutOfMemoryError''"
| "class_name KeyNotFoundError = lit ''KeyNotFoundError''"
| "class_name ProtocolError = lit ''ProtocolError''"
| "class_name PersistenceError = lit ''PersistenceError''"
| "class_name PersistenceWriteError = lit ''PersistenceWriteError''"
| "class_name AOFCorruptedError = lit ''AOFCorruptedError''"
| "class_name SnapshotCorruptedError = lit ''SnapshotCorruptedError''"
| "class_name ClusterError = lit ''ClusterError''"
| "class_name NodeUnavailableError = lit ''NodeUnavailableError''"
| "class_name ConnectFailedError = lit ''ConnectFailedError''"
| "class_name CrossShardError = lit ''CrossShardError''"
| "class_name ReadOnlyReplicaError = lit ''ReadOnlyReplicaError''"
| "class_name TryAgainError = lit ''TryAgainError''"
| "class_name AskRedirectError = lit ''AskRedirectError''"
| "class_name NotEnoughReplicasError = lit ''NotEnoughReplicasError''"

text \<open>The \<open>code\<close> used in HTTP error bodies.\<close>

fun err_code :: "err_class \<Rightarrow> str" where
  "err_code KVStoreError = lit ''INTERNAL_ERROR''"
| "err_code CommandError = lit ''COMMAND_ERROR''"
| "err_code UnknownCommandError = lit ''UNKNOWN_COMMAND''"
| "err_code WrongArityError = lit ''WRONG_ARITY''"
| "err_code InvalidArgumentError = lit ''INVALID_ARGUMENT''"
| "err_code WrongTypeError = lit ''WRONG_TYPE''"
| "err_code OutOfMemoryError = lit ''OUT_OF_MEMORY''"
| "err_code KeyNotFoundError = lit ''KEY_NOT_FOUND''"
| "err_code ProtocolError = lit ''PROTOCOL_ERROR''"
| "err_code PersistenceError = lit ''PERSISTENCE_ERROR''"
| "err_code PersistenceWriteError = lit ''PERSISTENCE_WRITE_ERROR''"
| "err_code AOFCorruptedError = lit ''AOF_CORRUPTED''"
| "err_code SnapshotCorruptedError = lit ''SNAPSHOT_CORRUPTED''"
| "err_code ClusterError = lit ''CLUSTER_ERROR''"
| "err_code NodeUnavailableError = lit ''NODE_UNAVAILABLE''"
| "err_code ConnectFailedError = lit ''NODE_UNAVAILABLE''"
| "err_code CrossShardError = lit ''CROSS_SHARD''"
| "err_code ReadOnlyReplicaError = lit ''READ_ONLY_REPLICA''"
| "err_code TryAgainError = lit ''TRY_AGAIN''"
| "err_code AskRedirectError = lit ''ASK_REDIRECT''"
| "err_code NotEnoughReplicasError = lit ''NOT_ENOUGH_REPLICAS''"

text \<open>
  \<open>KVStoreError._by_prefix\<close>, filled by \<open>__init_subclass__\<close>: the classes that declare a
  \<open>resp_prefix\<close> of their own.
\<close>

definition by_prefix :: "(str, err_class) dict" where
  "by_prefix =
     [(lit ''WRONGTYPE'', WrongTypeError), (lit ''OOM'', OutOfMemoryError),
      (lit ''MISCONF'', PersistenceWriteError), (lit ''CLUSTERDOWN'', NodeUnavailableError),
      (lit ''CROSSSLOT'', CrossShardError), (lit ''READONLY'', ReadOnlyReplicaError),
      (lit ''TRYAGAIN'', TryAgainError), (lit ''ASK'', AskRedirectError),
      (lit ''NOREPLICAS'', NotEnoughReplicasError)]"

fun resp_prefix :: "err_class \<Rightarrow> str" where
  "resp_prefix WrongTypeError = lit ''WRONGTYPE''"
| "resp_prefix OutOfMemoryError = lit ''OOM''"
| "resp_prefix PersistenceWriteError = lit ''MISCONF''"
| "resp_prefix NodeUnavailableError = lit ''CLUSTERDOWN''"
| "resp_prefix ConnectFailedError = lit ''CLUSTERDOWN''"
| "resp_prefix CrossShardError = lit ''CROSSSLOT''"
| "resp_prefix ReadOnlyReplicaError = lit ''READONLY''"
| "resp_prefix TryAgainError = lit ''TRYAGAIN''"
| "resp_prefix AskRedirectError = lit ''ASK''"
| "resp_prefix NotEnoughReplicasError = lit ''NOREPLICAS''"
| "resp_prefix _ = lit ''ERR''"

text \<open>\<open>isinstance(e, CommandError)\<close>, the handler of the AOF replay.\<close>

fun is_command_error :: "err_class \<Rightarrow> bool" where
  "is_command_error CommandError = True"
| "is_command_error UnknownCommandError = True"
| "is_command_error WrongArityError = True"
| "is_command_error InvalidArgumentError = True"
| "is_command_error WrongTypeError = True"
| "is_command_error OutOfMemoryError = True"
| "is_command_error _ = False"

section \<open>Errors\<close>

datatype kverror = KVError (err_class: err_class) (err_prefix: str) (err_message: str)

text \<open>The message a constructor passes on to \<open>KVStoreError.__init__\<close>.\<close>

fun init_message :: "err_class \<Rightarrow> str \<Rightarrow> str" where
  "init_message WrongTypeError m =
     (if m = [] then lit ''Operation against a key holding the wrong kind of value'' else m)"
| "init_message OutOfMemoryError m =
     (if m = [] then lit ''command not allowed when used memory > 'maxmemory'.'' else m)"
| "init_message ReadOnlyReplicaError m =
     (if m = [] then lit ''You can't write against a read only replica.'' else m)"
| "init_message NotEnoughReplicasError m =
     (if m = [] then lit ''Not enough good replicas to write.'' else m)"
| "init_message ProtocolError m =
     (if take 14 m = lit ''Protocol error'' then m else lit ''Protocol error: '' @ m)"
| "init_message _ m = m"

definition mk_error :: "err_class \<Rightarrow> str \<Rightarrow> str option \<Rightarrow> kverror" where
  "mk_error cls msg prefix =
     (let m = init_message cls msg;
          message = (if m = [] then class_name cls else m);
          pre = (case prefix of None \<Rightarrow> [] | Some p \<Rightarrow> p)
      in KVError cls (if pre = [] then resp_prefix cls else pre) message)"

abbreviation err :: "err_class \<Rightarrow> string \<Rightarrow> kverror" where
  "err cls msg \<equiv> mk_error cls (lit msg) None"

definition to_resp :: "kverror \<Rightarrow> str" where
  "to_resp e = err_prefix e @ [32] @ err_message e"

text \<open>
  \<open>str.isupper\<close> for an ASCII prefix: at least one letter, and no lower-case one.  A prefix with
  other cased letters is never registered, so only the split of the text depends on it.
\<close>

definition is_upper :: "str \<Rightarrow> bool" where
  "is_upper s \<longleftrightarrow> list_ex (\<lambda>c. 65 \<le> c \<and> c \<le> 90) s \<and> \<not> list_ex (\<lambda>c. 97 \<le> c \<and> c \<le> 122) s"

definition from_resp :: "str \<Rightarrow> kverror" where
  "from_resp text =
     (let prefix = takeWhile (\<lambda>c. c \<noteq> 32) text;
          message = drop 1 (dropWhile (\<lambda>c. c \<noteq> 32) text)
      in if \<not> is_upper prefix then mk_error CommandError text None
         else let cls = (case dict_get by_prefix prefix of None \<Rightarrow> CommandError | Some c \<Rightarrow> c)
              in mk_error cls message (Some prefix))"

text \<open>\<open>AskRedirectError.target\<close>: the last word of the message.\<close>

definition ask_target :: "kverror \<Rightarrow> str" where
  "ask_target e = rev (takeWhile (\<lambda>c. \<not> is_space c) (rev (py_strip (err_message e))))"

section \<open>Round trip\<close>

lemma lit_simps: "lit [] = []" "lit (c # cs) = of_char c # lit cs"
  by (simp_all add: lit_def)

lemma takeWhile_space: "32 \<notin> set p \<Longrightarrow> takeWhile (\<lambda>c. c \<noteq> 32) (p @ 32 # m) = p"
  by (induction p) auto

lemma dropWhile_space: "32 \<notin> set p \<Longrightarrow> dropWhile (\<lambda>c. c \<noteq> 32) (p @ 32 # m) = 32 # m"
  by (induction p) auto

lemma from_to_resp:
  assumes "32 \<notin> set (err_prefix e)" "is_upper (err_prefix e)"
  shows "from_resp (to_resp e) =
    mk_error (case dict_get by_prefix (err_prefix e) of None \<Rightarrow> CommandError | Some c \<Rightarrow> c)
      (err_message e) (Some (err_prefix e))"
  using assms by (simp add: from_resp_def to_resp_def takeWhile_space dropWhile_space Let_def)

lemma by_prefix_class: "dict_get by_prefix p = Some cls \<Longrightarrow> resp_prefix cls = p \<and> p \<noteq> [] \<and> 32 \<notin> set p \<and> is_upper p"
  by (auto simp: by_prefix_def lit_simps is_upper_def split: if_splits)

lemma init_message_id: "m \<noteq> [] \<Longrightarrow> cls \<noteq> ProtocolError \<Longrightarrow> init_message cls m = m"
  by (cases cls) auto

lemma class_name_ne [simp]: "class_name cls \<noteq> []"
  by (cases cls) (simp_all add: lit_simps)

lemma mk_error_message_ne: "err_message (mk_error cls m p) \<noteq> []"
  by (simp add: mk_error_def Let_def)

text \<open>
  C34.  An error of a class that declares its own RESP prefix survives the wire: rebuilding the
  error from the line \<open>to_resp\<close> wrote gives the same class, prefix and message.
\<close>

theorem resp_error_roundtrip:
  assumes "dict_get by_prefix p = Some cls"
  shows "from_resp (to_resp (mk_error cls msg None)) = mk_error cls msg None"
proof -
  let ?e = "mk_error cls msg None"
  note p = by_prefix_class [OF assms]
  have pre: "err_prefix ?e = p" using p by (simp add: mk_error_def Let_def)
  have "cls \<noteq> ProtocolError" using assms by (auto simp: by_prefix_def split: if_splits)
  then have m: "init_message cls (err_message ?e) = err_message ?e"
    by (simp add: init_message_id mk_error_message_ne)
  have "from_resp (to_resp ?e) = mk_error cls (err_message ?e) (Some p)"
    using from_to_resp [of ?e] p pre assms by simp
  also have "\<dots> = KVError cls p (err_message ?e)"
    using m p by (simp add: mk_error_def [of cls "err_message ?e"] Let_def mk_error_message_ne)
  also have "\<dots> = ?e" using pre by (cases ?e) (simp add: mk_error_def Let_def)
  finally show ?thesis .
qed

theorem resp_error_roundtrip_witness:
  "dict_get by_prefix (lit ''MISCONF'') = Some PersistenceWriteError
   \<and> from_resp (to_resp (mk_error PersistenceWriteError (lit ''disk full'') None))
       = mk_error PersistenceWriteError (lit ''disk full'') None"
proof -
  have "dict_get by_prefix (lit ''MISCONF'') = Some PersistenceWriteError"
    by code_simp
  with resp_error_roundtrip [OF this] show ?thesis by blast
qed

end
