(* ===== verification/ZSet.thy ===== *)
theory ZSet
  imports SkipList_Query Containers Exceptions
begin

text \<open>
  \<open>engine/datatypes/zset.py\<close>: \<open>SortedSet\<close>, a score dictionary beside a skip list.  The proofs use
  the skip list only through its contract \<open>ordered_index\<close>.  A query returns skip list nodes, as in
  the source; \<open>zset_pair\<close> reads their member and score.  The two \<open>assert\<close>s of the source are
  branches whose result is \<open>None\<close>, and never taken on a well-formed set.
\<close>

section \<open>Operations\<close>

record zset =
  zs_scores :: "(str, pyfloat) dict"
  zs_list :: skiplist
  zs_nbytes :: int

definition zset_init :: zset where
  "zset_init = \<lparr>zs_scores = [], zs_list = sl_init, zs_nbytes = EMPTY_CONTAINER\<rparr>"

definition zset_len :: "zset \<Rightarrow> int" where
  "zset_len z = int (length (zs_scores z))"

definition zset_contains :: "str \<Rightarrow> zset \<Rightarrow> bool" where
  "zset_contains member z \<longleftrightarrow> dict_get (zs_scores z) member \<noteq> None"

definition zset_score :: "str \<Rightarrow> zset \<Rightarrow> pyfloat option" where
  "zset_score member z = dict_get (zs_scores z) member"

definition zset_add :: "str \<Rightarrow> pyfloat \<Rightarrow> rng \<Rightarrow> zset \<Rightarrow> bool \<times> zset \<times> rng" where
  "zset_add member score r z =
     (case dict_get (zs_scores z) member of
        None \<Rightarrow>
          (case sl_insert score member r (zs_list z) of (l, r') \<Rightarrow>
             (True, \<lparr>zs_scores = dict_set member score (zs_scores z), zs_list = l,
                     zs_nbytes = zs_nbytes z + (str_size member + ZSET_ITEM_OVERHEAD)\<rparr>, r'))
      | Some old \<Rightarrow>
          if \<not> feq old score
          then (case sl_insert score member r (snd (sl_delete old member (zs_list z))) of (l, r') \<Rightarrow>
                  (False, z\<lparr>zs_scores := dict_set member score (zs_scores z), zs_list := l\<rparr>, r'))
          else (False, z, r))"

definition zset_incr :: "str \<Rightarrow> pyfloat \<Rightarrow> rng \<Rightarrow> zset \<Rightarrow> (kverror + pyfloat) \<times> zset \<times> rng" where
  "zset_incr member delta r z =
     (let new = fadd (case dict_get (zs_scores z) member of None \<Rightarrow> Fin 0 | Some s \<Rightarrow> s) delta
      in if new = NaN
         then (Inl (err InvalidArgumentError ''resulting score is not a number (NaN)''), z, r)
         else case zset_add member new r z of (_, z', r') \<Rightarrow> (Inr new, z', r'))"

definition zset_remove :: "str \<Rightarrow> zset \<Rightarrow> bool \<times> zset" where
  "zset_remove member z =
     (case dict_get (zs_scores z) member of
        None \<Rightarrow> (False, z)
      | Some score \<Rightarrow>
          (True, \<lparr>zs_scores = dict_pop member (zs_scores z), zs_list = snd (sl_delete score member (zs_list z)),
                  zs_nbytes = zs_nbytes z - (str_size member + ZSET_ITEM_OVERHEAD)\<rparr>))"

definition zset_rank :: "str \<Rightarrow> bool \<Rightarrow> zset \<Rightarrow> int option" where
  "zset_rank member reverse z =
     (case dict_get (zs_scores z) member of
        None \<Rightarrow> None
      | Some score \<Rightarrow>
          let rank = sl_rank score member (zs_list z) - 1
          in Some (if reverse then zset_len z - 1 - rank else rank))"

definition zset_range_by_rank :: "int \<Rightarrow> int \<Rightarrow> bool \<Rightarrow> zset \<Rightarrow> nat list" where
  "zset_range_by_rank start stop reverse z =
     (let len = zset_len z;
          start = (if start < 0 then max 0 (len + start) else start);
          stop = (if stop < 0 then stop + len else stop);
          stop = min stop (len - 1)
      in if start > stop \<or> start \<ge> len then []
         else let cnt = stop - start + 1
              in if reverse
                 then walk (nat cnt) (sl_bwd (zs_list z)) (sl_by_rank (len - start) (zs_list z))
                 else walk (nat cnt) (sl_fwd (zs_list z)) (sl_by_rank (start + 1) (zs_list z)))"

primrec skip_nodes :: "nat \<Rightarrow> (nat \<Rightarrow> nat option) \<Rightarrow> nat option \<Rightarrow> nat option" where
  "skip_nodes 0 step x = x"
| "skip_nodes (Suc n) step x = (case x of None \<Rightarrow> None | Some a \<Rightarrow> skip_nodes n step (step a))"

primrec collect_nodes :: "nat \<Rightarrow> (nat \<Rightarrow> bool) \<Rightarrow> (nat \<Rightarrow> nat option) \<Rightarrow> int \<Rightarrow> nat option \<Rightarrow> nat list" where
  "collect_nodes 0 inr step cnt x = []"
| "collect_nodes (Suc fuel) inr step cnt x =
     (case x of
        None \<Rightarrow> []
      | Some a \<Rightarrow> if cnt = 0 then []
                  else if \<not> inr a then []
                  else a # collect_nodes fuel inr step (cnt - 1) (step a))"

definition zset_range_by_score ::
    "pyfloat \<Rightarrow> pyfloat \<Rightarrow> bool \<Rightarrow> bool \<Rightarrow> bool \<Rightarrow> int \<Rightarrow> int \<Rightarrow> zset \<Rightarrow> nat list" where
  "zset_range_by_score lo hi lo_ex hi_ex reverse offset cnt z =
     (let l = zs_list z;
          node = (if reverse then sl_last_in_range lo hi lo_ex hi_ex l
                  else sl_first_in_range lo hi lo_ex hi_ex l);
          step = (if reverse then sl_bwd l else sl_fwd l);
          score = (\<lambda>a. fst (sl_key l a));
          node = skip_nodes (nat offset) step node
      in collect_nodes (sl_next l)
           (\<lambda>a. (if lo_ex then flt lo (score a) else fle lo (score a)) \<and>
                (if hi_ex then flt (score a) hi else fle (score a) hi)) step cnt node)"

definition zset_count_in_range :: "pyfloat \<Rightarrow> pyfloat \<Rightarrow> bool \<Rightarrow> bool \<Rightarrow> zset \<Rightarrow> int option" where
  "zset_count_in_range lo hi lo_ex hi_ex z =
     (let l = zs_list z
      in case sl_first_in_range lo hi lo_ex hi_ex l of
           None \<Rightarrow> Some 0
         | Some first \<Rightarrow>
             (case sl_last_in_range lo hi lo_ex hi_ex l of
                None \<Rightarrow> None
              | Some final \<Rightarrow>
                  Some (sl_rank (fst (sl_key l final)) (snd (sl_key l final)) l
                        - sl_rank (fst (sl_key l first)) (snd (sl_key l first)) l + 1)))"

primrec zset_pop :: "nat \<Rightarrow> bool \<Rightarrow> zset \<Rightarrow> ((str \<times> pyfloat) list \<times> zset) option" where
  "zset_pop 0 from_max z = Some ([], z)"
| "zset_pop (Suc n) from_max z =
     (if zs_scores z = [] then Some ([], z)
      else case (if from_max then sl_tail (zs_list z) else sl_head (zs_list z)) of
             None \<Rightarrow> None
           | Some a \<Rightarrow>
               (case sl_key (zs_list z) a of (score, member) \<Rightarrow>
                  (case zset_pop n from_max (snd (zset_remove member z)) of
                     None \<Rightarrow> None
                   | Some (popped, z') \<Rightarrow> Some ((member, score) # popped, z'))))"

definition zset_pair :: "zset \<Rightarrow> nat \<Rightarrow> str \<times> pyfloat" where
  "zset_pair z a = (case sl_key (zs_list z) a of (score, member) \<Rightarrow> (member, score))"

definition zset_items :: "zset \<Rightarrow> (str \<times> pyfloat) list" where
  "zset_items z = map (zset_pair z) (sl_iter (zs_list z))"

section \<open>Invariant\<close>

definition zset_cost :: "str \<times> pyfloat \<Rightarrow> int" where
  "zset_cost p = str_size (fst p) + ZSET_ITEM_OVERHEAD"

abbreviation zs_elems :: "zset \<Rightarrow> (pyfloat \<times> str) list" where
  "zs_elems z \<equiv> sl_elems (zs_list z)"

definition zset_inv :: "zset \<Rightarrow> bool" where
  "zset_inv z \<longleftrightarrow> sl_inv (zs_list z) \<and> dict_ok (zs_scores z) \<and>
     (\<forall>m sc. dict_get (zs_scores z) m = Some sc \<longleftrightarrow> (sc, m) \<in> set (zs_elems z)) \<and>
     zs_nbytes z = EMPTY_CONTAINER + sum_list (map zset_cost (zs_scores z))"

interpretation zv: sized zs_nbytes zs_scores zset_cost zset_inv
  by unfold_locales (simp_all add: zset_inv_def zset_cost_def ZSET_ITEM_OVERHEAD_def str_size_pos add_pos_pos)

lemma zset_inv_list: "zset_inv z \<Longrightarrow> sl_inv (zs_list z)"
  by (simp add: zset_inv_def)

lemma zset_get: "zset_inv z \<Longrightarrow> dict_get (zs_scores z) m = Some sc \<longleftrightarrow> (sc, m) \<in> set (zs_elems z)"
  by (simp add: zset_inv_def)

lemma zset_get_None: "zset_inv z \<Longrightarrow> dict_get (zs_scores z) m = None \<longleftrightarrow> m \<notin> snd ` set (zs_elems z)"
  using zset_get [of z m] by (cases "dict_get (zs_scores z) m") (force+)

lemma zset_elems_sorted: "zset_inv z \<Longrightarrow> sorted (zs_elems z) \<and> distinct (zs_elems z)"
  using sl.sorted [OF zset_inv_list] by (simp add: strict_sorted_iff)

lemma zset_no_nan: "zset_inv z \<Longrightarrow> dict_get (zs_scores z) m = Some sc \<Longrightarrow> sc \<noteq> NaN"
  using sl.no_nan [OF zset_inv_list, of z "(sc, m)"] by (simp add: zset_get)

lemma zset_length:
  assumes "zset_inv z"
  shows "length (zs_scores z) = length (zs_elems z)"
proof -
  have "set (dict_keys (zs_scores z)) = set (map snd (zs_elems z))"
    using zset_get_None [OF assms] dict_keys_iff [of _ "zs_scores z"]
    by (simp only: set_map set_eq_iff) blast
  moreover have "distinct (dict_keys (zs_scores z))" "distinct (map snd (zs_elems z))"
    using assms sl.members [OF zset_inv_list [OF assms]] by (simp_all add: zset_inv_def dict_ok_def)
  ultimately have "length (dict_keys (zs_scores z)) = length (map snd (zs_elems z))"
    by (metis distinct_card)
  then show ?thesis by simp
qed

text \<open>The elements without a member: what a removal leaves.\<close>

lemma filter_member_remove1:
  assumes "distinct (map snd es)" "(sc, m) \<in> set es"
  shows "filter (\<lambda>e. snd e \<noteq> m) es = remove1 (sc, m) es"
  using assms
proof (induction es)
  case (Cons e es)
  show ?case
  proof (cases "e = (sc, m)")
    case True
    with Cons.prems have "m \<notin> snd ` set es" by auto
    then have "filter (\<lambda>e. snd e \<noteq> m) es = es" by (intro filter_True) force
    with True show ?thesis by simp
  next
    case False
    with Cons.prems have "snd e \<noteq> m" by (cases e) (auto simp: rev_image_eqI)
    with False Cons show ?thesis by auto
  qed
qed simp

lemma filter_member_absent: "m \<notin> snd ` set es \<Longrightarrow> filter (\<lambda>e. snd e \<noteq> m) es = es"
  by (intro filter_True) force

lemma zset_inv_init [inv_intro]: "zset_inv zset_init"
  by (simp add: zset_inv_def zset_init_def sl.empty)

lemma zset_items_elems: "zset_items z = map (\<lambda>(sc, m). (m, sc)) (zs_elems z)"
  by (simp add: zset_items_def zset_pair_def sl.elems_nodes)

section \<open>Mutations\<close>

lemma set_remove1_member:
  assumes "distinct (map snd es)" "(sc, m) \<in> set es"
  shows "set (remove1 (sc, m) es) = {e \<in> set es. snd e \<noteq> m}"
  using filter_member_remove1 [OF assms] by (metis set_filter)

lemma zset_add_spec:
  assumes inv: "zset_inv z" and sc: "score \<noteq> NaN"
  shows "zset_add m score r z = (b, z', r') \<Longrightarrow>
    zset_inv z' \<and> (b \<longleftrightarrow> \<not> zset_contains m z) \<and>
    zs_elems z' = insort (score, m) (filter (\<lambda>e. snd e \<noteq> m) (zs_elems z))"
proof (cases "dict_get (zs_scores z) m")
  case None
  assume add: "zset_add m score r z = (b, z', r')"
  have m: "m \<notin> snd ` set (zs_elems z)" using None zset_get_None [OF inv] by simp
  note i = sl.insert [OF zset_inv_list [OF inv] sc m, of r]
  have "zs_elems z' = insort (score, m) (zs_elems z)" "sl_inv (zs_list z')" "b"
    "zs_scores z' = dict_set m score (zs_scores z)"
    "zs_nbytes z' = zs_nbytes z + (str_size m + ZSET_ITEM_OVERHEAD)"
    using add None i by (auto simp: zset_add_def split: prod.splits)
  then show ?thesis
    using inv None m
    by (force simp: zset_inv_def zset_contains_def set_insort_key sum_dict_set_new zset_cost_def filter_member_absent)
next
  case (Some old)
  assume add: "zset_add m score r z = (b, z', r')"
  have old: "(old, m) \<in> set (zs_elems z)" "old \<noteq> NaN"
    using Some zset_get [OF inv] zset_no_nan [OF inv] by auto
  note mem = sl.members [OF zset_inv_list [OF inv]]
  note f = filter_member_remove1 [OF mem old(1)]
  show ?thesis
  proof (cases "old = score")
    case True
    then have "z' = z" "\<not> b" using add Some old by (simp_all add: zset_add_def)
    then show ?thesis
      using inv Some True old(1) zset_elems_sorted [OF inv] by (simp add: f zset_contains_def insort_remove1)
  next
    case False
    define l where "l = snd (sl_delete old m (zs_list z))"
    have l: "sl_inv l" "sl_elems l = remove1 (old, m) (zs_elems z)"
      using sl.delete [OF zset_inv_list [OF inv] old(2), of m] by (simp_all add: l_def)
    have "m \<notin> snd ` set (sl_elems l)" unfolding l(2) set_remove1_member [OF mem old(1)] by auto
    note i = sl.insert [OF l(1) sc this, of r]
    have z': "zs_elems z' = insort (score, m) (sl_elems l)" "sl_inv (zs_list z')" "\<not> b"
      "zs_scores z' = dict_set m score (zs_scores z)" "zs_nbytes z' = zs_nbytes z"
      using add Some False old(2) i by (auto simp: zset_add_def l_def split: prod.splits)
    have "dict_get (zs_scores z') k = Some x \<longleftrightarrow> (x, k) \<in> set (zs_elems z')" for k x
      using zset_get [OF inv, of k x] by (auto simp: z' l(2) set_insort_key set_remove1_member [OF mem old(1)])
    then show ?thesis
      using inv Some z' l(2) f
      by (auto simp: zset_inv_def zset_contains_def sum_dict_set_old zset_cost_def)
  qed
qed

lemma zset_remove_spec:
  assumes inv: "zset_inv z"
  shows "zset_inv (snd (zset_remove m z)) \<and> (fst (zset_remove m z) \<longleftrightarrow> zset_contains m z) \<and>
    zs_elems (snd (zset_remove m z)) = filter (\<lambda>e. snd e \<noteq> m) (zs_elems z)"
proof (cases "dict_get (zs_scores z) m")
  case None
  then show ?thesis
    using inv zset_get_None [OF inv, of m] filter_member_absent [of m "zs_elems z"]
    by (auto simp: zset_remove_def zset_contains_def split: option.splits)
next
  case (Some old)
  have old: "(old, m) \<in> set (zs_elems z)" "old \<noteq> NaN"
    using Some zset_get [OF inv] zset_no_nan [OF inv] by auto
  note mem = sl.members [OF zset_inv_list [OF inv]]
  let ?z = "snd (zset_remove m z)"
  have z': "sl_inv (zs_list ?z)" "zs_elems ?z = remove1 (old, m) (zs_elems z)" "fst (zset_remove m z)"
    "zs_scores ?z = dict_pop m (zs_scores z)" "zs_nbytes ?z = zs_nbytes z - (str_size m + ZSET_ITEM_OVERHEAD)"
    using sl.delete [OF zset_inv_list [OF inv] old(2), of m] Some by (simp_all add: zset_remove_def)
  have "dict_get (zs_scores ?z) k = Some x \<longleftrightarrow> (x, k) \<in> set (zs_elems ?z)" for k x
    using zset_get [OF inv, of k x] by (auto simp: z' set_remove1_member [OF mem old(1)])
  then show ?thesis
    using inv Some z' filter_member_remove1 [OF mem old(1)]
    by (auto simp: zset_inv_def zset_contains_def sum_dict_pop zset_cost_def)
qed

lemmas zset_inv_add [inv_intro] = zset_add_spec [THEN conjunct1]
lemmas zset_inv_remove [inv_intro] = zset_remove_spec [THEN conjunct1]

lemma zset_incr_spec:
  assumes "zset_inv z" "zset_incr m delta r z = (res, z', r')"
  shows "zset_inv z'" "res = Inl e \<Longrightarrow> z' = z"
  using assms zset_add_spec [OF assms(1)]
  by (auto simp: zset_incr_def Let_def split: if_splits prod.splits)

section \<open>Queries\<close>

abbreviation swap_pair :: "pyfloat \<times> str \<Rightarrow> str \<times> pyfloat" where
  "swap_pair e \<equiv> (snd e, fst e)"

abbreviation directed :: "bool \<Rightarrow> 'a list \<Rightarrow> 'a list" where
  "directed reverse xs \<equiv> (if reverse then rev xs else xs)"

lemma zset_pair_nodes: "map (zset_pair z) (sl_iter (zs_list z)) = map swap_pair (zs_elems z)"
  by (simp add: zset_pair_def sl.elems_nodes comp_def split: prod.split)

lemma zset_pair_key: "zset_pair z a = swap_pair (sl_key (zs_list z) a)"
  by (simp add: zset_pair_def split: prod.split)

text \<open>Walking, skipping and collecting along a list of nodes in either direction.\<close>

definition steps_along :: "(nat \<Rightarrow> nat option) \<Rightarrow> nat list \<Rightarrow> bool" where
  "steps_along step ns \<longleftrightarrow>
     (\<forall>j < length ns. step (ns ! j) = (if Suc j < length ns then Some (ns ! Suc j) else None))"

definition node_at :: "nat list \<Rightarrow> nat \<Rightarrow> nat option" where
  "node_at ns j = (if j < length ns then Some (ns ! j) else None)"

lemma sl_steps_along:
  assumes inv: "sl_inv l"
  shows "steps_along (if reverse then sl_bwd l else sl_fwd l) (directed reverse (sl_iter l))"
proof (cases reverse)
  case True
  have "sl_bwd l (rev (sl_iter l) ! i) =
      (if Suc i < length (sl_iter l) then Some (rev (sl_iter l) ! Suc i) else None)" if "i < length (sl_iter l)" for i
  proof -
    let ?n = "length (sl_iter l)"
    have "sl_bwd l (sl_iter l ! (?n - Suc i)) = (if ?n - Suc i = 0 then None else Some (sl_iter l ! (?n - Suc i - 1)))"
      using that by (intro sl.prev [OF inv]) simp
    then show ?thesis using that by (auto simp: rev_nth)
  qed
  with True show ?thesis by (simp add: steps_along_def)
next
  case False
  then show ?thesis using sl.next [OF inv] by (simp add: steps_along_def)
qed

lemma step_node_at: "steps_along step ns \<Longrightarrow> j < length ns \<Longrightarrow> step (ns ! j) = node_at ns (Suc j)"
  by (simp add: steps_along_def node_at_def)

lemma skip_nodes_at: "steps_along step ns \<Longrightarrow> skip_nodes n step (node_at ns j) = node_at ns (j + n)"
proof (induction n arbitrary: j)
  case (Suc n)
  then show ?case by (cases "j < length ns") (simp_all add: node_at_def step_node_at [unfolded node_at_def])
qed simp

definition limited :: "int \<Rightarrow> 'a list \<Rightarrow> 'a list" where
  "limited cnt xs = (if cnt < 0 then xs else take (nat cnt) xs)"

lemma limited_Cons: "limited cnt (x # xs) = (if cnt = 0 then [] else x # limited (cnt - 1) xs)"
proof -
  have "nat cnt = Suc (nat (cnt - 1))" if "0 < cnt" using that by simp
  then show ?thesis by (simp add: limited_def)
qed

lemma collect_nodes_at:
  "steps_along step ns \<Longrightarrow> length ns - j \<le> fuel \<Longrightarrow>
   collect_nodes fuel inr step cnt (node_at ns j) = limited cnt (takeWhile inr (drop j ns))"
proof (induction fuel arbitrary: j cnt)
  case 0
  then show ?case by (simp add: limited_def)
next
  case (Suc fuel)
  show ?case
  proof (cases "j < length ns")
    case True
    then have d: "drop j ns = ns ! j # drop (Suc j) ns" by (simp add: Cons_nth_drop_Suc)
    have "collect_nodes fuel inr step (cnt - 1) (node_at ns (Suc j)) =
        limited (cnt - 1) (takeWhile inr (drop (Suc j) ns))"
      using Suc.prems by (intro Suc.IH) auto
    with True show ?thesis
      by (simp add: d limited_Cons step_node_at [OF Suc.prems(1)])
        (simp add: node_at_def step_node_at [OF Suc.prems(1), unfolded node_at_def] limited_def)
  qed (simp add: node_at_def limited_def)
qed

lemma takeWhile_segment:
  assumes "\<And>j. j < length ns \<Longrightarrow> P (ns ! j) \<longleftrightarrow> p \<le> j \<and> j < q" "p \<le> j" "q \<le> length ns"
  shows "takeWhile P (drop j ns) = drop j (take q ns)"
proof (cases "j < q")
  case True
  have "takeWhile P (drop j ns) = take (q - j) (drop j ns)"
  proof (rule takeWhile_eq_take_P_nth)
    show "P (drop j ns ! i)" if "i < q - j" "i < length (drop j ns)" for i using that assms by simp
    show "\<not> P (drop j ns ! (q - j))" if "q - j < length (drop j ns)" using that assms True by simp
  qed
  then show ?thesis by (simp add: drop_take)
next
  case False
  show ?thesis
  proof (cases "j < length ns")
    case True
    then have "drop j ns = ns ! j # drop (Suc j) ns" "\<not> P (ns ! j)"
      using False assms by (simp_all add: Cons_nth_drop_Suc)
    with False show ?thesis by simp
  qed simp
qed

lemma collect_segment:
  assumes seg: "\<And>j. j < length ns \<Longrightarrow> inr (ns ! j) \<longleftrightarrow> p \<le> j \<and> j < q" and pq: "p \<le> q" "q \<le> length ns"
    and step: "steps_along step ns" and fuel: "length ns \<le> fuel"
    and start: "x = (case filter inr ns of [] \<Rightarrow> None | a # _ \<Rightarrow> Some a)"
  shows "collect_nodes fuel inr step cnt (skip_nodes k step x) = limited cnt (drop k (filter inr ns))"
proof -
  have R: "filter inr ns = drop p (take q ns)" using seg pq by (intro filter_segment) auto
  show ?thesis
  proof (cases "p < q")
    case True
    then have "drop p (take q ns) = ns ! p # drop (Suc p) (take q ns)"
      using pq by (simp add: Cons_nth_drop_Suc [of p "take q ns", symmetric])
    then have "x = node_at ns p" using start R True pq by (simp add: node_at_def)
    then show ?thesis
      using fuel pq takeWhile_segment [OF seg, of "p + k"]
      by (simp add: skip_nodes_at [OF step] collect_nodes_at [OF step] R add.commute)
  next
    case False
    then have "x = None" "filter inr ns = []" using start R by auto
    moreover have "skip_nodes k step None = None" by (cases k) auto
    moreover have "collect_nodes fuel inr step cnt None = []" by (cases fuel) auto
    ultimately show ?thesis by (simp add: limited_def)
  qed
qed

lemma directed_segment:
  assumes "p \<le> q" "q \<le> length ns" "\<forall>j < length ns. inr (ns ! j) \<longleftrightarrow> p \<le> j \<and> j < q"
  shows "\<exists>p q. p \<le> q \<and> q \<le> length (directed reverse ns) \<and>
    (\<forall>j < length (directed reverse ns). inr (directed reverse ns ! j) \<longleftrightarrow> p \<le> j \<and> j < q)"
proof (cases reverse)
  case True
  have "inr (rev ns ! j) \<longleftrightarrow> length ns - q \<le> j \<and> j < length ns - p" if "j < length ns" for j
    using that assms by (auto simp: rev_nth)
  then show ?thesis
    using True assms by (intro exI [of _ "length ns - q"] exI [of _ "length ns - p"]) auto
qed (use assms in auto)

lemma zset_range_by_score_nodes:
  assumes inv: "zset_inv z"
  shows "zset_range_by_score lo hi lo_ex hi_ex reverse offset cnt z =
    limited cnt (drop (nat offset) (filter (\<lambda>a. in_range lo hi lo_ex hi_ex (fst (sl_key (zs_list z) a)))
      (directed reverse (sl_iter (zs_list z)))))"
proof -
  let ?l = "zs_list z" let ?ns = "directed reverse (sl_iter (zs_list z))"
  let ?inr = "\<lambda>a. in_range lo hi lo_ex hi_ex (fst (sl_key (zs_list z) a))"
  have l: "sl_inv ?l" using inv by (rule zset_inv_list)
  from sl.segment [OF l, of lo hi lo_ex hi_ex] obtain p0 q0 where
    "p0 \<le> q0" "q0 \<le> length (sl_iter ?l)" "\<forall>j < length (sl_iter ?l). ?inr (sl_iter ?l ! j) \<longleftrightarrow> p0 \<le> j \<and> j < q0"
    by (elim exE conjE)
  from directed_segment [OF this, of reverse] obtain p q where pq: "p \<le> q" "q \<le> length ?ns"
    and seg: "\<forall>j < length ?ns. ?inr (?ns ! j) \<longleftrightarrow> p \<le> j \<and> j < q"
    by (elim exE conjE)
  have fuel: "length ?ns \<le> sl_next ?l" using sl_rep_fuel l by (auto simp: sl_inv_def less_imp_le)
  have start: "(if reverse then sl_last_in_range lo hi lo_ex hi_ex ?l else sl_first_in_range lo hi lo_ex hi_ex ?l) =
      (case filter ?inr ?ns of [] \<Rightarrow> None | a # _ \<Rightarrow> Some a)"
    using sl.first [OF l] sl.last [OF l] by (simp add: rev_filter)
  have eq: "(\<lambda>a. (if lo_ex then flt lo (fst (sl_key ?l a)) else fle lo (fst (sl_key ?l a))) \<and>
      (if hi_ex then flt (fst (sl_key ?l a)) hi else fle (fst (sl_key ?l a)) hi)) = ?inr"
    by (simp add: in_range_def gte_min_def lte_max_def fun_eq_iff)
  show ?thesis
    unfolding zset_range_by_score_def Let_def eq
    using seg by (intro collect_segment [OF _ pq sl_steps_along [OF l] fuel start]) simp
qed

lemma zset_range_by_rank_clamp:
  "zset_range_by_rank start stop reverse z =
    (case clamp start stop (zset_len z) of
       None \<Rightarrow> []
     | Some (lo, hi) \<Rightarrow>
         if reverse then walk (nat (hi - lo + 1)) (sl_bwd (zs_list z)) (sl_by_rank (zset_len z - lo) (zs_list z))
         else walk (nat (hi - lo + 1)) (sl_fwd (zs_list z)) (sl_by_rank (lo + 1) (zs_list z)))"
proof -
  define lo where "lo = (if start < 0 then max 0 (zset_len z + start) else start)"
  define hi where "hi = min (if stop < 0 then stop + zset_len z else stop) (zset_len z - 1)"
  have "clamp start stop (zset_len z) = (if lo > hi \<or> lo \<ge> zset_len z then None else Some (lo, hi))"
    unfolding clamp_def Let_def lo_def hi_def ..
  moreover have "zset_range_by_rank start stop reverse z = (if lo > hi \<or> lo \<ge> zset_len z then []
      else if reverse then walk (nat (hi - lo + 1)) (sl_bwd (zs_list z)) (sl_by_rank (zset_len z - lo) (zs_list z))
      else walk (nat (hi - lo + 1)) (sl_fwd (zs_list z)) (sl_by_rank (lo + 1) (zs_list z)))"
    unfolding zset_range_by_rank_def Let_def lo_def hi_def ..
  ultimately show ?thesis by simp
qed

lemma zset_range_by_rank_nodes:
  assumes inv: "zset_inv z"
  shows "zset_range_by_rank start stop reverse z =
    (case clamp start stop (zset_len z) of
       None \<Rightarrow> []
     | Some (lo, hi) \<Rightarrow> islice (directed reverse (sl_iter (zs_list z))) lo (hi + 1))"
proof (cases "clamp start stop (zset_len z)")
  case None
  then show ?thesis by (simp add: zset_range_by_rank_clamp)
next
  case (Some b)
  obtain lo hi where b: "b = (lo, hi)" by (cases b)
  let ?l = "zs_list z" let ?ns = "sl_iter (zs_list z)" let ?n = "length (sl_iter (zs_list z))"
  have l: "sl_inv ?l" using inv by (rule zset_inv_list)
  have len: "zset_len z = int ?n" using zset_length [OF inv] by (simp add: zset_len_def sl.length_elems)
  have bounds: "0 \<le> lo" "lo \<le> hi" "hi < int ?n" using clamp_bounds Some b len by auto
  have "zset_range_by_rank start stop reverse z =
      (if reverse then walk (nat (hi - lo + 1)) (sl_bwd ?l) (sl_by_rank (int ?n - lo) ?l)
       else walk (nat (hi - lo + 1)) (sl_fwd ?l) (sl_by_rank (lo + 1) ?l))"
    using Some by (simp add: zset_range_by_rank_clamp b len)
  moreover have "sl_by_rank (lo + 1) ?l = Some (?ns ! nat lo)" "sl_by_rank (int ?n - lo) ?l = Some (?ns ! (?n - Suc (nat lo)))"
    using sl.by_rank [OF l, of "nat lo"] sl.by_rank [OF l, of "?n - Suc (nat lo)"] bounds
    by (simp_all add: sl.length_elems of_nat_diff)
  moreover have "nat lo < ?n" using bounds by simp
  moreover have "rev (take (Suc (?n - Suc (nat lo))) ?ns) = drop (nat lo) (rev ?ns)"
    using \<open>nat lo < ?n\<close> by (simp add: drop_rev Suc_diff_Suc)
  ultimately show ?thesis
    using sl.walk_next [OF l, of "nat lo"] sl.walk_prev [OF l, of "?n - Suc (nat lo)"]
    by (simp add: Some b islice_def algebra_simps)
qed

lemma zset_pop_spec:
  assumes "zset_inv z"
  shows "\<exists>z'. zset_pop n from_max z = Some (map swap_pair (take n (directed from_max (zs_elems z))), z')
    \<and> zset_inv z' \<and> directed from_max (zs_elems z') = drop n (directed from_max (zs_elems z))"
  using assms
proof (induction n arbitrary: z)
  case (Suc n)
  show ?case
  proof (cases "zs_elems z")
    case Nil
    then have "zs_scores z = []" using zset_length [OF Suc.prems] by simp
    with Nil Suc.prems show ?thesis by simp
  next
    case (Cons e0 es0)
    let ?l = "zs_list z"
    have l: "sl_inv ?l" using Suc.prems by (rule zset_inv_list)
    have ne: "zs_scores z \<noteq> []" using zset_length [OF Suc.prems] Cons by auto
    obtain e es where es: "directed from_max (zs_elems z) = e # es"
      using Cons by (cases from_max; cases "rev (zs_elems z)") auto
    have "map (sl_key ?l) (directed from_max (sl_iter ?l)) = e # es"
      using es by (simp add: sl.elems_nodes rev_map split: if_splits)
    then obtain a as where a: "directed from_max (sl_iter ?l) = a # as" "sl_key ?l a = e" by (cases "directed from_max (sl_iter ?l)") simp_all
    have node: "(if from_max then sl_tail ?l else sl_head ?l) = Some a"
      using a sl.head [OF l] sl.tail [OF l] by (auto split: if_splits)
    define z1 where "z1 = snd (zset_remove (snd e) z)"
    have z1: "zset_inv z1" "zs_elems z1 = filter (\<lambda>x. snd x \<noteq> snd e) (zs_elems z)"
      using zset_remove_spec [OF Suc.prems] by (simp_all add: z1_def)
    have "snd e \<notin> snd ` set es"
      using sl.members [OF l] es by (cases from_max) (auto simp: rev_swap)
    then have d1: "directed from_max (zs_elems z1) = es"
      using es filter_member_absent [of "snd e" es]
      by (auto simp: z1(2) rev_filter split: if_splits)
    have "zset_pop (Suc n) from_max z = (case zset_pop n from_max z1 of
        None \<Rightarrow> None | Some (popped, z') \<Rightarrow> Some (swap_pair e # popped, z'))"
      unfolding zset_pop.simps(2) node option.case using ne a(2) by (cases e) (simp add: z1_def split: option.split)
    moreover from Suc.IH [OF z1(1)] obtain z2 where "zset_pop n from_max z1 =
        Some (map swap_pair (take n es), z2)" "zset_inv z2" "directed from_max (zs_elems z2) = drop n es"
      unfolding d1 by blast
    ultimately show ?thesis unfolding es by simp
  qed
qed simp

lemma zset_len_elems: "zset_inv z \<Longrightarrow> zset_len z = int (length (zs_elems z))"
  by (simp add: zset_len_def zset_length)

lemma zset_rank_spec:
  assumes inv: "zset_inv z" and j: "j < length (zs_elems z)" "zs_elems z ! j = (sc, m)"
  shows "zset_rank m reverse z = Some (if reverse then zset_len z - 1 - int j else int j)"
proof -
  have "dict_get (zs_scores z) m = Some sc" using j zset_get [OF inv] by (metis nth_mem)
  then show ?thesis using sl.rank [OF zset_inv_list [OF inv] j] by (simp add: zset_rank_def)
qed

lemma zset_count_spec:
  assumes inv: "zset_inv z"
  shows "zset_count_in_range lo hi lo_ex hi_ex z =
    Some (int (length (filter (\<lambda>e. in_range lo hi lo_ex hi_ex (fst e)) (zs_elems z))))"
proof (cases "sl_first_in_range lo hi lo_ex hi_ex (zs_list z)")
  case None
  then have "filter (\<lambda>a. in_range lo hi lo_ex hi_ex (fst (sl_key (zs_list z) a))) (sl_iter (zs_list z)) = []"
    using sl.first [OF zset_inv_list [OF inv], of lo hi lo_ex hi_ex] by (simp split: list.splits)
  with None show ?thesis by (simp add: zset_count_in_range_def sl.elems_nodes filter_map comp_def)
next
  case (Some a)
  then have "filter (\<lambda>a. in_range lo hi lo_ex hi_ex (fst (sl_key (zs_list z) a))) (sl_iter (zs_list z)) \<noteq> []"
    using sl.first [OF zset_inv_list [OF inv], of lo hi lo_ex hi_ex] by (auto split: list.splits)
  then obtain b where b: "sl_last_in_range lo hi lo_ex hi_ex (zs_list z) = Some b"
    using sl.last [OF zset_inv_list [OF inv], of lo hi lo_ex hi_ex] by (auto split: list.splits)
  show ?thesis
    using sl.count_by_ranks [OF zset_inv_list [OF inv] Some b] Some b by (simp add: zset_count_in_range_def)
qed

section \<open>Properties\<close>

text \<open>
  C21.  A sorted set is its list of (score, member) pairs in order.  \<open>add\<close> puts the member at its
  new score whether it was there or not (and reports which), \<open>remove\<close> takes exactly that member
  out, \<open>pop\<close> takes the requested number from the requested end and hands them back in order,
  and each keeps dictionary, skip list and memory estimate consistent.
\<close>

theorem zset_mutations:
  assumes "zset_inv z" "score \<noteq> NaN"
  shows "(case zset_add m score r z of (new, z', r') \<Rightarrow>
        zset_inv z' \<and> (new \<longleftrightarrow> \<not> zset_contains m z)
      \<and> zs_elems z' = insort (score, m) (filter (\<lambda>e. snd e \<noteq> m) (zs_elems z)))
    \<and> (case zset_remove m z of (found, z') \<Rightarrow>
        zset_inv z' \<and> (found \<longleftrightarrow> zset_contains m z) \<and> zs_elems z' = filter (\<lambda>e. snd e \<noteq> m) (zs_elems z))
    \<and> (case zset_pop n from_max z of
         None \<Rightarrow> False
       | Some (popped, z') \<Rightarrow>
           zset_inv z' \<and> popped = map swap_pair (take n (directed from_max (zs_elems z)))
         \<and> directed from_max (zs_elems z') = drop n (directed from_max (zs_elems z)))"
proof (intro conjI)
  show "case zset_add m score r z of (new, z', r') \<Rightarrow>
        zset_inv z' \<and> (new \<longleftrightarrow> \<not> zset_contains m z)
      \<and> zs_elems z' = insort (score, m) (filter (\<lambda>e. snd e \<noteq> m) (zs_elems z))"
    using zset_add_spec [OF assms] by (auto split: prod.split)
  show "case zset_remove m z of (found, z') \<Rightarrow>
        zset_inv z' \<and> (found \<longleftrightarrow> zset_contains m z) \<and> zs_elems z' = filter (\<lambda>e. snd e \<noteq> m) (zs_elems z)"
    using zset_remove_spec [OF assms(1), of m] by (cases "zset_remove m z") simp
  show "case zset_pop n from_max z of
         None \<Rightarrow> False
       | Some (popped, z') \<Rightarrow>
           zset_inv z' \<and> popped = map swap_pair (take n (directed from_max (zs_elems z)))
         \<and> directed from_max (zs_elems z') = drop n (directed from_max (zs_elems z))"
    using zset_pop_spec [OF assms(1), of n from_max] by (elim exE) simp
qed

theorem zset_mutations_witness:
  "zs_elems (fst (snd (zset_add [97] (Fin 3) [1] zset_init))) = [(Fin 3, [97])]
   \<and> fst (zset_add [97] (Fin 3) [1] zset_init)"
  using zset_mutations [OF zset_inv_init, of "Fin 3" "[97]" "[1]" 0 False]
  by (auto simp: zset_contains_def zset_init_def sl.empty split: prod.splits)

text \<open>
  C24.  Ranks: a member's rank is its index in the order (counted from the other end when
  reversed), an absent member has none, and a range of ranks returns the elements at exactly
  those indexes of the order (or of the reversed order), with negative indexes from the end.
\<close>

theorem zset_ranks:
  assumes "zset_inv z"
  shows "(\<forall>j < length (zs_elems z). zset_rank (snd (zs_elems z ! j)) reverse z
          = Some (if reverse then zset_len z - 1 - int j else int j))
    \<and> (\<not> zset_contains m z \<longrightarrow> zset_rank m reverse z = None)
    \<and> map (zset_pair z) (zset_range_by_rank start stop reverse z) =
        map (\<lambda>i. swap_pair (directed reverse (zs_elems z) ! nat i))
          [max 0 (if start < 0 then start + zset_len z else start) ..
           min (zset_len z - 1) (if stop < 0 then stop + zset_len z else stop)]"
proof (intro conjI)
  show "\<forall>j < length (zs_elems z). zset_rank (snd (zs_elems z ! j)) reverse z
          = Some (if reverse then zset_len z - 1 - int j else int j)"
    using zset_rank_spec [OF assms] by (metis prod.collapse)
  show "\<not> zset_contains m z \<longrightarrow> zset_rank m reverse z = None"
    by (simp add: zset_contains_def zset_rank_def)
  define lo where "lo = max 0 (if start < 0 then start + zset_len z else start)"
  define hi where "hi = min (zset_len z - 1) (if stop < 0 then stop + zset_len z else stop)"
  let ?ns = "directed reverse (sl_iter (zs_list z))"
  have len: "zset_len z = int (length ?ns)"
    using zset_len_elems [OF assms] by (simp add: sl.length_elems)
  have c: "clamp start stop (zset_len z) = (if lo \<le> hi then Some (lo, hi) else None)"
    unfolding lo_def hi_def by (rule clamp_interval) (simp add: len)
  have i: "islice ?ns lo (hi + 1) = map (\<lambda>i. ?ns ! nat i) [lo..hi]"
    using len by (intro islice_upto) (simp_all add: lo_def hi_def)
  have "map (zset_pair z) (zset_range_by_rank start stop reverse z) =
      map (\<lambda>i. zset_pair z (?ns ! nat i)) [lo..hi]"
    by (simp add: zset_range_by_rank_nodes [OF assms] c i)
  also have "\<dots> = map (\<lambda>i. swap_pair (directed reverse (zs_elems z) ! nat i)) [lo..hi]"
  proof (rule map_cong [OF refl])
    fix i assume "i \<in> set [lo..hi]"
    then have "0 \<le> i" "nat i < length ?ns" using len by (auto simp: lo_def hi_def nat_less_iff)
    moreover have "directed reverse (zs_elems z) = map (sl_key (zs_list z)) ?ns"
      by (simp add: sl.elems_nodes rev_map)
    ultimately show "zset_pair z (?ns ! nat i) = swap_pair (directed reverse (zs_elems z) ! nat i)"
      by (simp add: zset_pair_key del: rev_map)
  qed
  finally show "map (zset_pair z) (zset_range_by_rank start stop reverse z) =
        map (\<lambda>i. swap_pair (directed reverse (zs_elems z) ! nat i))
          [max 0 (if start < 0 then start + zset_len z else start) ..
           min (zset_len z - 1) (if stop < 0 then stop + zset_len z else stop)]"
    unfolding lo_def hi_def .
qed

theorem zset_ranks_witness:
  "zset_rank [97] True (fst (snd (zset_add [97] (Fin 3) [1] zset_init))) = Some 0"
proof -
  let ?z = "fst (snd (zset_add [97] (Fin 3) [1] zset_init))"
  have "zset_inv ?z" "zs_elems ?z = [(Fin 3, [97])]"
    using zset_add_spec [OF zset_inv_init, of "Fin 3" "[97]" "[1]"]
    by (cases "zset_add [97] (Fin 3) [1] zset_init"; simp add: zset_init_def sl.empty)+
  then show ?thesis using zset_ranks [of ?z True] zset_len_elems [of ?z] by simp
qed

text \<open>
  C23.  Score ranges: a range query returns the elements whose score is in the range, in order
  (or in reverse), after skipping \<open>offset\<close> of them and cut at \<open>count\<close> unless that is negative;
  counting a range by the difference of two ranks gives the number of elements in it.
\<close>

theorem zset_score_ranges:
  assumes "zset_inv z"
  shows "map (zset_pair z) (zset_range_by_score lo hi lo_ex hi_ex reverse offset cnt z) =
        map swap_pair (limited cnt (drop (nat offset)
          (filter (\<lambda>e. in_range lo hi lo_ex hi_ex (fst e)) (directed reverse (zs_elems z)))))
    \<and> zset_count_in_range lo hi lo_ex hi_ex z =
        Some (int (length (filter (\<lambda>e. in_range lo hi lo_ex hi_ex (fst e)) (zs_elems z))))"
proof -
  have lim: "map f (limited cnt xs) = limited cnt (map f xs)" for f :: "'a \<Rightarrow> 'b" and xs
    by (simp add: limited_def take_map)
  have "directed reverse (zs_elems z) = map (sl_key (zs_list z)) (directed reverse (sl_iter (zs_list z)))"
    by (simp add: sl.elems_nodes rev_map)
  then show ?thesis
    using zset_count_spec [OF assms]
    by (simp add: zset_range_by_score_nodes [OF assms] zset_pair_key filter_map comp_def limited_def take_map drop_map
        del: rev_map)
qed

theorem zset_score_ranges_witness:
  "zset_count_in_range (Fin 1) (Fin 3) False True (fst (snd (zset_add [97] (Fin 3) [1] zset_init))) = Some 0"
proof -
  let ?z = "fst (snd (zset_add [97] (Fin 3) [1] zset_init))"
  have "zset_inv ?z" "zs_elems ?z = [(Fin 3, [97])]"
    using zset_add_spec [OF zset_inv_init, of "Fin 3" "[97]" "[1]"]
    by (cases "zset_add [97] (Fin 3) [1] zset_init"; simp add: zset_init_def sl.empty)+
  moreover have "\<not> in_range (Fin 1) (Fin 3) False True (Fin 3)" by code_simp
  ultimately show ?thesis using zset_score_ranges [of ?z "Fin 1" "Fin 3" False True] by simp
qed

end
