(* ===== verification/Eviction.thy ===== *)
theory Eviction
  imports Keyset Py_Values
begin

text \<open>
  \<open>engine/eviction\<close>: the four eviction policies.  A policy object is a value of \<open>policy\<close>; the
  clock reading and the generator the source's objects hold are arguments, the generator also a
  result.  The locale \<open>eviction_policy\<close> is the contract the store relies on; each policy, and the
  dispatch over all four, is an interpretation.
\<close>

section \<open>Least recently used\<close>

text \<open>The \<open>OrderedDict\<close> is its keys in order, oldest first.\<close>

definition lru_on_insert :: "str \<Rightarrow> str list \<Rightarrow> str list" where
  "lru_on_insert key order = removeAll key order @ [key]"

definition lru_on_access :: "str \<Rightarrow> str list \<Rightarrow> str list" where
  "lru_on_access key order = (if key \<in> set order then removeAll key order @ [key] else order)"

definition lru_on_remove :: "str \<Rightarrow> str list \<Rightarrow> str list" where
  "lru_on_remove key order = removeAll key order"

definition lru_victim :: "str set \<Rightarrow> str list \<Rightarrow> str option" where
  "lru_victim protect order = find (\<lambda>k. k \<notin> protect) order"

section \<open>Least frequently used\<close>

definition INIT_COUNTER :: int where "INIT_COUNTER = 5"
definition MAX_COUNTER :: int where "MAX_COUNTER = 255"

record lfu =
  lfu_samples :: nat
  lfu_log_factor :: int
  lfu_decay_minutes :: int
  lfu_keys :: keyset
  lfu_meta :: "(str, int \<times> int) dict"

definition lfu_init :: lfu where
  "lfu_init = \<lparr>lfu_samples = 10, lfu_log_factor = 10, lfu_decay_minutes = 1,
               lfu_keys = ks_empty, lfu_meta = []\<rparr>"

text \<open>\<open>int(clock() // 60)\<close>.  A clock reading is finite.\<close>

fun lfu_minutes :: "pyfloat \<Rightarrow> int" where
  "lfu_minutes (Fin t) = \<lfloor>t / 60\<rfloor>"
| "lfu_minutes _ = 0"

definition lfu_on_insert :: "pyfloat \<Rightarrow> str \<Rightarrow> lfu \<Rightarrow> lfu" where
  "lfu_on_insert now key p =
     p\<lparr>lfu_keys := ks_add key (lfu_keys p),
       lfu_meta := dict_set key (INIT_COUNTER, lfu_minutes now) (lfu_meta p)\<rparr>"

text \<open>The counter of a key after decay; \<open>None\<close> is the \<open>KeyError\<close> of an untracked key.\<close>

definition lfu_counter :: "pyfloat \<Rightarrow> str \<Rightarrow> lfu \<Rightarrow> int option" where
  "lfu_counter now key p =
     (case dict_get (lfu_meta p) key of
        None \<Rightarrow> None
      | Some (cnt, since) \<Rightarrow>
          let cnt = (if lfu_decay_minutes p > 0
                     then cnt - (lfu_minutes now - since) div lfu_decay_minutes p else cnt)
          in Some (max 0 cnt))"

definition lfu_increment :: "int \<Rightarrow> lfu \<Rightarrow> rng \<Rightarrow> int \<times> rng" where
  "lfu_increment cnt p r =
     (if cnt \<ge> MAX_COUNTER then (MAX_COUNTER, r)
      else let base = max 0 (cnt - INIT_COUNTER)
           in case rng_random r of (q, r') \<Rightarrow>
                (if flt (Fin q) (round64 (1 / of_int (base * lfu_log_factor p + 1))) then cnt + 1 else cnt, r'))"

definition lfu_on_access :: "pyfloat \<Rightarrow> str \<Rightarrow> rng \<Rightarrow> lfu \<Rightarrow> lfu \<times> rng" where
  "lfu_on_access now key r p =
     (case lfu_counter now key p of
        None \<Rightarrow> (p, r)
      | Some cnt \<Rightarrow>
          (case lfu_increment cnt p r of (cnt', r') \<Rightarrow>
             (p\<lparr>lfu_meta := dict_set key (cnt', lfu_minutes now) (lfu_meta p)\<rparr>, r')))"

definition lfu_on_remove :: "str \<Rightarrow> lfu \<Rightarrow> lfu" where
  "lfu_on_remove key p =
     (case dict_get (lfu_meta p) key of
        None \<Rightarrow> p
      | Some _ \<Rightarrow> p\<lparr>lfu_meta := dict_pop key (lfu_meta p), lfu_keys := ks_discard key (lfu_keys p)\<rparr>)"

text \<open>\<open>min(candidates, key=...)\<close>: the first of the least.\<close>

definition min_by :: "('a \<Rightarrow> int) \<Rightarrow> 'a list \<Rightarrow> 'a option" where
  "min_by f xs = (case xs of [] \<Rightarrow> None
                  | x # ys \<Rightarrow> Some (foldl (\<lambda>b y. if f y < f b then y else b) x ys))"

definition lfu_victim :: "pyfloat \<Rightarrow> str set \<Rightarrow> rng \<Rightarrow> lfu \<Rightarrow> str option \<times> rng" where
  "lfu_victim now protect r p =
     (case ks_sample (lfu_samples p) (lfu_keys p) r of (sample, r') \<Rightarrow>
        let candidates = filter (\<lambda>k. k \<notin> protect) sample;
            candidates = (if candidates = [] then filter (\<lambda>k. k \<notin> protect) (ks_items (lfu_keys p))
                          else candidates)
        in (min_by (\<lambda>k. case lfu_counter now k p of None \<Rightarrow> 0 | Some c \<Rightarrow> c) candidates, r'))"

definition lfu_clear :: "lfu \<Rightarrow> lfu" where
  "lfu_clear p = p\<lparr>lfu_keys := ks_empty, lfu_meta := []\<rparr>"

section \<open>Random, and none\<close>

fun random_tries :: "nat \<Rightarrow> str set \<Rightarrow> rng \<Rightarrow> keyset \<Rightarrow> str option \<times> rng" where
  "random_tries 0 protect r keys = (find (\<lambda>k. k \<notin> protect) (ks_items keys), r)"
| "random_tries (Suc n) protect r keys =
     (case ks_sample 1 keys r of
        ([], r') \<Rightarrow> (None, r')
      | (k # _, r') \<Rightarrow> if k \<notin> protect then (Some k, r') else random_tries n protect r' keys)"

definition random_victim :: "str set \<Rightarrow> rng \<Rightarrow> keyset \<Rightarrow> str option \<times> rng" where
  "random_victim protect r keys = random_tries 8 protect r keys"

section \<open>Dispatch\<close>

datatype policy = LRU "str list" | LFU lfu | RandomPolicy keyset | NoEviction int

definition create_eviction_policy :: "str \<Rightarrow> policy option" where
  "create_eviction_policy name =
     (if name = lit ''lru'' then Some (LRU [])
      else if name = lit ''lfu'' then Some (LFU lfu_init)
      else if name = lit ''random'' then Some (RandomPolicy ks_empty)
      else if name = lit ''noeviction'' then Some (NoEviction 0)
      else None)"

fun pol_name :: "policy \<Rightarrow> str" where
  "pol_name (LRU _) = lit ''lru''"
| "pol_name (LFU _) = lit ''lfu''"
| "pol_name (RandomPolicy _) = lit ''random''"
| "pol_name (NoEviction _) = lit ''noeviction''"

fun pol_evicts :: "policy \<Rightarrow> bool" where
  "pol_evicts (NoEviction _) = False"
| "pol_evicts _ = True"

fun pol_on_insert :: "pyfloat \<Rightarrow> str \<Rightarrow> policy \<Rightarrow> policy" where
  "pol_on_insert now key (LRU order) = LRU (lru_on_insert key order)"
| "pol_on_insert now key (LFU p) = LFU (lfu_on_insert now key p)"
| "pol_on_insert now key (RandomPolicy ks) = RandomPolicy (ks_add key ks)"
| "pol_on_insert now key (NoEviction n) = NoEviction (n + 1)"

fun pol_on_access :: "pyfloat \<Rightarrow> str \<Rightarrow> rng \<Rightarrow> policy \<Rightarrow> policy \<times> rng" where
  "pol_on_access now key r (LRU order) = (LRU (lru_on_access key order), r)"
| "pol_on_access now key r (LFU p) = (case lfu_on_access now key r p of (p', r') \<Rightarrow> (LFU p', r'))"
| "pol_on_access now key r (RandomPolicy ks) = (RandomPolicy ks, r)"
| "pol_on_access now key r (NoEviction n) = (NoEviction n, r)"

fun pol_on_remove :: "str \<Rightarrow> policy \<Rightarrow> policy" where
  "pol_on_remove key (LRU order) = LRU (lru_on_remove key order)"
| "pol_on_remove key (LFU p) = LFU (lfu_on_remove key p)"
| "pol_on_remove key (RandomPolicy ks) = RandomPolicy (ks_discard key ks)"
| "pol_on_remove key (NoEviction n) = NoEviction (n - 1)"

fun pol_victim :: "pyfloat \<Rightarrow> str set \<Rightarrow> rng \<Rightarrow> policy \<Rightarrow> str option \<times> rng" where
  "pol_victim now protect r (LRU order) = (lru_victim protect order, r)"
| "pol_victim now protect r (LFU p) = lfu_victim now protect r p"
| "pol_victim now protect r (RandomPolicy ks) = random_victim protect r ks"
| "pol_victim now protect r (NoEviction n) = (None, r)"

fun pol_clear :: "policy \<Rightarrow> policy" where
  "pol_clear (LRU order) = LRU []"
| "pol_clear (LFU p) = LFU (lfu_clear p)"
| "pol_clear (RandomPolicy ks) = RandomPolicy ks_empty"
| "pol_clear (NoEviction n) = NoEviction 0"

fun pol_len :: "policy \<Rightarrow> int" where
  "pol_len (LRU order) = int (length order)"
| "pol_len (LFU p) = int (length (lfu_meta p))"
| "pol_len (RandomPolicy ks) = int (ks_len ks)"
| "pol_len (NoEviction n) = n"

section \<open>The contract\<close>

text \<open>
  \<open>tracks p K\<close>: the policy holds exactly the keys \<open>K\<close>.  A victim is a tracked, unprotected key,
  and an evicting policy finds one whenever there is one.
\<close>

locale eviction_policy =
  fixes tracks :: "'p \<Rightarrow> str set \<Rightarrow> bool" and evicts :: "'p \<Rightarrow> bool"
    and on_insert :: "pyfloat \<Rightarrow> str \<Rightarrow> 'p \<Rightarrow> 'p"
    and on_access :: "pyfloat \<Rightarrow> str \<Rightarrow> rng \<Rightarrow> 'p \<Rightarrow> 'p \<times> rng"
    and on_remove :: "str \<Rightarrow> 'p \<Rightarrow> 'p"
    and victim :: "pyfloat \<Rightarrow> str set \<Rightarrow> rng \<Rightarrow> 'p \<Rightarrow> str option \<times> rng"
    and clear :: "'p \<Rightarrow> 'p" and len :: "'p \<Rightarrow> int"
  assumes track_insert: "tracks p K \<Longrightarrow> k \<notin> K \<Longrightarrow> tracks (on_insert now k p) (insert k K)"
    and track_access: "tracks p K \<Longrightarrow> tracks (fst (on_access now k r p)) K"
    and track_remove: "tracks p K \<Longrightarrow> k \<in> K \<Longrightarrow> tracks (on_remove k p) (K - {k})"
    and track_clear: "tracks p K \<Longrightarrow> tracks (clear p) {}"
    and track_len: "tracks p K \<Longrightarrow> len p = int (card K)"
    and victim_sound: "tracks p K \<Longrightarrow> fst (victim now protect r p) = Some k \<Longrightarrow> k \<in> K \<and> k \<notin> protect"
    and victim_complete: "tracks p K \<Longrightarrow> evicts p \<Longrightarrow> fst (victim now protect r p) = None \<Longrightarrow> K \<subseteq> protect"
    and evicts_const: "evicts (on_insert now k p) = evicts p" "evicts (fst (on_access now k r p)) = evicts p"
      "evicts (on_remove k p) = evicts p" "evicts (clear p) = evicts p"
begin

text \<open>As long as an unprotected key is left, a victim is found, and evicting it makes progress.\<close>

lemma eviction_progress:
  assumes "tracks p K" "evicts p" "finite K" "k \<in> K" "k \<notin> protect"
  shows "\<exists>v. fst (victim now protect r p) = Some v \<and> v \<in> K \<and> v \<notin> protect \<and>
    tracks (on_remove v p) (K - {v}) \<and> card (K - {v}) < card K"
proof -
  obtain v where v: "fst (victim now protect r p) = Some v"
    using victim_complete [OF assms(1,2)] assms(4,5) by blast
  from victim_sound [OF assms(1) v] have "v \<in> K" "v \<notin> protect" by simp_all
  moreover from this assms(3) have "card (K - {v}) < card K" by (intro psubset_card_mono) auto
  ultimately show ?thesis using v assms(1) by (intro exI [of _ v]) (simp add: track_remove)
qed

end

section \<open>The policies meet it\<close>

definition lru_tracks :: "str list \<Rightarrow> str set \<Rightarrow> bool" where
  "lru_tracks order K \<longleftrightarrow> distinct order \<and> set order = K"

lemma find_None_subset: "find (\<lambda>k. k \<notin> P) xs = None \<Longrightarrow> set xs \<subseteq> P"
  by (auto simp: find_None_iff)

lemma find_Some_mem: "find (\<lambda>k. k \<notin> P) xs = Some k \<Longrightarrow> k \<in> set xs \<and> k \<notin> P"
  by (auto simp: find_Some_iff)

interpretation lru: eviction_policy lru_tracks "\<lambda>_. True" "\<lambda>_. lru_on_insert" "\<lambda>_ k r p. (lru_on_access k p, r)"
  lru_on_remove "\<lambda>_ protect r p. (lru_victim protect p, r)" "\<lambda>_. []" "\<lambda>p. int (length p)"
proof unfold_locales
  fix p :: "str list" and K k protect
  assume t: "lru_tracks p K"
  show "k \<notin> K \<Longrightarrow> lru_tracks (lru_on_insert k p) (insert k K)"
    using t by (auto simp: lru_tracks_def lru_on_insert_def distinct_removeAll)
  show "lru_tracks (fst (lru_on_access k p, r)) K" for r :: rng
    using t by (auto simp: lru_tracks_def lru_on_access_def distinct_removeAll)
  show "k \<in> K \<Longrightarrow> lru_tracks (lru_on_remove k p) (K - {k})"
    using t by (auto simp: lru_tracks_def lru_on_remove_def distinct_removeAll)
  show "int (length p) = int (card K)" using t by (auto simp: lru_tracks_def distinct_card)
  show "fst (lru_victim protect p, r) = Some k \<Longrightarrow> k \<in> K \<and> k \<notin> protect" for r :: rng
    using t find_Some_mem [of protect p k] by (simp add: lru_tracks_def lru_victim_def)
  show "fst (lru_victim protect p, r) = None \<Longrightarrow> K \<subseteq> protect" for r :: rng
    using t find_None_subset [of protect p] by (simp add: lru_tracks_def lru_victim_def)
qed (simp_all add: lru_tracks_def)

definition lfu_tracks :: "lfu \<Rightarrow> str set \<Rightarrow> bool" where
  "lfu_tracks p K \<longleftrightarrow> ks_inv (lfu_keys p) \<and> set (ks_items (lfu_keys p)) = K \<and>
     dict_ok (lfu_meta p) \<and> fst ` set (lfu_meta p) = K"

lemma min_by_mem: "min_by f xs = Some k \<Longrightarrow> k \<in> set xs"
proof -
  have "foldl (\<lambda>b y. if f y < f b then y else b) x ys \<in> insert x (set ys)" for x :: 'a and ys
  proof (induction ys arbitrary: x)
    case (Cons y ys)
    show ?case using Cons [of "if f y < f x then y else x"] by (auto split: if_splits)
  qed simp
  then show "min_by f xs = Some k \<Longrightarrow> k \<in> set xs" by (auto simp: min_by_def split: list.splits)
qed

lemma min_by_least: "min_by f xs = Some k \<Longrightarrow> x \<in> set xs \<Longrightarrow> f k \<le> f x"
proof -
  have "f (foldl (\<lambda>b y. if f y < f b then y else b) x ys) \<le> f z" if "z \<in> insert x (set ys)" for x z :: 'a and ys
    using that
  proof (induction ys arbitrary: x z)
    case (Cons y ys)
    let ?b = "if f y < f x then y else x"
    show ?case
    proof (cases "z \<in> set ys")
      case True
      then show ?thesis using Cons.IH [of z ?b] by simp
    next
      case False
      with Cons.prems have "f ?b \<le> f z" by auto
      moreover have "f (foldl (\<lambda>b y. if f y < f b then y else b) ?b ys) \<le> f ?b" by (rule Cons.IH) simp
      ultimately show ?thesis by simp
    qed
  qed simp
  then show "min_by f xs = Some k \<Longrightarrow> x \<in> set xs \<Longrightarrow> f k \<le> f x" by (auto simp: min_by_def split: list.splits)
qed

lemma min_by_None: "min_by f xs = None \<longleftrightarrow> xs = []"
  by (simp add: min_by_def split: list.split)

lemma lfu_victim_candidates:
  "fst (lfu_victim now protect r p) =
    (let c = filter (\<lambda>k. k \<notin> protect) (fst (ks_sample (lfu_samples p) (lfu_keys p) r))
     in min_by (\<lambda>k. case lfu_counter now k p of None \<Rightarrow> 0 | Some c \<Rightarrow> c)
          (if c = [] then filter (\<lambda>k. k \<notin> protect) (ks_items (lfu_keys p)) else c))"
  by (simp add: lfu_victim_def Let_def split: prod.split)

lemma lfu_meta_update: "lfu_tracks p K \<Longrightarrow> k \<in> K \<Longrightarrow> lfu_tracks (p\<lparr>lfu_meta := dict_set k v (lfu_meta p)\<rparr>) K"
  by (auto simp: lfu_tracks_def dom_update)

interpretation lfu: eviction_policy lfu_tracks "\<lambda>_. True" lfu_on_insert lfu_on_access lfu_on_remove lfu_victim
  lfu_clear "\<lambda>p. int (length (lfu_meta p))"
proof unfold_locales
  fix p :: lfu and K k now protect r
  assume t: "lfu_tracks p K"
  then have inv: "ks_inv (lfu_keys p)" and items: "set (ks_items (lfu_keys p)) = K" by (simp_all add: lfu_tracks_def)
  show "k \<notin> K \<Longrightarrow> lfu_tracks (lfu_on_insert now k p) (insert k K)"
    using t by (auto simp: lfu_tracks_def lfu_on_insert_def ks.inv_add ks.list_add dom_update)
  show "lfu_tracks (fst (lfu_on_access now k r p)) K"
  proof (cases "dict_get (lfu_meta p) k")
    case None
    then show ?thesis using t by (simp add: lfu_on_access_def lfu_counter_def)
  next
    case (Some v)
    then have "k \<in> K" using t by (auto simp: lfu_tracks_def dict_keys_iff)
    then show ?thesis
      using t lfu_meta_update by (auto simp: lfu_on_access_def split: option.split prod.split)
  qed
  show "k \<in> K \<Longrightarrow> lfu_tracks (lfu_on_remove k p) (K - {k})"
    using t by (auto simp: lfu_tracks_def lfu_on_remove_def ks.inv_discard ks.list_discard keys_dict_pop
        map_of_eq_None_iff simp del: dict_get_pop split: option.split)
  show "lfu_tracks (lfu_clear p) {}" by (simp add: lfu_tracks_def lfu_clear_def ks.inv_empty)
  have "card (fst ` set (lfu_meta p)) = length (lfu_meta p)"
    using t distinct_card [of "map fst (lfu_meta p)"] by (simp add: lfu_tracks_def dict_ok_def)
  then show "int (length (lfu_meta p)) = int (card K)" using t by (simp add: lfu_tracks_def)
  have sub: "set (fst (ks_sample (lfu_samples p) (lfu_keys p) r)) \<subseteq> K"
    using ks.sample_sub [OF inv] items by blast
  show "fst (lfu_victim now protect r p) = Some k \<Longrightarrow> k \<in> K \<and> k \<notin> protect"
    using sub items by (auto simp: lfu_victim_candidates Let_def dest!: min_by_mem split: if_splits)
  show "fst (lfu_victim now protect r p) = None \<Longrightarrow> K \<subseteq> protect"
    using items by (auto simp: lfu_victim_candidates Let_def min_by_None filter_empty_conv split: if_splits)
qed simp_all

definition random_tracks :: "keyset \<Rightarrow> str set \<Rightarrow> bool" where
  "random_tracks ks K \<longleftrightarrow> ks_inv ks \<and> set (ks_items ks) = K"

lemma random_tries_sound:
  "random_tracks ks K \<Longrightarrow> fst (random_tries n protect r ks) = Some k \<Longrightarrow> k \<in> K \<and> k \<notin> protect"
proof (induction n arbitrary: r)
  case 0
  then show ?case using find_Some_mem by (force simp: random_tracks_def)
next
  case (Suc n)
  have "set (fst (ks_sample 1 ks r)) \<subseteq> K" using ks.sample_sub Suc.prems(1) by (auto simp: random_tracks_def)
  with Suc show ?case by (auto split: prod.splits list.splits if_splits)
qed

lemma random_tries_complete:
  "random_tracks ks K \<Longrightarrow> fst (random_tries n protect r ks) = None \<Longrightarrow> K \<subseteq> protect"
proof (induction n arbitrary: r)
  case 0
  then show ?case using find_None_subset by (force simp: random_tracks_def)
next
  case (Suc n)
  have len: "length (fst (ks_sample 1 ks r)) = min 1 (length (ks_items ks))"
    using ks.sample_length Suc.prems(1) by (simp add: random_tracks_def)
  show ?case
  proof (cases "fst (ks_sample 1 ks r)")
    case Nil
    then have "K = {}" using len Suc.prems(1) by (cases "ks_items ks") (auto simp: random_tracks_def)
    then show ?thesis by simp
  next
    case (Cons a as)
    with Suc show ?thesis by (auto split: prod.splits list.splits if_splits)
  qed
qed

interpretation rnd: eviction_policy random_tracks "\<lambda>_. True" "\<lambda>_. ks_add" "\<lambda>_ _ r p. (p, r)" ks_discard
  "\<lambda>_. random_victim" "\<lambda>_. ks_empty" "\<lambda>p. int (ks_len p)"
proof unfold_locales
  fix p :: keyset and K k protect
  assume t: "random_tracks p K"
  show "random_tracks (ks_add k p) (insert k K)" using t by (simp add: random_tracks_def ks.inv_add ks.list_add)
  show "random_tracks (ks_discard k p) (K - {k})"
    using t by (simp add: random_tracks_def ks.inv_discard ks.list_discard)
  show "int (ks_len p) = int (card K)" using t ks.length_list by (auto simp: random_tracks_def ks_len_def)
  show "fst (random_victim protect r p) = Some k \<Longrightarrow> k \<in> K \<and> k \<notin> protect" for r
    using random_tries_sound [OF t] by (simp add: random_victim_def)
  show "fst (random_victim protect r p) = None \<Longrightarrow> K \<subseteq> protect" for r
    using random_tries_complete [OF t] by (simp add: random_victim_def)
qed (simp_all add: random_tracks_def ks.inv_empty)

text \<open>\<open>NoEvictionPolicy\<close> only counts.\<close>

fun pol_tracks :: "policy \<Rightarrow> str set \<Rightarrow> bool" where
  "pol_tracks (LRU order) K \<longleftrightarrow> lru_tracks order K"
| "pol_tracks (LFU p) K \<longleftrightarrow> lfu_tracks p K"
| "pol_tracks (RandomPolicy ks) K \<longleftrightarrow> random_tracks ks K"
| "pol_tracks (NoEviction n) K \<longleftrightarrow> finite K \<and> n = int (card K)"

interpretation pol: eviction_policy pol_tracks pol_evicts pol_on_insert pol_on_access pol_on_remove pol_victim
  pol_clear pol_len
proof unfold_locales
  fix p K k now protect r
  show "pol_evicts (pol_on_insert now k p) = pol_evicts p" "pol_evicts (pol_on_remove k p) = pol_evicts p"
    "pol_evicts (pol_clear p) = pol_evicts p" by (cases p; simp)+
  show "pol_evicts (fst (pol_on_access now k r p)) = pol_evicts p" by (cases p) (simp_all split: prod.split)
  assume t: "pol_tracks p K"
  show "k \<notin> K \<Longrightarrow> pol_tracks (pol_on_insert now k p) (insert k K)"
    using t by (cases p) (simp_all add: lru.track_insert lfu.track_insert rnd.track_insert)
  show "pol_tracks (fst (pol_on_access now k r p)) K"
    using t lru.track_access [simplified] lfu.track_access
    by (cases p) (auto simp: split_beta)
  show "k \<in> K \<Longrightarrow> pol_tracks (pol_on_remove k p) (K - {k})"
    using t card_gt_0_iff [of K]
    by (cases p) (auto simp: lru.track_remove lfu.track_remove rnd.track_remove of_nat_diff)
  show "pol_tracks (pol_clear p) {}"
    using t by (cases p) (simp_all add: lru.track_clear lfu.track_clear rnd.track_clear)
  show "pol_len p = int (card K)"
    using t by (cases p) (simp_all add: lru.track_len lfu.track_len rnd.track_len)
  show "fst (pol_victim now protect r p) = Some k \<Longrightarrow> k \<in> K \<and> k \<notin> protect"
    using t by (cases p) (auto dest: lru.victim_sound [simplified] lfu.victim_sound rnd.victim_sound)
  show "pol_evicts p \<Longrightarrow> fst (pol_victim now protect r p) = None \<Longrightarrow> K \<subseteq> protect"
    using t by (cases p) (auto dest: lru.victim_complete [simplified] lfu.victim_complete [simplified]
        rnd.victim_complete [simplified])
qed

section \<open>Order and counters\<close>

lemma removeAll_remdups_snoc: "remdups (us @ [k]) = removeAll k (remdups us) @ [k]"
  by (induction us) auto

lemma lru_uses: "fold lru_on_insert us [] = remdups us"
  by (induction us rule: rev_induct) (simp_all add: lru_on_insert_def removeAll_remdups_snoc del: remdups.simps)

definition lfu_counters_ok :: "lfu \<Rightarrow> bool" where
  "lfu_counters_ok p \<longleftrightarrow> (\<forall>k c m. dict_get (lfu_meta p) k = Some (c, m) \<longrightarrow> 0 \<le> c \<and> c \<le> MAX_COUNTER)"

lemma lfu_counter_range: "lfu_counter now k p = Some c \<Longrightarrow> 0 \<le> c"
  by (auto simp: lfu_counter_def Let_def split: option.splits prod.splits)

lemma lfu_increment_range:
  "0 \<le> c \<Longrightarrow> lfu_increment c p r = (c', r') \<Longrightarrow> 0 \<le> c' \<and> c' \<le> MAX_COUNTER \<and> (c \<le> MAX_COUNTER \<longrightarrow> c \<le> c')"
  by (auto simp: lfu_increment_def MAX_COUNTER_def Let_def split: if_splits prod.splits)

section \<open>Properties\<close>

text \<open>
  C25.  Every policy, asked for a victim, names a key it tracks that is not protected, and an
  evicting policy only fails to name one when every tracked key is protected; removing the
  victim leaves the policy tracking exactly the other keys.
\<close>

theorem victim_correct:
  assumes "pol_tracks p K"
  shows "case fst (pol_victim now protect r p) of
      Some k \<Rightarrow> k \<in> K \<and> k \<notin> protect \<and> pol_tracks (pol_on_remove k p) (K - {k})
    | None \<Rightarrow> \<not> pol_evicts p \<or> K \<subseteq> protect"
proof (cases "fst (pol_victim now protect r p)")
  case None
  then show ?thesis using pol.victim_complete [OF assms] by auto
next
  case (Some k)
  then have "k \<in> K \<and> k \<notin> protect" by (rule pol.victim_sound [OF assms])
  then show ?thesis using Some pol.track_remove [OF assms] by simp
qed

theorem victim_correct_witness:
  "fst (pol_victim (Fin 0) {[97]} [] (LRU [[97], [98]])) = Some [98]
   \<and> pol_tracks (pol_on_remove [98] (LRU [[97], [98]])) {[97]}"
proof -
  have t: "pol_tracks (LRU [[97], [98]]) {[97], [98]}" by (simp add: lru_tracks_def)
  have v: "fst (pol_victim (Fin 0) {[97]} [] (LRU [[97], [98]])) = Some [98]" by code_simp
  have "{[97], [98]} - {[98]} = {[97 :: nat]}" by auto
  then show ?thesis using victim_correct [OF t, where now = "Fin 0" and protect = "{[97]}" and r = "[]"] v by simp
qed

text \<open>
  C32.  The LRU order is the order of last use: after any sequence of uses the policy holds each
  used key once, by its last use, so its victim is the unprotected key unused for longest.
\<close>

theorem lru_is_least_recent:
  "fold lru_on_insert us [] = remdups us
   \<and> (k \<in> set us \<longrightarrow> lru_on_access k (remdups us) = remdups (us @ [k]))
   \<and> lru_victim protect (fold lru_on_insert us []) = find (\<lambda>k. k \<notin> protect) (remdups us)"
  by (auto simp: lru_uses lru_on_access_def removeAll_remdups_snoc lru_victim_def)

theorem lru_is_least_recent_witness:
  "lru_victim {} (fold lru_on_insert [[97], [98], [97]] []) = Some [98]"
proof -
  have "find (\<lambda>k. k \<notin> {}) (remdups [[97], [98], [97 :: nat]]) = Some [98]" by code_simp
  then show ?thesis
    using lru_is_least_recent [where us = "[[97], [98], [97]]" and k = "[97]" and protect = "{}"] by metis
qed

text \<open>
  C33.  LFU counters stay 8-bit: inserts, accesses and removals keep every stored counter
  between 0 and 255.
\<close>

theorem lfu_counters_bounded:
  assumes "lfu_counters_ok p"
  shows "lfu_counters_ok (lfu_on_insert now k p)
    \<and> lfu_counters_ok (fst (lfu_on_access now k r p))
    \<and> lfu_counters_ok (lfu_on_remove k p)"
proof (intro conjI)
  show "lfu_counters_ok (lfu_on_insert now k p)"
    using assms by (auto simp: lfu_counters_ok_def lfu_on_insert_def INIT_COUNTER_def MAX_COUNTER_def)
  show "lfu_counters_ok (lfu_on_remove k p)"
    using assms by (auto simp: lfu_counters_ok_def lfu_on_remove_def split: option.split if_splits)
  show "lfu_counters_ok (fst (lfu_on_access now k r p))"
  proof (cases "lfu_counter now k p")
    case None
    then show ?thesis using assms by (simp add: lfu_on_access_def)
  next
    case (Some c)
    obtain c' r' where i: "lfu_increment c p r = (c', r')" by (cases "lfu_increment c p r")
    have "0 \<le> c' \<and> c' \<le> MAX_COUNTER" using lfu_increment_range [OF lfu_counter_range [OF Some] i] by simp
    then show ?thesis using assms Some i by (auto simp: lfu_counters_ok_def lfu_on_access_def split: if_splits)
  qed
qed

theorem lfu_counters_bounded_witness:
  "lfu_counters_ok lfu_init \<and> lfu_counters_ok (fst (lfu_on_access (Fin 60) [97] [] (lfu_on_insert (Fin 0) [97] lfu_init)))"
proof -
  have "lfu_counters_ok lfu_init" by (simp add: lfu_counters_ok_def lfu_init_def)
  moreover from lfu_counters_bounded [OF this] have "lfu_counters_ok (lfu_on_insert (Fin 0) [97] lfu_init)" by blast
  ultimately show ?thesis
    using lfu_counters_bounded [of "lfu_on_insert (Fin 0) [97] lfu_init" "Fin 60" "[97]" "[]"] by blast
qed

end
