(* ===== verification/Store.thy ===== *)
theory Store
  imports ZSet Eviction
begin

text \<open>
  \<open>engine/store.py\<close>, \<open>engine/entry.py\<close> and \<open>engine/datatypes/__init__.py\<close>: the keyspace.  A store
  is a record with the source's fields.  The clock is the reading \<open>st_now\<close> it returns during the
  operation; time passes between operations.  \<open>on_expire\<close> is the engine's \<open>_expired\<close>, which records
  a \<open>DEL\<close>: the effects recorded so far are \<open>st_out\<close>, each the words of a command.  The module-level
  generator of the skip list is \<open>st_sl_rng\<close>.

  A value mutated in place by a command handler is put back with \<open>put_value\<close>, which leaves the
  accounted size alone, as the mutation does.  Where the source would raise \<open>KeyError\<close> (removing an
  absent key) the model leaves the store unchanged; the invariant excludes it.
\<close>

section \<open>Values and entries\<close>

datatype kvalue =
  VStr str | VList list_value | VHash hash_value | VSet set_value | VZset zset

fun type_name :: "kvalue \<Rightarrow> str" where
  "type_name (VStr _) = lit ''string''"
| "type_name (VList _) = lit ''list''"
| "type_name (VHash _) = lit ''hash''"
| "type_name (VSet _) = lit ''set''"
| "type_name (VZset _) = lit ''zset''"

fun value_size :: "kvalue \<Rightarrow> int" where
  "value_size (VStr v) = str_size v"
| "value_size (VList v) = lv_nbytes v"
| "value_size (VHash v) = hv_nbytes v"
| "value_size (VSet v) = sv_nbytes v"
| "value_size (VZset v) = zs_nbytes v"

text \<open>\<open>not isinstance(value, str) and len(value) == 0\<close>.\<close>

fun value_empty :: "kvalue \<Rightarrow> bool" where
  "value_empty (VStr _) = False"
| "value_empty (VList v) \<longleftrightarrow> list_len v = 0"
| "value_empty (VHash v) \<longleftrightarrow> hash_len v = 0"
| "value_empty (VSet v) \<longleftrightarrow> set_len v = 0"
| "value_empty (VZset v) \<longleftrightarrow> zset_len v = 0"

text \<open>The classes a handler asks for: recognising a value, and making an empty one.\<close>

fun as_str :: "kvalue \<Rightarrow> str option" where
  "as_str (VStr v) = Some v" | "as_str _ = None"
fun as_list :: "kvalue \<Rightarrow> list_value option" where
  "as_list (VList v) = Some v" | "as_list _ = None"
fun as_hash :: "kvalue \<Rightarrow> hash_value option" where
  "as_hash (VHash v) = Some v" | "as_hash _ = None"
fun as_set :: "kvalue \<Rightarrow> set_value option" where
  "as_set (VSet v) = Some v" | "as_set _ = None"
fun as_zset :: "kvalue \<Rightarrow> zset option" where
  "as_zset (VZset v) = Some v" | "as_zset _ = None"

record entry =
  e_value :: kvalue
  e_expires :: "pyfloat option"
  e_size :: int
  e_copied :: int

definition new_entry :: "kvalue \<Rightarrow> pyfloat option \<Rightarrow> entry" where
  "new_entry v expires_at = \<lparr>e_value = v, e_expires = expires_at, e_size = 0, e_copied = 0\<rparr>"

definition is_expired :: "entry \<Rightarrow> pyfloat \<Rightarrow> bool" where
  "is_expired e now \<longleftrightarrow> (case e_expires e of None \<Rightarrow> False | Some t \<Rightarrow> fle t now)"

section \<open>Snapshot records and jobs\<close>

datatype payload =
  PString str | PList "str list" | PHash "(str \<times> str) list" | PSet "str list" | PZset "(str \<times> pyfloat) list"

type_synonym snapshot_record = "str \<times> payload \<times> pyfloat option"

fun value_payload :: "kvalue \<Rightarrow> payload" where
  "value_payload (VStr v) = PString v"
| "value_payload (VList v) = PList (lv_items v)"
| "value_payload (VHash v) = PHash (hash_items v)"
| "value_payload (VSet v) = PSet (set_iter v)"
| "value_payload (VZset v) = PZset (zset_items v)"

definition entry_record :: "str \<Rightarrow> entry \<Rightarrow> snapshot_record" where
  "entry_record key e = (key, value_payload (e_value e), e_expires e)"

text \<open>\<open>job_on_done\<close>: whether a callback was given; its call is recorded in \<open>st_finished\<close>.\<close>

record snapshot_job =
  job_keys :: "str list"
  job_pos :: nat
  job_epoch :: int
  job_started_at :: pyfloat
  job_on_done :: bool
  job_records :: "snapshot_record list"

definition job_done :: "snapshot_job \<Rightarrow> bool" where
  "job_done j \<longleftrightarrow> job_pos j \<ge> length (job_keys j)"

definition job_remaining :: "snapshot_job \<Rightarrow> nat" where
  "job_remaining j = length (job_keys j) - job_pos j"

section \<open>The store\<close>

record store =
  st_max_keys :: int
  st_maxmemory :: int
  st_eviction_enabled :: bool
  st_expiry_enabled :: bool
  st_expiry_deletes :: bool
  st_used_memory :: int
  st_expired_keys :: int
  st_evicted_keys :: int
  st_hits :: int
  st_misses :: int
  st_policy :: policy
  st_now :: pyfloat
  st_rng :: rng
  st_sl_rng :: rng
  st_data :: "(str, entry) dict"
  st_volatile :: keyset
  st_epoch :: int
  st_job :: "snapshot_job option"
  st_out :: "str list list"
  st_finished :: "snapshot_record list list"

text \<open>\<open>Store.__init__\<close>; \<open>None\<close> is the \<open>ValueError\<close> of a negative limit.\<close>

definition store_init :: "policy \<Rightarrow> int \<Rightarrow> int \<Rightarrow> pyfloat \<Rightarrow> rng \<Rightarrow> rng \<Rightarrow> store option" where
  "store_init policy max_keys maxmemory now r slr =
     (if max_keys < 0 \<or> maxmemory < 0 then None
      else Some \<lparr>st_max_keys = max_keys, st_maxmemory = maxmemory, st_eviction_enabled = True,
                 st_expiry_enabled = True, st_expiry_deletes = True, st_used_memory = 0,
                 st_expired_keys = 0, st_evicted_keys = 0, st_hits = 0, st_misses = 0,
                 st_policy = policy, st_now = now, st_rng = r, st_sl_rng = slr, st_data = [],
                 st_volatile = ks_empty, st_epoch = 0, st_job = None, st_out = [], st_finished = []\<rparr>)"

definition entry_size :: "str \<Rightarrow> kvalue \<Rightarrow> int" where
  "entry_size key v = str_size key + ENTRY_OVERHEAD + value_size v"

text \<open>\<open>SnapshotJob.take\<close>: the entry is marked in the store, its record appended to the job.\<close>

definition job_take :: "str \<Rightarrow> entry \<Rightarrow> snapshot_job \<Rightarrow> store \<Rightarrow> store" where
  "job_take key e j s =
     s\<lparr>st_data := dict_set key (e\<lparr>e_copied := job_epoch j\<rparr>) (st_data s),
       st_job := Some (if is_expired e (job_started_at j) then j
                       else j\<lparr>job_records := job_records j @ [entry_record key e]\<rparr>)\<rparr>"

definition snapshot_barrier :: "str \<Rightarrow> store \<Rightarrow> store" where
  "snapshot_barrier key s =
     (case st_job s of
        None \<Rightarrow> s
      | Some j \<Rightarrow>
          (case dict_get (st_data s) key of
             None \<Rightarrow> s
           | Some e \<Rightarrow> if e_copied e \<noteq> job_epoch j then job_take key e j s else s))"

definition store_remove :: "str \<Rightarrow> store \<Rightarrow> store" where
  "store_remove key s0 =
     (let s = snapshot_barrier key s0
      in case dict_get (st_data s) key of
           None \<Rightarrow> s
         | Some e \<Rightarrow>
             s\<lparr>st_data := dict_pop key (st_data s),
               st_used_memory := st_used_memory s - e_size e,
               st_volatile := ks_discard key (st_volatile s),
               st_policy := pol_on_remove key (st_policy s)\<rparr>)"

definition store_insert :: "str \<Rightarrow> kvalue \<Rightarrow> store \<Rightarrow> store" where
  "store_insert key v s =
     (let e = (new_entry v None)\<lparr>e_copied := st_epoch s, e_size := entry_size key v\<rparr>
      in s\<lparr>st_used_memory := st_used_memory s + e_size e,
           st_data := dict_set key e (st_data s),
           st_policy := pol_on_insert (st_now s) key (st_policy s)\<rparr>)"

definition store_expire :: "str \<Rightarrow> store \<Rightarrow> store" where
  "store_expire key s0 =
     (let s = store_remove key s0
      in s\<lparr>st_expired_keys := st_expired_keys s + 1, st_out := st_out s @ [[lit ''DEL'', key]]\<rparr>)"

definition store_lookup :: "str \<Rightarrow> store \<Rightarrow> entry option \<times> store" where
  "store_lookup key s =
     (case dict_get (st_data s) key of
        None \<Rightarrow> (None, s)
      | Some e \<Rightarrow>
          if st_expiry_enabled s \<and> is_expired e (st_now s)
          then (None, if st_expiry_deletes s then store_expire key s else s)
          else (Some e, s))"

definition store_access :: "str \<Rightarrow> store \<Rightarrow> store" where
  "store_access key s =
     (case pol_on_access (st_now s) key (st_rng s) (st_policy s) of
        (p, r) \<Rightarrow> s\<lparr>st_policy := p, st_rng := r\<rparr>)"

section \<open>Reads\<close>

definition store_get :: "str \<Rightarrow> store \<Rightarrow> entry option \<times> store" where
  "store_get key s =
     (case store_lookup key s of
        (None, s1) \<Rightarrow> (None, s1\<lparr>st_misses := st_misses s1 + 1\<rparr>)
      | (Some e, s1) \<Rightarrow> (Some e, store_access key (s1\<lparr>st_hits := st_hits s1 + 1\<rparr>)))"

definition store_peek :: "str \<Rightarrow> store \<Rightarrow> entry option \<times> store" where
  "store_peek key s = store_lookup key s"

definition store_read :: "(kvalue \<Rightarrow> 'v option) \<Rightarrow> str \<Rightarrow> store \<Rightarrow> (kverror + 'v option) \<times> store" where
  "store_read kind key s =
     (case store_get key s of
        (None, s1) \<Rightarrow> (Inr None, s1)
      | (Some e, s1) \<Rightarrow>
          (case kind (e_value e) of
             None \<Rightarrow> (Inl (err WrongTypeError ''''), s1)
           | Some v \<Rightarrow> (Inr (Some v), s1)))"

definition store_write_target ::
    "(kvalue \<Rightarrow> 'v option) \<Rightarrow> ('v \<Rightarrow> kvalue) \<Rightarrow> 'v \<Rightarrow> str \<Rightarrow> store \<Rightarrow> (kverror + 'v) \<times> store" where
  "store_write_target kind mk fresh key s =
     (case store_lookup key s of
        (Some e, s1) \<Rightarrow>
          (case kind (e_value e) of
             None \<Rightarrow> (Inl (err WrongTypeError ''''), s1)
           | Some v \<Rightarrow> (Inr v, store_access key s1))
      | (None, s1) \<Rightarrow> (Inr fresh, store_insert key (mk fresh) s1))"

text \<open>\<open>iter_keys\<close>, run to its end.\<close>

fun iter_loop :: "str list \<Rightarrow> store \<Rightarrow> str list \<times> store" where
  "iter_loop [] s = ([], s)"
| "iter_loop (k # ks) s =
     (case store_lookup k s of (found, s1) \<Rightarrow>
        (case iter_loop ks s1 of (live, s2) \<Rightarrow>
           (if found = None then live else k # live, s2)))"

definition iter_keys :: "store \<Rightarrow> str list \<times> store" where
  "iter_keys s = iter_loop (dict_keys (st_data s)) s"

section \<open>Writes\<close>

definition put_value :: "str \<Rightarrow> kvalue \<Rightarrow> store \<Rightarrow> store" where
  "put_value key v s =
     (case dict_get (st_data s) key of
        None \<Rightarrow> s
      | Some e \<Rightarrow> s\<lparr>st_data := dict_set key (e\<lparr>e_value := v\<rparr>) (st_data s)\<rparr>)"

definition store_set :: "str \<Rightarrow> kvalue \<Rightarrow> bool \<Rightarrow> store \<Rightarrow> store" where
  "store_set key v keep_ttl s0 =
     (case (if keep_ttl then store_lookup key s0 else (dict_get (st_data s0) key, s0)) of
        (None, s) \<Rightarrow> store_insert key v s
      | (Some old, s) \<Rightarrow>
          let used = st_used_memory s - e_size old;
              expires = (if keep_ttl then e_expires old else None);
              e = (new_entry v expires)\<lparr>e_copied := st_epoch s, e_size := entry_size key v\<rparr>
          in store_access key
               (s\<lparr>st_volatile := (if expires = None then ks_discard key (st_volatile s) else st_volatile s),
                  st_used_memory := used + e_size e,
                  st_data := dict_set key e (st_data s)\<rparr>))"

definition store_delete :: "str \<Rightarrow> store \<Rightarrow> bool \<times> store" where
  "store_delete key s =
     (case store_lookup key s of
        (None, s1) \<Rightarrow> (False, s1)
      | (Some _, s1) \<Rightarrow> (True, store_remove key s1))"

definition store_set_expiry :: "str \<Rightarrow> pyfloat \<Rightarrow> store \<Rightarrow> bool \<times> store" where
  "store_set_expiry key expires_at s =
     (case store_lookup key s of
        (None, s1) \<Rightarrow> (False, s1)
      | (Some e, s1) \<Rightarrow>
          (True, s1\<lparr>st_data := dict_set key (e\<lparr>e_expires := Some expires_at\<rparr>) (st_data s1),
                    st_volatile := ks_add key (st_volatile s1)\<rparr>))"

definition store_persist :: "str \<Rightarrow> store \<Rightarrow> bool \<times> store" where
  "store_persist key s =
     (case store_lookup key s of
        (None, s1) \<Rightarrow> (False, s1)
      | (Some e, s1) \<Rightarrow>
          if e_expires e = None then (False, s1)
          else (True, s1\<lparr>st_data := dict_set key (e\<lparr>e_expires := None\<rparr>) (st_data s1),
                         st_volatile := ks_discard key (st_volatile s1)\<rparr>))"

definition store_refresh :: "str \<Rightarrow> store \<Rightarrow> store" where
  "store_refresh key s =
     (case dict_get (st_data s) key of
        None \<Rightarrow> s
      | Some e \<Rightarrow>
          if value_empty (e_value e) then store_remove key s
          else let size = entry_size key (e_value e)
               in s\<lparr>st_used_memory := st_used_memory s + (size - e_size e),
                    st_data := dict_set key (e\<lparr>e_size := size\<rparr>) (st_data s)\<rparr>)"

section \<open>Incremental snapshots\<close>

text \<open>
  \<open>SnapshotJob.step\<close> on the running job: a slice takes every key not yet accounted for, which is
  what the barrier does for one key.  The flag tells whether everything is copied.
\<close>

definition job_step :: "nat \<Rightarrow> store \<Rightarrow> bool \<times> store" where
  "job_step max_keys s =
     (case st_job s of
        None \<Rightarrow> (True, s)
      | Some j0 \<Rightarrow>
          let stop = min (job_pos j0 + max_keys) (length (job_keys j0));
              s1 = fold snapshot_barrier (take (stop - job_pos j0) (drop (job_pos j0) (job_keys j0))) s
          in case st_job s1 of
               None \<Rightarrow> (True, s1)
             | Some j \<Rightarrow>
                 let j' = j\<lparr>job_pos := stop\<rparr>
                 in if job_done j'
                    then (True, s1\<lparr>st_job := None,
                                   st_finished := st_finished s1 @ (if job_on_done j then [job_records j] else [])\<rparr>)
                    else (False, s1\<lparr>st_job := Some j'\<rparr>))"

text \<open>\<open>None\<close> is the \<open>RuntimeError\<close> of a snapshot already running.\<close>

definition begin_snapshot :: "bool \<Rightarrow> store \<Rightarrow> store option" where
  "begin_snapshot on_done s =
     (case st_job s of
        Some _ \<Rightarrow> None
      | None \<Rightarrow>
          let epoch = st_epoch s + 1
          in Some (s\<lparr>st_epoch := epoch,
                     st_job := Some \<lparr>job_keys = dict_keys (st_data s), job_pos = 0, job_epoch = epoch,
                       job_started_at = st_now s, job_on_done = on_done, job_records = []\<rparr>\<rparr>))"

definition abandon_snapshot :: "store \<Rightarrow> bool \<times> store" where
  "abandon_snapshot s = (st_job s \<noteq> None, s\<lparr>st_job := None\<rparr>)"

definition store_snapshot :: "store \<Rightarrow> snapshot_record list" where
  "store_snapshot s =
     map (\<lambda>(k, e). entry_record k e) (filter (\<lambda>(k, e). \<not> is_expired e (st_now s)) (st_data s))"

definition store_record :: "str \<Rightarrow> store \<Rightarrow> snapshot_record option \<times> store" where
  "store_record key s =
     (case store_lookup key s of
        (None, s1) \<Rightarrow> (None, s1)
      | (Some e, s1) \<Rightarrow> (Some (entry_record key e), s1))"

definition store_clear :: "store \<Rightarrow> store" where
  "store_clear s0 =
     (let s = (case st_job s0 of None \<Rightarrow> s0 | Some j \<Rightarrow> snd (job_step (job_remaining j) s0))
      in s\<lparr>st_data := [], st_volatile := ks_empty, st_policy := pol_clear (st_policy s), st_used_memory := 0\<rparr>)"

fun hash_load :: "(str \<times> str) list \<Rightarrow> hash_value \<Rightarrow> hash_value" where
  "hash_load [] h = h"
| "hash_load ((f, v) # ps) h = hash_load ps (snd (hash_set f v h))"

fun set_load :: "str list \<Rightarrow> set_value \<Rightarrow> set_value" where
  "set_load [] v = v"
| "set_load (m # ms) v = set_load ms (snd (set_add m v))"

fun zset_load :: "(str \<times> pyfloat) list \<Rightarrow> zset \<Rightarrow> rng \<Rightarrow> zset \<times> rng" where
  "zset_load [] z r = (z, r)"
| "zset_load ((m, sc) # ps) z r = (case zset_add m sc r z of (_, z', r') \<Rightarrow> zset_load ps z' r')"

fun load_payload :: "payload \<Rightarrow> rng \<Rightarrow> kvalue \<times> rng" where
  "load_payload (PString v) r = (VStr v, r)"
| "load_payload (PList xs) r = (VList (list_init xs), r)"
| "load_payload (PHash ps) r = (VHash (hash_load ps hash_init), r)"
| "load_payload (PSet ms) r = (VSet (set_load ms set_init), r)"
| "load_payload (PZset ps) r = (case zset_load ps zset_init r of (z, r') \<Rightarrow> (VZset z, r'))"

definition load_record :: "snapshot_record \<Rightarrow> store \<Rightarrow> store" where
  "load_record rec s =
     (case rec of (key, payload, expires_at) \<Rightarrow>
        (case load_payload payload (st_sl_rng s) of (v, r) \<Rightarrow>
           let s1 = store_set key v False (s\<lparr>st_sl_rng := r\<rparr>)
           in case expires_at of None \<Rightarrow> s1 | Some t \<Rightarrow> snd (store_set_expiry key t s1)))"

section \<open>Limits and expiration\<close>

definition over_limit :: "int \<Rightarrow> store \<Rightarrow> bool" where
  "over_limit extra_keys s \<longleftrightarrow>
     (st_max_keys s \<noteq> 0 \<and> int (length (st_data s)) + extra_keys > st_max_keys s) \<or>
     (st_maxmemory s \<noteq> 0 \<and> st_used_memory s > st_maxmemory s)"

lemma keys_barrier [simp]: "fst ` set (st_data (snapshot_barrier k s)) = fst ` set (st_data s)"
  by (auto simp: snapshot_barrier_def job_take_def keys_dict_set insert_absorb dict_keys_iff
      split: option.split)

lemma length_barrier [simp]: "length (st_data (snapshot_barrier k s)) = length (st_data s)"
  by (simp add: snapshot_barrier_def job_take_def length_dict_set split: option.split)

lemma length_dict_pop_less: "dict_get d k \<noteq> None \<Longrightarrow> length (dict_pop k d) < length d"
  by (induction d) (auto intro: le_less_trans [OF length_delete_le] split: if_splits)

lemma length_remove: "dict_get (st_data s) k \<noteq> None \<Longrightarrow> length (st_data (store_remove k s)) < length (st_data s)"
proof -
  assume k: "dict_get (st_data s) k \<noteq> None"
  then have "dict_get (st_data (snapshot_barrier k s)) k \<noteq> None"
    using keys_barrier [of k s] by (simp only: dict_keys_iff [symmetric])
  then show ?thesis
    using length_dict_pop_less [of "st_data (snapshot_barrier k s)" k]
    by (auto simp: store_remove_def Let_def split: option.split)
qed

function evict_loop :: "str set \<Rightarrow> store \<Rightarrow> str list \<times> store" where
  "evict_loop protect s =
     (if \<not> over_limit 0 s then ([], s)
      else case pol_victim (st_now s) protect (st_rng s) (st_policy s) of
             (None, r) \<Rightarrow> ([], s\<lparr>st_rng := r\<rparr>)
           | (Some victim, r) \<Rightarrow>
               if dict_get (st_data s) victim = None then ([], s\<lparr>st_rng := r\<rparr>)
               else let s1 = store_remove victim (s\<lparr>st_rng := r\<rparr>)
                    in case evict_loop protect (s1\<lparr>st_evicted_keys := st_evicted_keys s1 + 1\<rparr>) of
                         (evicted, s2) \<Rightarrow> (victim # evicted, s2))"
  by pat_completeness auto
termination by (relation "measure (\<lambda>(_, s). length (st_data s))") (auto intro!: length_remove [THEN order_less_le_trans])

declare evict_loop.simps [simp del]

definition evict_if_needed :: "str set \<Rightarrow> store \<Rightarrow> str list \<times> store" where
  "evict_if_needed protect s =
     (if \<not> st_eviction_enabled s \<or> \<not> pol_evicts (st_policy s) then ([], s) else evict_loop protect s)"

definition MAX_EXPIRY_ROUNDS :: nat where "MAX_EXPIRY_ROUNDS = 16"

fun expire_sample :: "str list \<Rightarrow> pyfloat \<Rightarrow> store \<Rightarrow> int \<times> store" where
  "expire_sample [] now s = (0, s)"
| "expire_sample (k # ks) now s =
     (case dict_get (st_data s) k of
        Some e \<Rightarrow>
          if is_expired e now
          then (case expire_sample ks now (store_expire k s) of (n, s') \<Rightarrow> (n + 1, s'))
          else expire_sample ks now s
      | None \<Rightarrow> expire_sample ks now s)"

primrec expire_rounds :: "nat \<Rightarrow> nat \<Rightarrow> pyfloat \<Rightarrow> store \<Rightarrow> int \<times> store" where
  "expire_rounds 0 sample_size now s = (0, s)"
| "expire_rounds (Suc n) sample_size now s =
     (case ks_sample sample_size (st_volatile s) (st_rng s) of (sample, r) \<Rightarrow>
        if sample = [] then (0, s\<lparr>st_rng := r\<rparr>)
        else case expire_sample sample now (s\<lparr>st_rng := r\<rparr>) of (expired, s1) \<Rightarrow>
               if expired * 4 \<le> int (length sample) then (expired, s1)
               else case expire_rounds n sample_size now s1 of (rest, s2) \<Rightarrow> (expired + rest, s2))"

definition expire_cycle :: "nat \<Rightarrow> store \<Rightarrow> int \<times> store" where
  "expire_cycle sample_size s =
     (if \<not> st_expiry_deletes s then (0, s)
      else expire_rounds MAX_EXPIRY_ROUNDS sample_size (st_now s) s)"

definition purge_expired :: "store \<Rightarrow> int \<times> store" where
  "purge_expired s =
     (let stale = filter (\<lambda>k. case dict_get (st_data s) k of Some e \<Rightarrow> is_expired e (st_now s) | None \<Rightarrow> False)
                    (ks_items (st_volatile s));
          s1 = fold store_remove stale s
      in (int (length stale), s1\<lparr>st_expired_keys := st_expired_keys s1 + int (length stale)\<rparr>))"

end
