(* ===== verification/Resp.thy ===== *)
theory Resp
  imports Exceptions Codec
begin

text \<open>
  \<open>protocol/resp.py\<close>: the RESP2 wire format.  A parser's buffer is represented by its unread part
  \<open>buf[pos:]\<close>, all that any operation looks at; \<open>_compact\<close> only forgets bytes already read, so it
  leaves this part alone.  \<open>None\<close> from an encoder is \<open>UnicodeEncodeError\<close>.
\<close>

section \<open>Values on the wire\<close>

text \<open>
  What commands are called with: text from the network, and the numbers an in-process caller may
  pass.  \<open>arg_str\<close> is \<open>str(arg)\<close>.
\<close>

datatype arg = SArg str | IArg int | FArg pyfloat | BArg bool

fun float_text :: "pyfloat \<Rightarrow> str" where
  "float_text NegInf = lit ''-inf''"
| "float_text PosInf = lit ''inf''"
| "float_text NaN = lit ''nan''"
| "float_text (Fin q) = float_repr q"

fun arg_str :: "arg \<Rightarrow> str" where
  "arg_str (SArg s) = s"
| "arg_str (IArg n) = int_text n"
| "arg_str (FArg x) = float_text x"
| "arg_str (BArg b) = (if b then lit ''True'' else lit ''False'')"

text \<open>\<open>RSimple\<close> is a \<open>SimpleString\<close>, \<open>RBulk\<close> a plain \<open>str\<close>, \<open>RArray\<close> a list or tuple.\<close>

datatype reply =
  RNil | RSimple str | RBulk str | RInt int | RArray "reply list" | RFloat pyfloat | RBytes bytes
| RError kverror

definition OK :: reply where "OK = RSimple (lit ''OK'')"
definition PONG :: reply where "PONG = RSimple (lit ''PONG'')"

fun format_float :: "pyfloat \<Rightarrow> str" where
  "format_float PosInf = lit ''inf''"
| "format_float NegInf = lit ''-inf''"
| "format_float NaN = float_text NaN"
| "format_float (Fin q) =
     (if of_int \<lfloor>q\<rfloor> = q \<and> \<bar>q\<bar> < 10 ^ 17 then int_text \<lfloor>q\<rfloor> else float_repr q)"

section \<open>Encoding\<close>

definition CRLF :: bytes where "CRLF = [13, 10]"

definition DEFAULT_MAX_BULK :: nat where "DEFAULT_MAX_BULK = 64 * 1024 * 1024"
definition MAX_INLINE :: nat where "MAX_INLINE = 64 * 1024"
definition MAX_ARRAY :: int where "MAX_ARRAY = 1024 * 1024"

text \<open>\<open>$<len>\r\n<data>\r\n\<close>\<close>

definition bulk :: "bytes \<Rightarrow> bytes" where
  "bulk data = 36 # nat_text (length data) @ CRLF @ data @ CRLF"

definition one_line :: "str \<Rightarrow> str" where
  "one_line s = map (\<lambda>c. if c = 13 \<or> c = 10 then 32 else c) s"

definition encode_error :: "kverror \<Rightarrow> bytes option" where
  "encode_error e = map_option (\<lambda>bs. 45 # bs @ CRLF) (to_bytes (one_line (to_resp e)))"

text \<open>The text of an argument in a request; \<open>bool\<close> is printed by \<open>str\<close>, a float by \<open>format_float\<close>.\<close>

fun arg_text :: "arg \<Rightarrow> str" where
  "arg_text (FArg x) = format_float x"
| "arg_text a = arg_str a"

fun encode_bulks :: "arg list \<Rightarrow> bytes option" where
  "encode_bulks [] = Some []"
| "encode_bulks (a # as) =
     (case (to_bytes (arg_text a), encode_bulks as) of
        (Some data, Some rest) \<Rightarrow> Some (bulk data @ rest)
      | _ \<Rightarrow> None)"

definition encode_command :: "arg list \<Rightarrow> bytes option" where
  "encode_command args = map_option (\<lambda>bs. 42 # nat_text (length args) @ CRLF @ bs) (encode_bulks args)"

fun encode_reply :: "reply \<Rightarrow> bytes option" and encode_items :: "reply list \<Rightarrow> bytes option" where
  "encode_reply RNil = Some (lit ''$-1'' @ CRLF)"
| "encode_reply (RSimple s) = map_option (\<lambda>bs. 43 # bs @ CRLF) (to_bytes s)"
| "encode_reply (RBulk s) = map_option bulk (to_bytes s)"
| "encode_reply (RInt n) = Some (58 # int_text n @ CRLF)"
| "encode_reply (RArray rs) =
     map_option (\<lambda>bs. 42 # nat_text (length rs) @ CRLF @ bs) (encode_items rs)"
| "encode_reply (RFloat x) = map_option bulk (to_bytes (format_float x))"
| "encode_reply (RBytes bs) = Some (bulk bs)"
| "encode_reply (RError e) = encode_error e"
| "encode_items [] = Some []"
| "encode_items (r # rs) =
     (case (encode_reply r, encode_items rs) of
        (Some bs, Some rest) \<Rightarrow> Some (bs @ rest)
      | _ \<Rightarrow> None)"

section \<open>Reading lines and integers\<close>

text \<open>\<open>buf.find(CRLF, pos)\<close>: the line before the first CR LF and what follows it.\<close>

fun find_crlf :: "bytes \<Rightarrow> (bytes \<times> bytes) option" where
  "find_crlf [] = None"
| "find_crlf (b # bs) =
     (if b = 13 \<and> take 1 bs = [10] then Some ([], tl bs)
      else map_option (\<lambda>(l, r). (b # l, r)) (find_crlf bs))"

fun find_lf :: "bytes \<Rightarrow> (bytes \<times> bytes) option" where
  "find_lf [] = None"
| "find_lf (b # bs) = (if b = 10 then Some ([], bs) else map_option (\<lambda>(l, r). (b # l, r)) (find_lf bs))"

text \<open>\<open>int(bytes)\<close>: like \<open>int(str)\<close>, with ASCII white space only (a byte is no other digit).\<close>

definition is_space_byte :: "nat \<Rightarrow> bool" where
  "is_space_byte b \<longleftrightarrow> 9 \<le> b \<and> b \<le> 13 \<or> b = 32"

definition strip_bytes :: "bytes \<Rightarrow> bytes" where
  "strip_bytes s = rev (dropWhile is_space_byte (rev (dropWhile is_space_byte s)))"

definition bytes_int :: "bytes \<Rightarrow> int option" where
  "bytes_int s =
     (case scan_sign (strip_bytes s) of (neg, body) \<Rightarrow>
        (case scan_digits body of
           None \<Rightarrow> None
         | Some ds \<Rightarrow>
             if 4300 < length ds then None
             else Some (if neg then - int (digits_num ds) else int (digits_num ds))))"

definition parse_int :: "bytes \<Rightarrow> string \<Rightarrow> kverror + int" where
  "parse_int line error = (case bytes_int line of None \<Rightarrow> Inl (err ProtocolError error) | Some n \<Rightarrow> Inr n)"

section \<open>Requests\<close>

record request_parser =
  rq_buf :: bytes
  rq_max_bulk :: nat
  rq_pending :: "str list option"
  rq_remaining :: nat

definition request_parser_init :: "nat \<Rightarrow> request_parser" where
  "request_parser_init max_bulk = \<lparr>rq_buf = [], rq_max_bulk = max_bulk, rq_pending = None, rq_remaining = 0\<rparr>"

definition rq_feed :: "bytes \<Rightarrow> request_parser \<Rightarrow> request_parser" where
  "rq_feed data p = p\<lparr>rq_buf := rq_buf p @ data\<rparr>"

definition check_line_length :: "request_parser \<Rightarrow> kverror + unit" where
  "check_line_length p =
     (if length (rq_buf p) > MAX_INLINE then Inl (err ProtocolError ''too big request line'') else Inr ())"

text \<open>A line that has not arrived yet.\<close>

definition need_more :: "request_parser \<Rightarrow> (kverror + str list option) \<times> request_parser" where
  "need_more p = (case check_line_length p of Inl e \<Rightarrow> (Inl e, p) | Inr _ \<Rightarrow> (Inr None, p))"

text \<open>\<open>bytes.split()\<close>: the words between runs of white space.\<close>

function split_words :: "bytes \<Rightarrow> bytes list" where
  "split_words bs =
     (case dropWhile is_space_byte bs of
        [] \<Rightarrow> []
      | b # rest \<Rightarrow> (b # takeWhile (\<lambda>c. \<not> is_space_byte c) rest) # split_words (dropWhile (\<lambda>c. \<not> is_space_byte c) rest))"
  by pat_completeness auto
termination
proof (relation "measure length")
  fix bs b rest assume "dropWhile is_space_byte bs = b # rest"
  then have "length rest < length bs" by (metis length_Cons length_dropWhile_le less_eq_Suc_le)
  then show "(dropWhile (\<lambda>c. \<not> is_space_byte c) rest, bs) \<in> measure length"
    using length_dropWhile_le [of "\<lambda>c. \<not> is_space_byte c" rest] by simp
qed simp

declare split_words.simps [simp del]

definition rstrip_cr :: "bytes \<Rightarrow> bytes" where
  "rstrip_cr bs = rev (dropWhile (\<lambda>b. b = 13) (rev bs))"

definition parse_inline :: "request_parser \<Rightarrow> (kverror + str list option) \<times> request_parser" where
  "parse_inline p =
     (case find_lf (rq_buf p) of
        None \<Rightarrow> need_more p
      | Some (line, rest) \<Rightarrow>
          (Inr (Some (map to_str (split_words (rstrip_cr line)))), p\<lparr>rq_buf := rest\<rparr>))"

text \<open>\<open>expected '$', got '<c>'\<close>, where \<open>chr\<close> of the byte is its Latin-1 character.\<close>

definition expected_dollar :: "nat \<Rightarrow> kverror" where
  "expected_dollar b =
     mk_error ProtocolError (lit ''expected '' @ [39, 36, 39] @ lit '', got '' @ [39, b, 39]) None"

text \<open>
  The \<open>while self._remaining\<close> loop: one bulk string per round; it stops at a string that has not
  arrived completely, and finishes the command when none remains.
\<close>

fun read_bulks :: "nat \<Rightarrow> str list \<Rightarrow> request_parser \<Rightarrow> (kverror + str list option) \<times> request_parser" where
  "read_bulks 0 got p = (Inr (Some got), p\<lparr>rq_pending := None, rq_remaining := 0\<rparr>)"
| "read_bulks (Suc n) got p0 =
     (let p = p0\<lparr>rq_pending := Some got, rq_remaining := Suc n\<rparr> in
      case rq_buf p of
        [] \<Rightarrow> (Inr None, p)
      | b # after \<Rightarrow>
          if b \<noteq> 36 then (Inl (expected_dollar b), p)
          else (case find_crlf after of
            None \<Rightarrow> need_more p
          | Some (line, rest) \<Rightarrow>
              (case parse_int line ''invalid bulk length'' of
                 Inl e \<Rightarrow> (Inl e, p)
               | Inr sz \<Rightarrow>
                   if sz < 0 \<or> int (rq_max_bulk p) < sz
                   then (Inl (err ProtocolError ''invalid bulk length''), p)
                   else if length rest < nat sz + 2 then (Inr None, p)
                   else if take 2 (drop (nat sz) rest) \<noteq> CRLF
                   then (Inl (err ProtocolError ''invalid bulk string terminator''), p)
                   else read_bulks n (got @ [to_str (take (nat sz) rest)]) (p\<lparr>rq_buf := drop (nat sz + 2) rest\<rparr>))))"

definition next_command :: "request_parser \<Rightarrow> (kverror + str list option) \<times> request_parser" where
  "next_command p =
     (case rq_pending p of
        Some got \<Rightarrow> read_bulks (rq_remaining p) got p
      | None \<Rightarrow>
          (case rq_buf p of
             [] \<Rightarrow> (Inr None, p)
           | b # after \<Rightarrow>
               if b \<noteq> 42 then parse_inline p
               else (case find_crlf after of
                 None \<Rightarrow> need_more p
               | Some (line, rest) \<Rightarrow>
                   (case parse_int line ''invalid multibulk length'' of
                      Inl e \<Rightarrow> (Inl e, p)
                    | Inr cnt \<Rightarrow>
                        if cnt \<le> 0 then (Inr (Some []), p\<lparr>rq_buf := rest\<rparr>)
                        else if cnt > MAX_ARRAY
                             then (Inl (err ProtocolError ''invalid multibulk length''), p\<lparr>rq_buf := rest\<rparr>)
                             else read_bulks (nat cnt) [] (p\<lparr>rq_buf := rest\<rparr>)))))"

section \<open>Replies\<close>

text \<open>
  \<open>ReplyParser._parse\<close> on the unread bytes.  \<open>NotReady\<close> is the constant of the source, and
  \<open>Parsed v rest\<close> a value and the bytes after it.  Arrays nest; each level reads at least one line,
  so the number of unread bytes is enough fuel (\<open>parse_reply_fuel\<close>).
\<close>

datatype 'a parsed = NotReady | Malformed kverror | Parsed 'a bytes

text \<open>\<open>repr(chr(b))\<close> of a byte.\<close>

definition hex_digit :: "nat \<Rightarrow> nat" where
  "hex_digit d = (if d < 10 then 48 + d else 87 + d)"

definition chr_repr :: "nat \<Rightarrow> str" where
  "chr_repr b =
     (if b = 39 then [34, 39, 34]
      else [39] @
        (if b = 92 then [92, 92]
         else if b = 9 then [92, 116]
         else if b = 10 then [92, 110]
         else if b = 13 then [92, 114]
         else if b < 32 \<or> 127 \<le> b \<and> b \<le> 160 \<or> b = 173 then [92, 120, hex_digit (b div 16), hex_digit (b mod 16)]
         else [b]) @ [39])"

definition unexpected_reply :: "nat \<Rightarrow> kverror" where
  "unexpected_reply b = mk_error ProtocolError (lit ''unexpected reply type byte '' @ chr_repr b) None"

fun parse_reply :: "nat \<Rightarrow> bytes \<Rightarrow> reply parsed"
  and parse_items :: "nat \<Rightarrow> nat \<Rightarrow> bytes \<Rightarrow> reply list parsed" where
  "parse_reply 0 buf = NotReady"
| "parse_reply (Suc fuel) buf =
     (case find_crlf buf of
        None \<Rightarrow> NotReady
      | Some (l, after) \<Rightarrow>
          (case l of
             [] \<Rightarrow> Malformed (unexpected_reply 13)
           | kind # line \<Rightarrow>
               if kind = 43 then Parsed (RSimple (to_str line)) after
               else if kind = 45 then Parsed (RError (from_resp (to_str line))) after
               else if kind = 58 then
                 (case parse_int line ''invalid integer reply'' of
                    Inl e \<Rightarrow> Malformed e | Inr n \<Rightarrow> Parsed (RInt n) after)
               else if kind = 36 then
                 (case parse_int line ''invalid bulk length'' of
                    Inl e \<Rightarrow> Malformed e
                  | Inr sz \<Rightarrow>
                      if sz < 0 then Parsed RNil after
                      else if length after < nat sz + 2 then NotReady
                      else Parsed (RBulk (to_str (take (nat sz) after))) (drop (nat sz + 2) after))
               else if kind = 42 then
                 (case parse_int line ''invalid multibulk length'' of
                    Inl e \<Rightarrow> Malformed e
                  | Inr cnt \<Rightarrow>
                      if cnt < 0 then Parsed RNil after
                      else (case parse_items fuel (nat cnt) after of
                              NotReady \<Rightarrow> NotReady
                            | Malformed e \<Rightarrow> Malformed e
                            | Parsed rs rest \<Rightarrow> Parsed (RArray rs) rest))
               else Malformed (unexpected_reply kind)))"
| "parse_items fuel 0 buf = Parsed [] buf"
| "parse_items fuel (Suc n) buf =
     (case parse_reply fuel buf of
        NotReady \<Rightarrow> NotReady
      | Malformed e \<Rightarrow> Malformed e
      | Parsed r rest \<Rightarrow>
          (case parse_items fuel n rest of
             NotReady \<Rightarrow> NotReady
           | Malformed e \<Rightarrow> Malformed e
           | Parsed rs rest' \<Rightarrow> Parsed (r # rs) rest'))"

text \<open>\<open>next_reply\<close> on the unread bytes: the outcome and the bytes left.\<close>

definition next_reply :: "bytes \<Rightarrow> reply parsed \<times> bytes" where
  "next_reply buf =
     (case parse_reply (Suc (length buf)) buf of
        Parsed r rest \<Rightarrow> (Parsed r rest, rest)
      | other \<Rightarrow> (other, buf))"

end
