(* ===== verification/Resp_Stream.thy ===== *)
theory Resp_Stream
  imports Resp
begin

text \<open>
  The request parser against the encoder: whatever pieces the network cuts a stream of encoded
  commands into, the parser delivers exactly these commands, asks for more data exactly when a
  command is incomplete, and never reports an error.
\<close>

section \<open>Lines\<close>

lemma find_crlf_line: "13 \<notin> set l \<Longrightarrow> find_crlf (l @ CRLF @ r) = Some (l, r)"
  by (induction l) (auto simp: CRLF_def)

lemma find_crlf_none: "13 \<notin> set l \<Longrightarrow> find_crlf l = None" "13 \<notin> set l \<Longrightarrow> find_crlf (l @ [13]) = None"
  by (induction l) auto

text \<open>A piece of a stream that starts with a line has the whole line or sees none.\<close>

lemma line_cases:
  assumes "piece @ fut = l @ CRLF @ rest" "13 \<notin> set l"
  obtains (whole) r where "piece = l @ CRLF @ r" "r @ fut = rest" "find_crlf piece = Some (l, r)"
  | (part) "find_crlf piece = None" "length piece < length l + 2" "fut \<noteq> []"
proof (cases "length l + 2 \<le> length piece")
  case True
  have "take (length l + 2) piece = l @ CRLF" "drop (length l + 2) piece @ fut = rest"
    using arg_cong [OF assms(1), of "take (length l + 2)"] arg_cong [OF assms(1), of "drop (length l + 2)"] True
    by (simp_all add: CRLF_def)
  then have "piece = l @ CRLF @ drop (length l + 2) piece" by (metis append.assoc append_take_drop_id)
  then show thesis using whole [of "drop (length l + 2) piece"] find_crlf_line [OF assms(2)]
      \<open>drop (length l + 2) piece @ fut = rest\<close> by metis
next
  case False
  have p: "piece = take (length piece) (l @ CRLF)"
  proof -
    have "take (length piece) (piece @ fut) = take (length piece) ((l @ CRLF) @ rest)" using assms(1) by simp
    then show ?thesis using False by (simp only: take_append) (simp add: CRLF_def)
  qed
  have "find_crlf piece = None"
  proof (cases "length piece \<le> length l")
    case True
    then have "13 \<notin> set piece" using p assms(2) by (metis append_eq_conv_conj in_set_takeD take_append diff_is_0_eq take0 append_Nil2)
    then show ?thesis by (rule find_crlf_none)
  next
    case longer: False
    then have "length piece = Suc (length l)" using False by simp
    then have "piece = l @ [13]" using p by (simp add: CRLF_def)
    then show ?thesis using find_crlf_none assms(2) by simp
  qed
  moreover have "fut \<noteq> []" using False arg_cong [OF assms(1), of length] by (auto simp: CRLF_def)
  ultimately show thesis using part False by simp
qed

lemma nat_text_no_cr: "13 \<notin> set (nat_text n)"
  using nat_text_range [of 13 n] by auto

lemma bytes_int_text:
  assumes "n < 10 ^ 18"
  shows "bytes_int (nat_text n) = Some (int n)"
proof -
  have digit: "\<not> is_space_byte c" if "c \<in> set (nat_text n)" for c
    using nat_text_range [OF that] by (simp add: is_space_byte_def)
  have "strip_bytes (nat_text n) = nat_text n"
    using digit [of "hd (nat_text n)"] digit [of "last (nat_text n)"]
    by (simp add: strip_bytes_def dropWhile_eq_self_iff [THEN iffD2] hd_rev)
  moreover have "scan_digits (nat_text n) = Some (nat_digits n)"
    by (simp only: nat_text_digits) (rule scan_digits_ascii, auto dest: nat_digits_small)
  moreover have "length (nat_digits n) \<le> 18" using length_nat_digits [OF assms] by simp
  ultimately show ?thesis by (simp add: bytes_int_def scan_sign_digits digits_num_nat_digits)
qed

lemma length_nat_text: "n < 10 ^ 18 \<Longrightarrow> length (nat_text n) \<le> 18"
  using length_nat_digits [of n 18] by (simp add: nat_text_digits)

section \<open>Commands\<close>

definition bulks :: "bytes list \<Rightarrow> bytes" where
  "bulks ws = concat (map bulk ws)"

lemma bulks_simps [simp]: "bulks [] = []" "bulks (w # ws) = bulk w @ bulks ws"
  by (simp_all add: bulks_def)

lemma encode_words:
  "(\<And>w. w \<in> set ws \<Longrightarrow> bytes_ok w) \<Longrightarrow>
   encode_command (map (\<lambda>w. SArg (to_str w)) ws) = Some (42 # nat_text (length ws) @ CRLF @ bulks ws)"
proof -
  assume "\<And>w. w \<in> set ws \<Longrightarrow> bytes_ok w"
  then have "encode_bulks (map (\<lambda>w. SArg (to_str w)) ws) = Some (bulks ws)"
    by (induction ws) (simp_all add: to_bytes_to_str)
  then show ?thesis by (simp add: encode_command_def)
qed

definition small_words :: "nat \<Rightarrow> bytes list \<Rightarrow> bool" where
  "small_words limit ws \<longleftrightarrow> limit < 10 ^ 18 \<and> (\<forall>w \<in> set ws. length w \<le> limit)"

text \<open>The parser inside a command: the words still to come start the unread bytes.\<close>

definition reading :: "bytes list \<Rightarrow> nat \<Rightarrow> bytes \<Rightarrow> bytes \<Rightarrow> request_parser \<Rightarrow> bool" where
  "reading ws k tail fut p \<longleftrightarrow> k < length ws \<and> rq_pending p = Some (map to_str (take k ws))
     \<and> rq_remaining p = length ws - k \<and> rq_buf p @ fut = bulks (drop k ws) @ tail"

definition idle :: "bytes \<Rightarrow> bytes \<Rightarrow> request_parser \<Rightarrow> bool" where
  "idle stream fut p \<longleftrightarrow> rq_pending p = None \<and> rq_buf p @ fut = stream"

lemma need_more_short: "length (rq_buf p) \<le> 65536 \<Longrightarrow> need_more p = (Inr None, p)"
  by (simp add: need_more_def check_line_length_def MAX_INLINE_def)

text \<open>One bulk string: it is read when its bytes are there; otherwise nothing happens.\<close>

lemma read_bulk_step:
  assumes st: "rq_buf p @ fut = bulk w @ rest" and lim: "length w \<le> rq_max_bulk p" "rq_max_bulk p < 10 ^ 18"
  shows "(\<exists>r. rq_buf p = bulk w @ r \<and> r @ fut = rest
      \<and> read_bulks (Suc n) got p = read_bulks n (got @ [to_str w]) (p\<lparr>rq_pending := Some got, rq_remaining := Suc n, rq_buf := r\<rparr>))
    \<or> fut \<noteq> [] \<and> read_bulks (Suc n) got p = (Inr None, p\<lparr>rq_pending := Some got, rq_remaining := Suc n\<rparr>)"
proof (cases "rq_buf p")
  case Nil
  moreover from this st have "fut \<noteq> []" by (auto simp: bulk_def)
  ultimately show ?thesis by simp
next
  case (Cons b piece)
  let ?l = "nat_text (length w)"
  have b: "b = 36" and line: "piece @ fut = ?l @ CRLF @ (w @ CRLF @ rest)" using st Cons by (simp_all add: bulk_def)
  have len: "length w < 10 ^ 18" using lim by simp
  from line nat_text_no_cr show ?thesis
  proof (cases rule: line_cases)
    case part
    have "length (rq_buf p) \<le> 65536" using part(2) length_nat_text [OF len] Cons by simp
    then show ?thesis using part b Cons need_more_short by simp
  next
    case (whole r)
    show ?thesis
    proof (cases "length r < length w + 2")
      case True
      then have "fut \<noteq> []" using arg_cong [OF whole(2), of length] by (auto simp: CRLF_def)
      then show ?thesis using True whole(3) b Cons lim bytes_int_text [OF len] by (simp add: parse_int_def)
    next
      case False
      have w: "take (length w + 2) r = w @ CRLF" "drop (length w + 2) r @ fut = rest"
        using arg_cong [OF whole(2), of "take (length w + 2)"] arg_cong [OF whole(2), of "drop (length w + 2)"] False
        by (simp_all add: CRLF_def)
      define r' where "r' = drop (length w + 2) r"
      have r: "r = w @ CRLF @ r'" using w(1) append_take_drop_id [of "length w + 2" r] by (simp add: r'_def)
      have "read_bulks (Suc n) got p = read_bulks n (got @ [to_str w]) (p\<lparr>rq_pending := Some got, rq_remaining := Suc n, rq_buf := r'\<rparr>)"
      proof -
        have e: "take (length w) r = w" "take 2 (drop (length w) r) = CRLF" "drop (length w + 2) r = r'" "\<not> length r < length w + 2"
          by (simp_all add: r CRLF_def)
        show ?thesis
          using b Cons whole(3) lim bytes_int_text [OF len] e by (simp add: parse_int_def)
      qed
      then show ?thesis using w(2) [folded r'_def] Cons b whole(1) r by (intro disjI1 exI [of _ r']) (simp add: bulk_def)
    qed
  qed
qed

lemma read_bulks_stream:
  assumes "small_words (rq_max_bulk p) ws" "k \<le> length ws" "rq_buf p @ fut = bulks (drop k ws) @ tail"
  shows "case read_bulks (length ws - k) (map to_str (take k ws)) p of
      (Inl _, _) \<Rightarrow> False
    | (Inr None, p') \<Rightarrow> fut \<noteq> [] \<and> (\<exists>k'. reading ws k' tail fut p') \<and> rq_max_bulk p' = rq_max_bulk p
    | (Inr (Some c), p') \<Rightarrow> c = map to_str ws \<and> idle tail fut p' \<and> rq_max_bulk p' = rq_max_bulk p"
  using assms
proof (induction "length ws - k" arbitrary: k p)
  case 0
  then have "k = length ws" by simp
  then show ?case using 0 by (simp add: idle_def)
next
  case (Suc n)
  then have k: "k < length ws" "length ws - Suc k = n" by simp_all
  have dr: "drop k ws = ws ! k # drop (Suc k) ws" using k by (simp add: Cons_nth_drop_Suc)
  have tk: "map to_str (take k ws) @ [to_str (ws ! k)] = map to_str (take (Suc k) ws)"
    using k by (simp add: take_Suc_conv_app_nth)
  have st: "rq_buf p @ fut = bulk (ws ! k) @ (bulks (drop (Suc k) ws) @ tail)" using Suc.prems(3) dr by simp
  have lim: "length (ws ! k) \<le> rq_max_bulk p" "rq_max_bulk p < 10 ^ 18" using Suc.prems(1) k by (auto simp: small_words_def)
  let ?got = "map to_str (take k ws)"
  consider (read) r where "r @ fut = bulks (drop (Suc k) ws) @ tail"
      "read_bulks (Suc n) ?got p = read_bulks n (map to_str (take (Suc k) ws))
        (p\<lparr>rq_pending := Some ?got, rq_remaining := Suc n, rq_buf := r\<rparr>)"
    | (more) "fut \<noteq> []" "read_bulks (Suc n) ?got p = (Inr None, p\<lparr>rq_pending := Some ?got, rq_remaining := Suc n\<rparr>)"
    using read_bulk_step [OF st lim, of n ?got] tk by metis
  then show ?case
  proof cases
    case read
    define p1 where "p1 = p\<lparr>rq_pending := Some ?got, rq_remaining := Suc n, rq_buf := r\<rparr>"
    have p1: "rq_max_bulk p1 = rq_max_bulk p" "rq_buf p1 = r" by (simp_all add: p1_def)
    have "read_bulks (length ws - k) ?got p = read_bulks (length ws - Suc k) (map to_str (take (Suc k) ws)) p1"
      using read(2) k(2) Suc.hyps(2) by (simp add: p1_def)
    then show ?thesis
      using Suc.hyps(1) [of "Suc k" p1, unfolded p1] Suc.prems(1) read(1) k by simp
  next
    case more
    then have "reading ws k tail fut (p\<lparr>rq_pending := Some ?got, rq_remaining := Suc n\<rparr>)"
      using k Suc.hyps(2) Suc.prems(3) by (simp add: reading_def)
    then show ?thesis using more Suc.hyps(2) by auto
  qed
qed

definition encoded :: "bytes list \<Rightarrow> bytes" where
  "encoded ws = 42 # nat_text (length ws) @ CRLF @ bulks ws"

definition command_ok :: "nat \<Rightarrow> bytes list \<Rightarrow> bool" where
  "command_ok limit ws \<longleftrightarrow> small_words limit ws \<and> 0 < length ws \<and> int (length ws) \<le> MAX_ARRAY"

text \<open>The parser at the start of a command, or inside it.\<close>

definition expects :: "bytes list \<Rightarrow> bytes \<Rightarrow> bytes \<Rightarrow> request_parser \<Rightarrow> bool" where
  "expects ws tail fut p \<longleftrightarrow> idle (encoded ws @ tail) fut p \<or> (\<exists>k. reading ws k tail fut p)"

lemma next_command_stream:
  assumes ok: "command_ok (rq_max_bulk p) ws" and st: "expects ws tail fut p"
  shows "case next_command p of
      (Inl _, _) \<Rightarrow> False
    | (Inr None, p') \<Rightarrow> fut \<noteq> [] \<and> expects ws tail fut p' \<and> rq_max_bulk p' = rq_max_bulk p
    | (Inr (Some c), p') \<Rightarrow> c = map to_str ws \<and> idle tail fut p' \<and> rq_max_bulk p' = rq_max_bulk p"
proof -
  have sm: "small_words (rq_max_bulk p) ws" using ok by (simp add: command_ok_def)
  consider (idle) "idle (encoded ws @ tail) fut p" | (reading) k where "reading ws k tail fut p"
    using st by (auto simp: expects_def)
  then show ?thesis
  proof cases
    case reading
    then show ?thesis
      using read_bulks_stream [OF sm, of k fut tail]
      by (auto simp: reading_def next_command_def expects_def split: sum.splits option.splits prod.splits)
  next
    case idle
    then have pend: "rq_pending p = None" and st: "rq_buf p @ fut = encoded ws @ tail" by (simp_all add: idle_def)
    show ?thesis
    proof (cases "rq_buf p")
      case Nil
      then have "fut \<noteq> []" using st by (auto simp: encoded_def)
      then show ?thesis using Nil pend idle by (simp add: next_command_def expects_def)
    next
      case (Cons b piece)
      have b: "b = 42" and line: "piece @ fut = nat_text (length ws) @ CRLF @ (bulks ws @ tail)"
        using st Cons by (simp_all add: encoded_def)
      have len: "length ws < 10 ^ 18" using ok by (simp add: command_ok_def MAX_ARRAY_def)
      from line nat_text_no_cr show ?thesis
      proof (cases rule: line_cases)
        case part
        have "length (rq_buf p) \<le> 65536" using part(2) length_nat_text [OF len] Cons by simp
        then show ?thesis using part b Cons pend idle need_more_short by (simp add: next_command_def expects_def)
      next
        case (whole r)
        have "next_command p = read_bulks (length ws) [] (p\<lparr>rq_buf := r\<rparr>)"
          using pend Cons b whole(3) ok bytes_int_text [OF len] by (simp add: next_command_def parse_int_def command_ok_def)
        then show ?thesis
          using read_bulks_stream [of "p\<lparr>rq_buf := r\<rparr>" ws 0 fut tail] sm whole(2)
          by (auto simp: expects_def split: sum.splits option.splits prod.splits)
      qed
    qed
  qed
qed

section \<open>A connection\<close>

lemma find_crlf_shorter: "find_crlf bs = Some (l, r) \<Longrightarrow> length r + 2 \<le> length bs"
proof (induction bs arbitrary: l)
  case (Cons b bs)
  show ?case
  proof (cases "b = 13 \<and> take 1 bs = [10]")
    case True
    then have "bs \<noteq> []" by auto
    then show ?thesis using Cons.prems True by (cases bs) auto
  next
    case False
    then obtain l' where "find_crlf bs = Some (l', r)" using Cons.prems by (auto split: if_splits)
    then show ?thesis using Cons.IH [of l'] by simp
  qed
qed simp

lemma find_lf_shorter: "find_lf bs = Some (l, r) \<Longrightarrow> length r < length bs"
  by (induction bs arbitrary: l) (fastforce split: if_splits)+

lemma read_bulks_progress:
  "read_bulks n got p = (Inr (Some c), p') \<Longrightarrow> length (rq_buf p') \<le> length (rq_buf p) \<and> rq_pending p' = None"
proof (induction n arbitrary: got p)
  case (Suc n)
  from Suc.prems obtain after line rest sz where
    b: "rq_buf p = 36 # after" "find_crlf after = Some (line, rest)"
    and r: "read_bulks n (got @ [to_str (take (nat sz) rest)])
      (p\<lparr>rq_pending := Some got, rq_remaining := Suc n, rq_buf := drop (nat sz + 2) rest\<rparr>) = (Inr (Some c), p')"
    by (auto simp: Let_def need_more_def check_line_length_def split: list.splits if_splits option.splits sum.splits)
  show ?case using Suc.IH [OF r] b(1) find_crlf_shorter [OF b(2)] by auto
qed auto

lemma next_command_progress:
  assumes "next_command p = (Inr (Some c), p')"
  shows "2 * length (rq_buf p') + (if rq_pending p' = None then 0 else 1)
    < 2 * length (rq_buf p) + (if rq_pending p = None then 0 else (1 :: nat))"
proof (cases "rq_pending p")
  case (Some got)
  then show ?thesis using assms read_bulks_progress [of "rq_remaining p" got p c p'] by (simp add: next_command_def)
next
  case None
  then obtain b after where b: "rq_buf p = b # after" using assms by (cases "rq_buf p") (simp_all add: next_command_def)
  show ?thesis
  proof (cases "b = 42")
    case False
    then obtain line rest where "find_lf (rq_buf p) = Some (line, rest)" "p' = p\<lparr>rq_buf := rest\<rparr>"
      using assms None b
      by (auto simp: next_command_def parse_inline_def need_more_def check_line_length_def split: option.splits if_splits)
    then show ?thesis using find_lf_shorter None by simp
  next
    case True
    then obtain line rest where f: "find_crlf after = Some (line, rest)"
      using assms None b by (cases "find_crlf after") (auto simp: next_command_def need_more_def check_line_length_def split: if_splits)
    then have "length (rq_buf p') \<le> length rest \<and> rq_pending p' = None"
      using assms None b True read_bulks_progress [of _ "[]" "p\<lparr>rq_buf := rest\<rparr>" c p']
      by (auto simp: next_command_def split: sum.splits if_splits)
    then show ?thesis using find_crlf_shorter [OF f] b None by simp
  qed
qed

text \<open>
  \<open>TCPServer._drain\<close>: every complete command received so far, the reply that ends the batch (the
  protocol error or the OK of \<open>QUIT\<close>, encoded when it is written), and whether to hang up.
\<close>

function drain :: "request_parser \<Rightarrow> str list list \<times> reply list \<times> bool \<times> request_parser" where
  "drain p =
     (case next_command p of
        (Inl e, p') \<Rightarrow> ([], [RError e], True, p')
      | (Inr None, p') \<Rightarrow> ([], [], False, p')
      | (Inr (Some command), p') \<Rightarrow>
          if command = [] then drain p'
          else if py_upper (hd command) = lit ''QUIT'' then ([], [OK], True, p')
          else (case drain p' of (commands, trailer, close, p'') \<Rightarrow> (command # commands, trailer, close, p'')))"
  by pat_completeness auto
termination
  by (relation "measure (\<lambda>p. 2 * length (rq_buf p) + (if rq_pending p = None then 0 else 1))")
    (auto dest!: sym [of _ "next_command _"] next_command_progress)

declare drain.simps [simp del]

text \<open>The reading side of \<open>_serve_client\<close>: the pieces as \<open>reader.read\<close> returns them.\<close>

fun receive :: "bytes list \<Rightarrow> request_parser \<Rightarrow> str list list \<times> reply list \<times> bool" where
  "receive [] p = ([], [], False)"
| "receive (data # pieces) p =
     (case drain (rq_feed data p) of (commands, trailer, close, p') \<Rightarrow>
        if close then (commands, trailer, True)
        else case receive pieces p' of (commands', trailer', close') \<Rightarrow> (commands @ commands', trailer @ trailer', close'))"

text \<open>The bytes of a sequence of commands, and the parser somewhere in it.\<close>

definition stream :: "bytes list list \<Rightarrow> bytes" where
  "stream cs = concat (map encoded cs)"

definition between :: "bytes list list \<Rightarrow> bytes \<Rightarrow> request_parser \<Rightarrow> bool" where
  "between cs fut p \<longleftrightarrow> (case cs of [] \<Rightarrow> idle [] fut p | ws # cs' \<Rightarrow> expects ws (stream cs') fut p)"

lemma idle_between: "idle (stream cs) fut p \<Longrightarrow> between cs fut p"
  by (cases cs) (simp_all add: between_def expects_def stream_def)

definition commands_ok :: "nat \<Rightarrow> bytes list list \<Rightarrow> bool" where
  "commands_ok limit cs \<longleftrightarrow> (\<forall>ws \<in> set cs. command_ok limit ws \<and> py_upper (to_str (hd ws)) \<noteq> lit ''QUIT'')"

lemma drain_between:
  assumes "commands_ok (rq_max_bulk p) cs" "between cs fut p"
  shows "\<exists>k p'. drain p = (map (map to_str) (take k cs), [], False, p') \<and> between (drop k cs) fut p'
    \<and> rq_max_bulk p' = rq_max_bulk p \<and> (fut = [] \<longrightarrow> drop k cs = [])"
  using assms
proof (induction cs arbitrary: p)
  case Nil
  then have "rq_pending p = None" "rq_buf p = []" by (auto simp: between_def idle_def)
  then have "drain p = ([], [], False, p)" by (simp add: drain.simps [of p] next_command_def)
  then show ?case using Nil by (auto intro!: exI [of _ "0::nat"])
next
  case (Cons ws cs)
  have ok: "command_ok (rq_max_bulk p) ws" "py_upper (to_str (hd ws)) \<noteq> lit ''QUIT''" "commands_ok (rq_max_bulk p) cs"
    using Cons.prems(1) by (simp_all add: commands_ok_def)
  have ne: "ws \<noteq> []" using ok(1) by (auto simp: command_ok_def)
  have ex: "expects ws (stream cs) fut p" using Cons.prems(2) by (simp add: between_def)
  obtain res p1 where nc: "next_command p = (res, p1)" by force
  note step = next_command_stream [OF ok(1) ex, unfolded nc prod.case]
  consider (more) "res = Inr None" | (got) "res = Inr (Some (map to_str ws))"
    using step by (auto split: sum.splits option.splits)
  then show ?case
  proof cases
    case more
    then have "drain p = ([], [], False, p1)" by (simp add: drain.simps [of p] nc)
    moreover have "between (ws # cs) fut p1" "rq_max_bulk p1 = rq_max_bulk p" "fut \<noteq> []"
      using step more by (simp_all add: between_def)
    ultimately show ?thesis by (intro exI [of _ 0] exI [of _ p1]) simp
  next
    case got
    then have p1: "idle (stream cs) fut p1" "rq_max_bulk p1 = rq_max_bulk p" using step by simp_all
    obtain k p2 where "drain p1 = (map (map to_str) (take k cs), [], False, p2)" "between (drop k cs) fut p2"
      "rq_max_bulk p2 = rq_max_bulk p" "fut = [] \<longrightarrow> drop k cs = []"
      using Cons.IH [of p1] ok(3) idle_between [OF p1(1)] p1(2) by auto
    moreover from this have "drain p = (map to_str ws # map (map to_str) (take k cs), [], False, p2)"
      using got ne ok(2) by (simp add: drain.simps [of p] nc hd_map)
    ultimately show ?thesis by (intro exI [of _ "Suc k"] exI [of _ p2]) simp
  qed
qed

lemma feed_between: "between cs (data @ fut) p \<Longrightarrow> between cs fut (rq_feed data p)"
  by (cases cs) (auto simp: between_def expects_def idle_def reading_def rq_feed_def)

lemma receive_between:
  assumes "commands_ok (rq_max_bulk p) cs" "between cs (concat pieces) p" "pieces \<noteq> [] \<or> cs = []"
  shows "receive pieces p = (map (map to_str) cs, [], False)"
  using assms
proof (induction pieces arbitrary: cs p)
  case (Cons data pieces)
  have "between cs (concat pieces) (rq_feed data p)" using Cons.prems(2) by (intro feed_between) simp
  moreover have m: "rq_max_bulk (rq_feed data p) = rq_max_bulk p" by (simp add: rq_feed_def)
  ultimately obtain k p' where d: "drain (rq_feed data p) = (map (map to_str) (take k cs), [], False, p')"
      "between (drop k cs) (concat pieces) p'" "rq_max_bulk p' = rq_max_bulk p" "concat pieces = [] \<longrightarrow> drop k cs = []"
    using drain_between [of "rq_feed data p" cs "concat pieces"] Cons.prems(1) by metis
  have "commands_ok (rq_max_bulk p') (drop k cs)" using Cons.prems(1) d(3) by (auto simp: commands_ok_def dest: in_set_dropD)
  moreover have "pieces \<noteq> [] \<or> drop k cs = []" using d(4) by auto
  ultimately have "receive pieces p' = (map (map to_str) (drop k cs), [], False)" using Cons.IH d(2) by blast
  then show ?case using d(1) by (simp add: map_append [symmetric])
qed simp

text \<open>
  A command a client may send: at least one word (and not QUIT, which ends the connection), every
  word text that is bytes on the wire, within the limits.
\<close>

definition sendable :: "nat \<Rightarrow> str list \<Rightarrow> bool" where
  "sendable limit c \<longleftrightarrow> c \<noteq> [] \<and> int (length c) \<le> MAX_ARRAY \<and> py_upper (hd c) \<noteq> lit ''QUIT''
     \<and> (\<forall>w \<in> set c. wire_text w \<and> length (the (to_bytes w)) \<le> limit)"

lemma sendable_words:
  assumes "limit < 10 ^ 18" "sendable limit c"
  defines "ws \<equiv> map (\<lambda>w. the (to_bytes w)) c"
  shows "command_ok limit ws" "map to_str ws = c" "encode_command (map SArg c) = Some (encoded ws)" "hd (map to_str ws) = hd c"
proof -
  have w: "to_str (the (to_bytes w)) = w" "bytes_ok (the (to_bytes w))" if "w \<in> set c" for w
    using assms(2) that by (auto simp: sendable_def wire_text_def to_bytes_ok)
  show map: "map to_str ws = c" using w by (simp add: ws_def map_idI)
  then show "hd (map to_str ws) = hd c" by simp
  show "command_ok limit ws" using assms by (auto simp: command_ok_def small_words_def sendable_def ws_def)
  have "encode_command (map (\<lambda>w. SArg (to_str w)) ws) = Some (encoded ws)"
    unfolding encoded_def using w by (intro encode_words) (auto simp: ws_def)
  moreover have "map (\<lambda>w. SArg (to_str w)) ws = map SArg (map to_str ws)" by simp
  ultimately show "encode_command (map SArg c) = Some (encoded ws)" by (simp only: map)
qed

text \<open>
  C37.  A client that sends any sequence of encoded commands, cut into pieces anywhere by the
  network, has exactly these commands delivered, in order and word by word; no error is
  reported, nothing is lost, and the connection stays open.
\<close>

theorem request_stream_roundtrip:
  assumes "max_bulk < 10 ^ 18" "\<And>c. c \<in> set cs \<Longrightarrow> sendable max_bulk c"
    "map (\<lambda>c. encode_command (map SArg c)) cs = map Some es" "concat pieces = concat es"
  shows "receive pieces (request_parser_init max_bulk) = (cs, [], False)"
proof -
  define bs where "bs = map (map (\<lambda>w. the (to_bytes w))) cs"
  have ok: "command_ok max_bulk ws \<and> py_upper (to_str (hd ws)) \<noteq> lit ''QUIT''" if "ws \<in> set bs" for ws
  proof -
    from that obtain c where c: "c \<in> set cs" "ws = map (\<lambda>w. the (to_bytes w)) c" by (auto simp: bs_def)
    note sw = sendable_words [OF assms(1) assms(2) [OF c(1)], folded c(2)]
    have "ws \<noteq> []" using assms(2) [OF c(1)] c(2) by (simp add: sendable_def)
    then have "to_str (hd ws) = hd c" using sw(4) by (simp add: hd_map)
    then show ?thesis using sw(1) assms(2) [OF c(1)] by (simp add: sendable_def)
  qed
  have "map Some es = map (\<lambda>c. Some (encoded (map (\<lambda>w. the (to_bytes w)) c))) cs"
    using assms(2) sendable_words(3) [OF assms(1)] by (simp add: assms(3) [symmetric])
  then have "map Some es = map Some (map encoded bs)" by (simp add: bs_def)
  then have es: "es = map encoded bs" by (metis inj_Some inj_map_eq_map)
  have "receive pieces (request_parser_init max_bulk) = (map (map to_str) bs, [], False)"
  proof (rule receive_between)
    show "commands_ok (rq_max_bulk (request_parser_init max_bulk)) bs"
      using ok by (simp add: request_parser_init_def commands_ok_def)
    show "between bs (concat pieces) (request_parser_init max_bulk)"
      using assms(4) es by (intro idle_between) (simp add: idle_def request_parser_init_def stream_def)
    show "pieces \<noteq> [] \<or> bs = []"
      using assms(4) es by (cases bs) (auto simp: encoded_def)
  qed
  moreover have "map (map to_str) bs = cs"
    using sendable_words(2) [OF assms(1) assms(2)] by (simp add: bs_def map_idI)
  ultimately show ?thesis by simp
qed

theorem request_stream_roundtrip_witness:
  "receive [[42, 49, 13, 10, 36, 52], [13, 10, 80, 73, 78, 71, 13], [10]] (request_parser_init 1000) = ([[[80, 73, 78, 71]]], [], False)"
proof (rule request_stream_roundtrip)
  have w: "to_bytes [80, 73, 78, 71] = Some [80, 73, 78, 71]" "to_str [80, 73, 78, 71] = [80, 73, 78, 71]"
    by (simp_all add: enc_char_def to_str_ascii)
  show "sendable 1000 c" if "c \<in> set [[[80, 73, 78, 71]]]" for c
    using that w by (simp add: sendable_def wire_text_def MAX_ARRAY_def py_upper_def upper_char_def lit_def)
  show "map (\<lambda>c. encode_command (map SArg c)) [[[80, 73, 78, 71]]] =
      map Some [[42, 49, 13, 10, 36, 52, 13, 10, 80, 73, 78, 71, 13, 10]]"
    using w by (simp add: encode_command_def bulk_def CRLF_def nat_text.simps)
qed simp_all

end
