(* ===== verification/Aof.thy ===== *)
theory Aof
  imports Resp_Stream
begin

text \<open>
  \<open>engine/persistence/aof.py\<close>: the format of the append-only file and its replay.  A file is its
  bytes.  Records of format v3 (the one written) are modelled down to the byte; for the older
  formats, whose payload is JSON, the standard library's JSON decoder with the checks on its
  result is a parameter.
\<close>

section \<open>Records\<close>

definition hex8 :: "nat \<Rightarrow> bytes" where
  "hex8 n = map (\<lambda>i. hex_digit (n div 16 ^ (7 - i) mod 16)) [0..<8]"

definition frame_record :: "bytes \<Rightarrow> bytes" where
  "frame_record payload = 35 # hex8 (crc32 payload) @ 32 # nat_text (length payload) @ 10 # payload"

definition encode_record :: "str \<Rightarrow> arg list \<Rightarrow> bytes option" where
  "encode_record command args = map_option frame_record (encode_command (SArg command # args))"

text \<open>\<open>int(bytes, 16)\<close>: an optional sign and \<open>0x\<close>, hexadecimal digits, single underscores.\<close>

definition hex_value :: "nat \<Rightarrow> nat option" where
  "hex_value c =
     (if 48 \<le> c \<and> c \<le> 57 then Some (c - 48)
      else if 97 \<le> c \<and> c \<le> 102 then Some (c - 87)
      else if 65 \<le> c \<and> c \<le> 70 then Some (c - 55)
      else None)"

fun scan_hex :: "bytes \<Rightarrow> nat list option" where
  "scan_hex [] = None"
| "scan_hex (c # cs) =
     (case hex_value c of
        None \<Rightarrow> None
      | Some d \<Rightarrow>
          (case cs of
             [] \<Rightarrow> Some [d]
           | u # cs' \<Rightarrow> map_option (Cons d) (if u = 95 then scan_hex cs' else scan_hex cs)))"

definition hex_body :: "bytes \<Rightarrow> bytes" where
  "hex_body s =
     (if take 2 s = [48, 120] \<or> take 2 s = [48, 88]
      then (if take 1 (drop 2 s) = [95] then drop 3 s else drop 2 s)
      else s)"

definition bytes_hex :: "bytes \<Rightarrow> int option" where
  "bytes_hex s =
     (case scan_sign (strip_bytes s) of (neg, body) \<Rightarrow>
        map_option (\<lambda>ds. let n = int (foldl (\<lambda>a d. 16 * a + d) 0 ds) in if neg then - n else n)
          (scan_hex (hex_body body)))"

text \<open>\<open>_v3_header\<close>; \<open>None\<close> is \<open>ValueError("malformed record header")\<close>.\<close>

definition v3_header :: "bytes \<Rightarrow> (int \<times> int) option" where
  "v3_header line =
     (case split_words (drop 1 line) of
        [crc, len] \<Rightarrow>
          (case (bytes_hex crc, bytes_int len) of (Some c, Some n) \<Rightarrow> Some (c, n) | _ \<Rightarrow> None)
      | _ \<Rightarrow> None)"

text \<open>
  Decoding one record.  \<open>BadRecord\<close> is \<open>ValueError\<close>; a payload with the right checksum that is no
  RESP raises the parser's \<open>ProtocolError\<close>, which the replay does not catch.
\<close>

datatype decoded = Decoded str "arg list" | BadRecord str | BadPayload kverror

definition decode_v3 :: "bytes \<Rightarrow> decoded" where
  "decode_v3 raw =
     (case find_lf raw of
        None \<Rightarrow> BadRecord (lit ''incomplete record'')
      | Some (line, payload) \<Rightarrow>
          (case v3_header line of
             None \<Rightarrow> BadRecord (lit ''malformed record header'')
           | Some (expected, len) \<Rightarrow>
               if int (length payload) \<noteq> len then BadRecord (lit ''incomplete record'')
               else if int (crc32 payload) \<noteq> expected then BadRecord (lit ''checksum mismatch'')
               else (case next_command (rq_feed payload (request_parser_init DEFAULT_MAX_BULK)) of
                       (Inl e, _) \<Rightarrow> BadPayload e
                     | (Inr None, _) \<Rightarrow> BadRecord (lit ''record is not a RESP command'')
                     | (Inr (Some []), _) \<Rightarrow> BadRecord (lit ''record is not a RESP command'')
                     | (Inr (Some (c # args)), _) \<Rightarrow> Decoded c (map SArg args))))"

text \<open>\<open>json.loads\<close> with the checks on its result, for the v2 array and the v1 object.\<close>

record json_decoders =
  js_array :: "bytes \<Rightarrow> decoded"
  js_object :: "bytes \<Rightarrow> decoded"

definition rstrip_eol :: "bytes \<Rightarrow> bytes" where
  "rstrip_eol bs = rev (dropWhile (\<lambda>b. b = 13 \<or> b = 10) (rev bs))"

definition decode_record :: "json_decoders \<Rightarrow> bytes \<Rightarrow> decoded" where
  "decode_record js raw =
     (if take 1 raw = [35] then decode_v3 raw
      else if raw = [] \<or> last raw \<noteq> 10 then BadRecord (lit ''incomplete record'')
      else if take 1 raw = [123] then js_object js raw
      else if length raw < 11 \<or> raw ! 8 \<noteq> 32 then BadRecord (lit ''malformed record'')
      else case bytes_hex (take 8 raw) of
             None \<Rightarrow> BadRecord (lit ''malformed checksum'')
           | Some expected \<Rightarrow>
               let payload = rstrip_eol (drop 9 raw) in
               if int (crc32 payload) \<noteq> expected then BadRecord (lit ''checksum mismatch'')
               else js_array js payload)"

section \<open>Replay\<close>

text \<open>\<open>f.readline()\<close>: up to and including the next newline, and the rest.\<close>

definition read_line :: "bytes \<Rightarrow> bytes \<times> bytes" where
  "read_line bs = (case find_lf bs of None \<Rightarrow> (bs, []) | Some (l, r) \<Rightarrow> (l @ [10], r))"

text \<open>\<open>f.read(n)\<close>: a negative size reads everything.\<close>

definition read_n :: "int \<Rightarrow> bytes \<Rightarrow> bytes \<times> bytes" where
  "read_n n bs = (if n < 0 then (bs, []) else (take (nat n) bs, drop (nat n) bs))"

definition rstrip_lf :: "bytes \<Rightarrow> bytes" where
  "rstrip_lf bs = rev (dropWhile (\<lambda>b. b = 10) (rev bs))"

text \<open>One record from the file: the header line, then the payload it announces.\<close>

definition read_record :: "bytes \<Rightarrow> bytes \<times> bytes" where
  "read_record bs =
     (case read_line bs of (raw, rest) \<Rightarrow>
        if take 1 raw = [35]
        then (case v3_header (rstrip_lf raw) of
                None \<Rightarrow> (raw, rest)
              | Some (_, n) \<Rightarrow> (case read_n n rest of (payload, rest') \<Rightarrow> (raw @ payload, rest')))
        else (raw, rest))"

text \<open>A size outside the range of an index makes \<open>f.read\<close> raise \<open>OverflowError\<close>.\<close>

definition oversized :: "bytes \<Rightarrow> bool" where
  "oversized bs =
     (let raw = fst (read_line bs) in
      take 1 raw = [35]
      \<and> (case v3_header (rstrip_lf raw) of None \<Rightarrow> False | Some (_, n) \<Rightarrow> n < - (2 ^ 63) \<or> 2 ^ 63 \<le> n))"

text \<open>
  What applying a record may raise: an error of the hierarchy, or any other exception.
\<close>

datatype exn = Raised kverror | Uncaught string

type_synonym 's apply_fn = "str \<Rightarrow> arg list \<Rightarrow> 's \<Rightarrow> (exn + unit) \<times> 's"

definition corrupted :: "str \<Rightarrow> nat \<Rightarrow> str \<Rightarrow> exn" where
  "corrupted path lineno msg =
     Raised (mk_error AOFCorruptedError (path @ lit '':'' @ nat_text lineno @ lit '': '' @ msg) None)"

lemma read_line_shorter: "bs \<noteq> [] \<Longrightarrow> length (snd (read_line bs)) < length bs"
  using find_lf_shorter [of bs] by (auto simp: read_line_def split: option.split)

lemma read_record_shorter: "bs \<noteq> [] \<Longrightarrow> length (snd (read_record bs)) < length bs"
  using read_line_shorter [of bs] by (auto simp: read_record_def read_n_def split: prod.split option.split)

text \<open>
  The loop of \<open>replay_aof\<close> from an offset on: it returns the number of records applied and the
  offset after the last good one.
\<close>

function replay_loop ::
    "json_decoders \<Rightarrow> str \<Rightarrow> 's apply_fn \<Rightarrow> bool \<Rightarrow> nat \<Rightarrow> nat \<Rightarrow> nat \<Rightarrow> nat \<Rightarrow> bytes \<Rightarrow> 's \<Rightarrow> (exn + nat \<times> nat) \<times> 's" where
  "replay_loop js path app allow_truncate lineno records good pos bs s =
     (if bs = [] then (Inr (records, good), s)
      else if strip_bytes (fst (read_line bs)) = []
      then (let rest = snd (read_line bs); pos' = pos + (length bs - length rest)
            in replay_loop js path app allow_truncate (Suc lineno) records pos' pos' rest s)
      else if oversized bs then (Inl (Uncaught ''OverflowError''), s)
      else (let (raw, rest) = read_record bs; pos' = pos + (length bs - length rest)
            in case decode_record js raw of
                 BadPayload e \<Rightarrow> (Inl (Raised e), s)
               | BadRecord msg \<Rightarrow>
                   if allow_truncate \<and> rest = [] then (Inr (records, good), s)
                   else (Inl (corrupted path (Suc lineno) msg), s)
               | Decoded command args \<Rightarrow>
                   (case app command args s of
                      (Inl (Raised e), s') \<Rightarrow>
                        if is_command_error (err_class e)
                        then (Inl (corrupted path (Suc lineno) (lit ''cannot replay: '' @ err_message e)), s')
                        else (Inl (Raised e), s')
                    | (Inl (Uncaught x), s') \<Rightarrow> (Inl (Uncaught x), s')
                    | (Inr _, s') \<Rightarrow>
                        replay_loop js path app allow_truncate (Suc lineno) (Suc records) pos' pos' rest s')))"
  by pat_completeness auto
termination
  by (relation "measure (\<lambda>(_, _, _, _, _, _, _, _, bs, _). length bs)")
    (auto simp: read_line_shorter dest: read_record_shorter split: prod.splits, metis read_record_shorter snd_conv)

declare replay_loop.simps [simp del]

text \<open>\<open>replay_aof\<close> on the bytes of the file: the counts, and the file after cutting off a torn tail.\<close>

definition replay_aof ::
    "json_decoders \<Rightarrow> str \<Rightarrow> 's apply_fn \<Rightarrow> bool \<Rightarrow> bytes \<Rightarrow> 's \<Rightarrow> (exn + nat \<times> nat \<times> bytes) \<times> 's" where
  "replay_aof js path app allow_truncate bs s =
     (case replay_loop js path app allow_truncate 0 0 0 0 bs s of
        (Inl e, s') \<Rightarrow> (Inl e, s')
      | (Inr (records, good), s') \<Rightarrow> (Inr (records, length bs - good, take good bs), s'))"

end
