(* ===== verification/Snapshot_File.thy ===== *)
theory Snapshot_File
  imports Py_Struct Store Aof
begin

text \<open>
  \<open>engine/persistence/snapshot.py\<close>: the binary snapshot format, in a file or in memory, and the
  single-value encoding of \<open>DUMP\<close> and \<open>RESTORE\<close>.  What can raise while encoding is \<open>None\<close>
  (\<open>struct.error\<close>, \<open>UnicodeEncodeError\<close>, a deadline that is not finite); a decoder returns the text
  of the exception, \<open>repr(exc)\<close>.
\<close>

section \<open>Writing\<close>

definition MAGIC :: bytes where "MAGIC = lit ''KVSNAP''"
definition SNAPSHOT_VERSION :: int where "SNAPSHOT_VERSION = 1"
definition SNAPSHOT_EOF :: nat where "SNAPSHOT_EOF = 255"
definition FLUSH_AT :: nat where "FLUSH_AT = 2 ^ 20"
definition DUMP_VERSION :: nat where "DUMP_VERSION = 1"

fun type_code :: "payload \<Rightarrow> nat" where
  "type_code (PString _) = 0"
| "type_code (PList _) = 1"
| "type_code (PHash _) = 2"
| "type_code (PSet _) = 3"
| "type_code (PZset _) = 4"

record checksummed_writer =
  cw_file :: bytes
  cw_buf :: bytes
  cw_crc :: "32 word"
  cw_size :: nat

definition cw_init :: checksummed_writer where
  "cw_init = \<lparr>cw_file = [], cw_buf = [], cw_crc = 0, cw_size = 0\<rparr>"

definition cw_flush :: "checksummed_writer \<Rightarrow> checksummed_writer" where
  "cw_flush w =
     w\<lparr>cw_crc := crc32_from (cw_crc w) (cw_buf w), cw_file := cw_file w @ cw_buf w,
       cw_size := cw_size w + length (cw_buf w), cw_buf := []\<rparr>"

definition cw_write :: "bytes \<Rightarrow> checksummed_writer \<Rightarrow> checksummed_writer" where
  "cw_write data w =
     (let w1 = w\<lparr>cw_buf := cw_buf w @ data\<rparr> in if FLUSH_AT \<le> length (cw_buf w1) then cw_flush w1 else w1)"

text \<open>The pieces written, in order; \<open>those\<close> is \<open>None\<close> as soon as one of them raises.\<close>

definition joined :: "bytes option list \<Rightarrow> bytes option" where
  "joined pieces = map_option concat (those pieces)"

definition str_pieces :: "str \<Rightarrow> bytes option list" where
  "str_pieces s =
     (case to_bytes s of None \<Rightarrow> [None] | Some data \<Rightarrow> [pack_u 4 (int (length data)), Some data])"

definition write_payload :: "payload \<Rightarrow> bytes option list" where
  "write_payload p =
     (case p of
        PString s \<Rightarrow> str_pieces s
      | PList xs \<Rightarrow> pack_u 4 (int (length xs)) # concat (map str_pieces xs)
      | PSet xs \<Rightarrow> pack_u 4 (int (length xs)) # concat (map str_pieces xs)
      | PHash kvs \<Rightarrow> pack_u 4 (int (length kvs)) # concat (map (\<lambda>(f, v). str_pieces f @ str_pieces v) kvs)
      | PZset ms \<Rightarrow> pack_u 4 (int (length ms)) # concat (map (\<lambda>(m, x). str_pieces m @ [Some (pack_f64 x)]) ms))"

definition millis :: "pyfloat \<Rightarrow> int option" where
  "millis t = fround (fscale t 1000)"

definition record_pieces :: "snapshot_record \<Rightarrow> bytes option list" where
  "record_pieces rec =
     (case rec of (key, p, expires_at) \<Rightarrow>
        joined [Some [type_code p],
          (case expires_at of None \<Rightarrow> pack_i 8 (- 1) | Some t \<Rightarrow> Option.bind (millis t) (pack_i 8))]
        # str_pieces key @ write_payload p)"

definition header_piece :: "pyfloat \<Rightarrow> nat \<Rightarrow> bytes option" where
  "header_piece created_at n =
     joined [Some MAGIC, pack_u 2 SNAPSHOT_VERSION, Option.bind (millis created_at) (pack_i 8), pack_u 8 (int n)]"

text \<open>\<open>_write\<close>: the bytes of the file and the size it returns.\<close>

definition write_body :: "pyfloat \<Rightarrow> snapshot_record list \<Rightarrow> (bytes \<times> nat) option" where
  "write_body created_at records =
     map_option (\<lambda>pieces.
         let w = cw_flush (cw_write [SNAPSHOT_EOF] (fold cw_write pieces cw_init))
         in (cw_file w @ le_bytes 4 (unat (cw_crc w)), cw_size w + 4))
       (those (header_piece created_at (length records) # concat (map record_pieces records)))"

definition encode_snapshot :: "pyfloat \<Rightarrow> snapshot_record list \<Rightarrow> bytes option" where
  "encode_snapshot created_at records = map_option fst (write_body created_at records)"

definition dump_value :: "payload \<Rightarrow> bytes option" where
  "dump_value p =
     map_option (\<lambda>pieces.
         let w = cw_flush (fold cw_write pieces (cw_write [DUMP_VERSION, type_code p] cw_init))
         in cw_file w @ le_bytes 4 (unat (cw_crc w)))
       (those (write_payload p))"

section \<open>Reading\<close>

text \<open>
  A reader takes the bytes and a position; it returns the value and the next position, or the text
  of the exception it raises.
\<close>

type_synonym 'a reader = "bytes \<Rightarrow> nat \<Rightarrow> str + 'a \<times> nat"

definition struct_error :: "nat \<Rightarrow> nat \<Rightarrow> nat \<Rightarrow> str" where
  "struct_error sz off len =
     lit ''error('' @ [39] @ lit ''unpack_from requires a buffer of at least '' @ nat_text (off + sz)
     @ lit '' bytes for unpacking '' @ nat_text sz @ lit '' bytes at offset '' @ nat_text off
     @ lit '' (actual buffer size is '' @ nat_text len @ lit '')'' @ [39] @ lit '')''"

definition unpack :: "nat \<Rightarrow> bytes reader" where
  "unpack sz data off =
     (if off + sz \<le> length data then Inr (take sz (drop off data), off + sz)
      else Inl (struct_error sz off (length data)))"

definition read_bind :: "'a reader \<Rightarrow> ('a \<Rightarrow> 'b reader) \<Rightarrow> 'b reader" where
  "read_bind r f data off = (case r data off of Inl e \<Rightarrow> Inl e | Inr (x, off') \<Rightarrow> f x data off')"

definition read_ret :: "'a \<Rightarrow> 'a reader" where
  "read_ret x data off = Inr (x, off)"

definition index_error :: "string \<Rightarrow> str" where
  "index_error msg = lit ''IndexError('' @ [39] @ lit msg @ [39] @ lit '')''"

definition read_text :: "nat \<Rightarrow> str reader" where
  "read_text sz data off =
     (if length data < off + sz then Inl (index_error ''string runs past the end of the file'')
      else Inr (to_str (take sz (drop off data)), off + sz))"

definition read_str :: "str reader" where
  "read_str = read_bind (unpack 4) (\<lambda>b. read_text (le_nat b))"

definition read_byte :: "nat reader" where
  "read_byte data off =
     (if off < length data then Inr (data ! off, off + 1)
      else Inl (index_error ''index out of bounds on dimension 1''))"

primrec read_times :: "nat \<Rightarrow> 'a reader \<Rightarrow> 'a list reader" where
  "read_times 0 r = read_ret []"
| "read_times (Suc n) r = read_bind r (\<lambda>x. read_bind (read_times n r) (\<lambda>xs. read_ret (x # xs)))"

definition read_pair :: "'a reader \<Rightarrow> 'b reader \<Rightarrow> ('a \<times> 'b) reader" where
  "read_pair a b = read_bind a (\<lambda>x. read_bind b (\<lambda>y. read_ret (x, y)))"

definition read_f64 :: "pyfloat reader" where
  "read_f64 = read_bind (unpack 8) (\<lambda>b. read_ret (unpack_f64 b))"

definition read_counted :: "'a reader \<Rightarrow> 'a list reader" where
  "read_counted r = read_bind (unpack 4) (\<lambda>b. read_times (le_nat b) r)"

text \<open>\<open>_TYPE_NAMES[code]\<close> followed by \<open>_read_payload\<close>: a code outside the table is a \<open>KeyError\<close>.\<close>

definition read_payload :: "nat \<Rightarrow> payload reader" where
  "read_payload code =
     (if code = 0 then read_bind read_str (\<lambda>s. read_ret (PString s))
      else if code = 1 then read_bind (read_counted read_str) (\<lambda>xs. read_ret (PList xs))
      else if code = 2 then read_bind (read_counted (read_pair read_str read_str)) (\<lambda>xs. read_ret (PHash xs))
      else if code = 3 then read_bind (read_counted read_str) (\<lambda>xs. read_ret (PSet xs))
      else read_bind (read_counted (read_pair read_str read_f64)) (\<lambda>xs. read_ret (PZset xs)))"

definition known_type :: "nat \<Rightarrow> unit reader" where
  "known_type code data off =
     (if code \<le> 4 then Inr ((), off) else Inl (lit ''KeyError('' @ nat_text code @ lit '')''))"

definition read_entry :: "snapshot_record reader" where
  "read_entry =
     read_bind (unpack 9) (\<lambda>b.
       let code = hd b; expires_ms = signed_le (tl b) in
       read_bind (known_type code) (\<lambda>_.
         read_bind read_str (\<lambda>key.
           read_bind (read_payload code) (\<lambda>p.
             read_ret (key, p, if expires_ms < 0 then None else Some (int_div expires_ms 1000))))))"

text \<open>
  The loop of \<open>decode_snapshot\<close>, a generator: the records it yields, and how it ends, in an
  exception (\<open>Inl\<close>) or at a position.
\<close>

primrec read_entries :: "nat \<Rightarrow> bytes \<Rightarrow> nat \<Rightarrow> snapshot_record list \<times> (str + nat)" where
  "read_entries 0 data off = ([], Inr off)"
| "read_entries (Suc n) data off =
     (case read_entry data off of
        Inl e \<Rightarrow> ([], Inl e)
      | Inr (rec, off') \<Rightarrow> (case read_entries n data off' of (recs, r) \<Rightarrow> (rec # recs, r)))"

definition snap_error :: "str \<Rightarrow> str \<Rightarrow> exn" where
  "snap_error source msg = Raised (mk_error SnapshotCorruptedError (source @ lit '': '' @ msg) None)"

definition HEADER_SIZE :: nat where "HEADER_SIZE = 24"

definition decode_snapshot :: "str \<Rightarrow> bytes \<Rightarrow> snapshot_record list \<times> exn option" where
  "decode_snapshot source data =
     (let n = length data - 4; body = take n data in
      if length data < HEADER_SIZE + 1 + 4 then ([], Some (snap_error source (lit ''file too short'')))
      else if crc32 body \<noteq> le_nat (drop n data) then ([], Some (snap_error source (lit ''checksum mismatch'')))
      else if take 6 body \<noteq> MAGIC \<or> int (le_nat (take 2 (drop 6 body))) \<noteq> SNAPSHOT_VERSION
      then ([], Some (snap_error source (lit ''not a v1 snapshot'')))
      else (case read_entries (le_nat (take 8 (drop 16 body))) body HEADER_SIZE of
              (recs, Inl e) \<Rightarrow> (recs, Some (snap_error source (lit ''malformed record: '' @ e)))
            | (recs, Inr off) \<Rightarrow>
                (case read_byte body off of
                   Inl e \<Rightarrow> (recs, Some (snap_error source (lit ''malformed record: '' @ e)))
                 | Inr (b, _) \<Rightarrow>
                     (recs, if b \<noteq> SNAPSHOT_EOF then Some (snap_error source (lit ''missing end marker''))
                            else None))))"

text \<open>\<open>load_value\<close>; \<open>Inl\<close> is the text of the \<open>ValueError\<close>.\<close>

definition load_value :: "bytes \<Rightarrow> str + payload" where
  "load_value data =
     (let n = length data - 4; body = take n data in
      if length data < 2 + 4 then Inl (lit ''DUMP payload too short'')
      else if crc32 body \<noteq> le_nat (drop n data) \<or> body ! 0 \<noteq> DUMP_VERSION
      then Inl (lit ''DUMP payload version or checksum not valid'')
      else (case read_bind (known_type (body ! 1)) (\<lambda>_. read_payload (body ! 1)) body 2 of
              Inl e \<Rightarrow> Inl (lit ''malformed DUMP payload: '' @ e)
            | Inr (p, _) \<Rightarrow> Inr p))"

end
