(* ===== verification/Snapshot_Roundtrip.thy ===== *)
theory Snapshot_Roundtrip
  imports Snapshot_File
begin

text \<open>
  What was written is what is read: a snapshot, or the payload of \<open>DUMP\<close>, decodes to the records
  it was made from, with deadlines rounded to milliseconds; and encoding succeeds whenever the
  sizes fit the 32-bit length fields.
\<close>

section \<open>The pieces and the checksum\<close>

lemma those_append:
  "those (xs @ ys) = Option.bind (those xs) (\<lambda>a. Option.bind (those ys) (\<lambda>b. Some (a @ b)))"
  by (induction xs) (auto split: option.split bind_split)

lemma joined_append:
  "joined (xs @ ys) = Some b \<longleftrightarrow> (\<exists>p q. joined xs = Some p \<and> joined ys = Some q \<and> b = p @ q)"
  by (auto simp: joined_def those_append split: bind_split)

lemma joined_Nil [simp]: "joined [] = Some []"
  by (simp add: joined_def)

lemma joined_Cons:
  "joined (x # ys) = Some b \<longleftrightarrow> (\<exists>p q. x = Some p \<and> joined ys = Some q \<and> b = p @ q)"
  by (auto simp: joined_def split: option.split)

definition cw_ok :: "bytes \<Rightarrow> checksummed_writer \<Rightarrow> bool" where
  "cw_ok written w \<longleftrightarrow> cw_file w @ cw_buf w = written
     \<and> cw_crc w = crc32_from 0 (cw_file w) \<and> cw_size w = length (cw_file w)"

lemma crc32_empty [simp]: "crc32_from 0 [] = 0"
  by (simp add: crc32_from_def)

lemma cw_ok_init: "cw_ok [] cw_init"
  by (simp add: cw_ok_def cw_init_def)

lemma cw_ok_flush: "cw_ok a w \<Longrightarrow> cw_ok a (cw_flush w) \<and> cw_buf (cw_flush w) = []"
  by (auto simp: cw_ok_def cw_flush_def crc32_from_append)

lemma cw_ok_write: "cw_ok a w \<Longrightarrow> cw_ok (a @ d) (cw_write d w)"
proof -
  assume "cw_ok a w"
  then have "cw_ok (a @ d) (w\<lparr>cw_buf := cw_buf w @ d\<rparr>)" by (auto simp: cw_ok_def)
  then show ?thesis by (simp add: cw_write_def Let_def cw_ok_flush)
qed

lemma cw_ok_fold: "cw_ok a w \<Longrightarrow> cw_ok (a @ concat ps) (fold cw_write ps w)"
proof (induction ps arbitrary: a w)
  case (Cons p ps)
  from Cons.IH [OF cw_ok_write [OF Cons.prems]] show ?case by simp
qed simp

lemma cw_ok_flushed:
  assumes "cw_ok a w"
  shows "cw_file (cw_flush w) = a" "unat (cw_crc (cw_flush w)) = crc32 a" "cw_size (cw_flush w) = length a"
  using cw_ok_flush [OF assms] by (auto simp: cw_ok_def crc32_def)

text \<open>Whatever the flushes in between, the file is the pieces followed by the checksum of them all.\<close>

lemma write_body_eq:
  "write_body t recs =
     map_option (\<lambda>b. (b @ SNAPSHOT_EOF # le_bytes 4 (crc32 (b @ [SNAPSHOT_EOF])), length b + 5))
       (joined (header_piece t (length recs) # concat (map record_pieces recs)))"
proof -
  have "cw_ok (concat ps @ [SNAPSHOT_EOF]) (cw_write [SNAPSHOT_EOF] (fold cw_write ps cw_init))" for ps
    using cw_ok_write [OF cw_ok_fold [OF cw_ok_init]] by simp
  from cw_ok_flushed [OF this] show ?thesis
    by (simp add: write_body_def joined_def Let_def option.map_comp comp_def add.commute)
qed

lemma dump_value_eq:
  "dump_value p =
     map_option (\<lambda>b. b @ le_bytes 4 (crc32 b)) (joined (Some [DUMP_VERSION, type_code p] # write_payload p))"
proof -
  have "cw_ok ([DUMP_VERSION, type_code p] @ concat ps)
      (fold cw_write ps (cw_write [DUMP_VERSION, type_code p] cw_init))" for ps
    using cw_ok_fold [OF cw_ok_write [OF cw_ok_init], of "[DUMP_VERSION, type_code p]"] by simp
  from cw_ok_flushed [OF this] show ?thesis
    by (simp add: dump_value_def joined_def Let_def option.map_comp comp_def)
qed

section \<open>Readers\<close>

definition reads :: "'a reader \<Rightarrow> bytes \<Rightarrow> 'a \<Rightarrow> bool" where
  "reads r b x \<longleftrightarrow> (\<forall>pre post. r (pre @ b @ post) (length pre) = Inr (x, length pre + length b))"

lemma readsD: "reads r b x \<Longrightarrow> r (pre @ b @ post) (length pre) = Inr (x, length pre + length b)"
  by (simp add: reads_def)

lemma reads_ret: "reads (read_ret x) [] x"
  by (simp add: reads_def read_ret_def)

lemma reads_bind:
  assumes "reads r a x" "reads (f x) b y"
  shows "reads (read_bind r f) (a @ b) y"
  unfolding reads_def
proof (intro allI)
  fix pre post
  show "read_bind r f (pre @ (a @ b) @ post) (length pre) = Inr (y, length pre + length (a @ b))"
    using readsD [OF assms(1), of pre "b @ post"] readsD [OF assms(2), of "pre @ a" post]
    by (simp add: read_bind_def)
qed

lemma reads_bind_ret: "reads r a x \<Longrightarrow> reads (read_bind r (\<lambda>x. read_ret (g x))) a (g x)"
  using reads_bind [of r a x "\<lambda>x. read_ret (g x)" "[]" "g x"] by (simp add: reads_ret)

lemma reads_unpack: "length b = n \<Longrightarrow> reads (unpack n) b b"
  by (simp add: reads_def unpack_def)

lemma reads_text: "reads (read_text (length b)) b (to_str b)"
  by (simp add: reads_def read_text_def)

lemma reads_times:
  assumes "list_all2 (reads r) bs xs"
  shows "reads (read_times (length xs) r) (concat bs) xs"
  using assms
proof (induction rule: list_all2_induct)
  case Nil
  then show ?case by (simp add: reads_ret)
next
  case (Cons b bs x xs)
  show ?case
    unfolding length_Cons read_times.simps concat.simps
    by (rule reads_bind [OF Cons(1)]) (rule reads_bind_ret [OF Cons(3)])
qed

lemma reads_pair: "reads r a x \<Longrightarrow> reads s b y \<Longrightarrow> reads (read_pair r s) (a @ b) (x, y)"
  unfolding read_pair_def by (rule reads_bind, assumption, rule reads_bind_ret)

lemma reads_f64: "is_f64 x \<Longrightarrow> reads read_f64 (pack_f64 x) x"
  unfolding read_f64_def
  using reads_bind_ret [OF reads_unpack, of "pack_f64 x" 8 unpack_f64] by (simp add: f64_roundtrip)

lemma reads_str:
  assumes "joined (str_pieces s) = Some b" "wire_text s"
  shows "reads read_str b s"
proof -
  from assms obtain d h where d: "to_bytes s = Some d" "to_str d = s"
    and h: "pack_u 4 (int (length d)) = Some h" and b: "b = h @ d"
    by (auto simp: wire_text_def str_pieces_def joined_Cons)
  from pack_u_ok [OF h] have "length h = 4" "le_nat h = length d" by simp_all
  then show ?thesis
    unfolding read_str_def b using d(2) reads_text [of d]
    by (intro reads_bind [where x = h] reads_unpack) simp_all
qed

lemma reads_counted:
  assumes "pack_u 4 (int (length xs)) = Some h" "list_all2 (reads r) bs xs"
  shows "reads (read_counted r) (h @ concat bs) xs"
proof -
  from pack_u_ok [OF assms(1)] have h: "length h = 4" "le_nat h = length xs" by simp_all
  show ?thesis unfolding read_counted_def
    by (rule reads_bind [OF reads_unpack [OF h(1)]]) (simp add: h(2) reads_times [OF assms(2)])
qed

lemma joined_concat_reads:
  assumes "joined (concat (map f xs)) = Some b"
    and "\<And>x c. x \<in> set xs \<Longrightarrow> joined (f x) = Some c \<Longrightarrow> reads r c x"
  shows "\<exists>bs. b = concat bs \<and> list_all2 (reads r) bs xs"
  using assms
proof (induction xs arbitrary: b)
  case (Cons x xs)
  from Cons.prems(1) obtain p q where pq: "joined (f x) = Some p" "joined (concat (map f xs)) = Some q"
    and b: "b = p @ q" by (auto simp: joined_append)
  from Cons.IH [OF pq(2)] Cons.prems(2) obtain bs where "q = concat bs" "list_all2 (reads r) bs xs"
    by (metis list.set_intros(2))
  with Cons.prems(2) [of x p] pq(1) b have "b = concat (p # bs)" "list_all2 (reads r) (p # bs) (x # xs)" by simp_all
  then show ?case by blast
qed simp

section \<open>Values\<close>

fun payload_texts :: "payload \<Rightarrow> str set" where
  "payload_texts (PString s) = {s}"
| "payload_texts (PList xs) = set xs"
| "payload_texts (PHash kvs) = fst ` set kvs \<union> snd ` set kvs"
| "payload_texts (PSet xs) = set xs"
| "payload_texts (PZset ms) = fst ` set ms"

fun payload_floats :: "payload \<Rightarrow> pyfloat set" where
  "payload_floats (PZset ms) = snd ` set ms"
| "payload_floats p = {}"

text \<open>The values that occur: text that came in as bytes, and scores that are floats.\<close>

definition storable :: "payload \<Rightarrow> bool" where
  "storable p \<longleftrightarrow> (\<forall>s \<in> payload_texts p. wire_text s) \<and> (\<forall>x \<in> payload_floats p. is_f64 x)"

lemma reads_strs:
  assumes "joined (pack_u 4 (int (length xs)) # concat (map str_pieces xs)) = Some b" "\<forall>s \<in> set xs. wire_text s"
  shows "reads (read_counted read_str) b xs"
proof -
  from assms(1) obtain h q where h: "pack_u 4 (int (length xs)) = Some h"
    and q: "joined (concat (map str_pieces xs)) = Some q" and b: "b = h @ q" by (auto simp: joined_Cons)
  from joined_concat_reads [OF q] reads_str assms(2) obtain bs
    where "q = concat bs" "list_all2 (reads read_str) bs xs" by blast
  with reads_counted [OF h] b show ?thesis by simp
qed

lemma reads_pairs:
  assumes "joined (pack_u 4 (int (length ms)) # concat (map (\<lambda>(x, y). f x @ g y) ms)) = Some b"
    and f: "\<And>x y c. (x, y) \<in> set ms \<Longrightarrow> joined (f x) = Some c \<Longrightarrow> reads r c x"
    and g: "\<And>x y c. (x, y) \<in> set ms \<Longrightarrow> joined (g y) = Some c \<Longrightarrow> reads r' c y"
  shows "reads (read_counted (read_pair r r')) b ms"
proof -
  from assms(1) obtain h q where h: "pack_u 4 (int (length ms)) = Some h"
    and q: "joined (concat (map (\<lambda>(x, y). f x @ g y) ms)) = Some q" and b: "b = h @ q"
    by (auto simp: joined_Cons)
  have "reads (read_pair r r') c m" if "m \<in> set ms" "joined (case m of (x, y) \<Rightarrow> f x @ g y) = Some c" for m c
  proof (cases m)
    case (Pair x y)
    with that(2) obtain c1 c2 where "joined (f x) = Some c1" "joined (g y) = Some c2" "c = c1 @ c2"
      by (auto simp: joined_append)
    with f [of x y c1] g [of x y c2] that(1) Pair show ?thesis by (simp add: reads_pair)
  qed
  from joined_concat_reads [OF q this] obtain bs
    where "q = concat bs" "list_all2 (reads (read_pair r r')) bs ms" by blast
  with reads_counted [OF h] b show ?thesis by simp
qed

lemma reads_payload:
  assumes j: "joined (write_payload p) = Some b" and s: "storable p"
  shows "reads (read_payload (type_code p)) b p"
proof (cases p)
  case (PString t)
  with j s reads_bind_ret [OF reads_str, of t b PString] show ?thesis
    by (simp add: read_payload_def write_payload_def storable_def)
next
  case (PList xs)
  with j s reads_bind_ret [OF reads_strs, of xs b PList] show ?thesis
    by (simp add: read_payload_def write_payload_def storable_def)
next
  case (PHash kvs)
  have "reads (read_counted (read_pair read_str read_str)) b kvs"
    by (rule reads_pairs [where f = str_pieces and g = str_pieces])
      (use j s PHash in \<open>force simp: write_payload_def storable_def intro!: reads_str\<close>)+
  with PHash reads_bind_ret [OF this, of PHash] show ?thesis by (simp add: read_payload_def)
next
  case (PSet xs)
  with j s reads_bind_ret [OF reads_strs, of xs b PSet] show ?thesis
    by (simp add: read_payload_def write_payload_def storable_def)
next
  case (PZset ms)
  have "reads (read_counted (read_pair read_str read_f64)) b ms"
    by (rule reads_pairs [where f = str_pieces and g = "\<lambda>x. [Some (pack_f64 x)]"])
      (use j s PZset in \<open>force simp: write_payload_def storable_def joined_Cons intro!: reads_str reads_f64\<close>)+
  with PZset reads_bind_ret [OF this, of PZset] show ?thesis by (simp add: read_payload_def)
qed

text \<open>What a deadline becomes: the nearest millisecond; one before the epoch is dropped.\<close>

definition stored_expiry :: "pyfloat option \<Rightarrow> pyfloat option" where
  "stored_expiry e =
     (case e of None \<Rightarrow> None
      | Some t \<Rightarrow> (case millis t of None \<Rightarrow> None
                   | Some ms \<Rightarrow> if ms < 0 then None else Some (int_div ms 1000)))"

definition stored :: "snapshot_record \<Rightarrow> snapshot_record" where
  "stored rec = (case rec of (k, p, e) \<Rightarrow> (k, p, stored_expiry e))"

lemma type_code_le: "type_code p \<le> 4"
  by (cases p) simp_all

lemma reads_entry:
  assumes j: "joined (record_pieces (k, p, e)) = Some b" and s: "wire_text k" "storable p"
  shows "reads read_entry b (stored (k, p, e))"
proof -
  from j obtain x kb pb where
    x: "(case e of None \<Rightarrow> pack_i 8 (- 1) | Some t \<Rightarrow> Option.bind (millis t) (pack_i 8)) = Some x"
    and kb: "joined (str_pieces k) = Some kb" and pb: "joined (write_payload p) = Some pb"
    and b: "b = ([type_code p] @ x) @ kb @ pb"
    by (auto simp: record_pieces_def joined_Cons joined_append)
  have x8: "length x = 8" and sx: "(if signed_le x < 0 then None else Some (int_div (signed_le x) 1000)) = stored_expiry e"
    using x pack_i_ok by (fastforce simp: stored_expiry_def split: option.splits bind_splits)+
  have kt: "reads (known_type (type_code p)) [] ()"
    using type_code_le [of p] by (simp add: reads_def known_type_def)
  have "reads (read_bind (known_type (type_code p)) (\<lambda>_. read_bind read_str (\<lambda>key.
           read_bind (read_payload (type_code p)) (\<lambda>p. read_ret (key, p, stored_expiry e)))))
        ([] @ kb @ pb) (k, p, stored_expiry e)"
    by (rule reads_bind [OF kt reads_bind [OF reads_str [OF kb s(1)] reads_bind_ret [OF reads_payload [OF pb s(2)]]]])
  then show ?thesis
    unfolding read_entry_def b stored_def prod.case
    by (intro reads_bind [OF reads_unpack]) (simp_all add: x8 sx Let_def)
qed

section \<open>Whole snapshots\<close>

lemma reads_entries:
  assumes "joined (concat (map record_pieces recs)) = Some b"
    and "\<forall>(k, p, e) \<in> set recs. wire_text k \<and> storable p"
  shows "read_entries (length recs) (pre @ b @ post) (length pre) = (map stored recs, Inr (length pre + length b))"
  using assms
proof (induction recs arbitrary: b pre)
  case (Cons rec recs)
  obtain k p e where rec: "rec = (k, p, e)" by (cases rec)
  from Cons.prems(1) obtain c q where c: "joined (record_pieces rec) = Some c"
    and q: "joined (concat (map record_pieces recs)) = Some q" and b: "b = c @ q" by (auto simp: joined_append)
  have "reads read_entry c (stored rec)" using c rec Cons.prems(2) reads_entry by auto
  from readsD [OF this, of pre "q @ post"] Cons.IH [OF q, of "pre @ c"] Cons.prems(2) b
  show ?case by (simp add: add.assoc)
qed simp

lemma header_piece_ok:
  assumes "header_piece t n = Some h"
  shows "length h = HEADER_SIZE" "take 6 h = MAGIC" "int (le_nat (take 2 (drop 6 h))) = SNAPSHOT_VERSION"
    "le_nat (take 8 (drop 16 h)) = n"
proof -
  from assms obtain v c m where v: "pack_u 2 SNAPSHOT_VERSION = Some v"
    and c: "Option.bind (millis t) (pack_i 8) = Some c" and m: "pack_u 8 (int n) = Some m"
    and h: "h = MAGIC @ v @ c @ m" by (auto simp: header_piece_def joined_Cons)
  have c8: "length c = 8" using c pack_i_ok by (fastforce split: bind_splits)
  have mag: "length MAGIC = 6" by (simp add: MAGIC_def lit_def)
  note v2 = pack_u_ok [OF v] and m8 = pack_u_ok [OF m]
  show "length h = HEADER_SIZE" using h c8 mag v2 m8 by (simp add: HEADER_SIZE_def)
  show "take 6 h = MAGIC" using h mag by simp
  show "int (le_nat (take 2 (drop 6 h))) = SNAPSHOT_VERSION" using h mag v2 by simp
  have "drop 16 h = m" using h mag v2 c8 by simp
  then show "le_nat (take 8 (drop 16 h)) = n" using m8 by simp
qed

lemma take_prefix: "n \<le> length xs \<Longrightarrow> take n (xs @ ys) = take n xs"
  by simp

lemma decode_encoded:
  assumes "encode_snapshot t recs = Some bs" "\<forall>(k, p, e) \<in> set recs. wire_text k \<and> storable p"
  shows "decode_snapshot source bs = (map stored recs, None)"
proof -
  from assms(1) obtain h q where h: "header_piece t (length recs) = Some h"
    and q: "joined (concat (map record_pieces recs)) = Some q"
    and bs: "bs = (h @ q @ [SNAPSHOT_EOF]) @ le_bytes 4 (crc32 (h @ q @ [SNAPSHOT_EOF]))"
    by (auto simp: encode_snapshot_def write_body_eq joined_Cons)
  note hd = header_piece_ok [OF h]
  let ?body = "h @ q @ [SNAPSHOT_EOF]"
  have cut: "length bs - 4 = length ?body" "take (length ?body) bs = ?body"
    "drop (length ?body) bs = le_bytes 4 (crc32 ?body)" by (simp_all add: bs)
  have crc: "le_nat (le_bytes 4 (crc32 ?body)) = crc32 ?body"
    using crc32_less [of ?body] by (intro le_nat_le_bytes) simp
  have long: "\<not> length bs < HEADER_SIZE + 1 + 4" using hd(1) by (simp add: bs)
  have h24: "length h = 24" using hd(1) by (simp add: HEADER_SIZE_def)
  have fields: "take 6 ?body = MAGIC" "int (le_nat (take 2 (drop 6 ?body))) = SNAPSHOT_VERSION"
    "le_nat (take 8 (drop 16 ?body)) = length recs"
    using hd h24 by simp_all
  have ents: "read_entries (length recs) ?body HEADER_SIZE = (map stored recs, Inr (HEADER_SIZE + length q))"
    using reads_entries [OF q assms(2), of h "[SNAPSHOT_EOF]"] hd(1) by simp
  have "read_byte ?body (HEADER_SIZE + length q) = Inr (SNAPSHOT_EOF, HEADER_SIZE + length q + 1)"
    using hd(1) by (simp add: read_byte_def nth_append)
  then show ?thesis
    unfolding decode_snapshot_def Let_def cut crc fields using long by (simp only: ents) simp
qed

lemma load_dumped:
  assumes "dump_value p = Some bs" "storable p"
  shows "load_value bs = Inr p"
proof -
  from assms(1) obtain q where q: "joined (write_payload p) = Some q"
    and bs: "bs = (DUMP_VERSION # type_code p # q) @ le_bytes 4 (crc32 (DUMP_VERSION # type_code p # q))"
    by (auto simp: dump_value_eq joined_Cons)
  let ?body = "DUMP_VERSION # type_code p # q"
  have cut: "length bs - 4 = length ?body" "take (length ?body) bs = ?body"
    "drop (length ?body) bs = le_bytes 4 (crc32 ?body)" by (simp_all add: bs)
  have crc: "le_nat (le_bytes 4 (crc32 ?body)) = crc32 ?body"
    using crc32_less [of ?body] by (intro le_nat_le_bytes) simp
  have "reads (read_bind (known_type (type_code p)) (\<lambda>_. read_payload (type_code p))) ([] @ q) p"
  proof (rule reads_bind)
    show "reads (known_type (type_code p)) [] ()"
      using type_code_le [of p] by (simp add: reads_def known_type_def)
  qed (rule reads_payload [OF q assms(2)])
  from readsD [OF this, of "[DUMP_VERSION, type_code p]" "[]"]
  have rd: "read_bind (known_type (type_code p)) (\<lambda>_. read_payload (type_code p)) ?body 2 = Inr (p, 2 + length q)"
    by (simp add: numeral_2_eq_2)
  have ix: "?body ! 0 = DUMP_VERSION" "?body ! 1 = type_code p" by simp_all
  have long: "\<not> length bs < 2 + 4" by (simp add: bs)
  show ?thesis unfolding load_value_def Let_def cut crc ix rd using long by simp
qed

section \<open>Encoding succeeds\<close>

definition short_bytes :: "str \<Rightarrow> bool" where
  "short_bytes s \<longleftrightarrow> (case to_bytes s of None \<Rightarrow> False | Some d \<Rightarrow> length d < 2 ^ 32)"

fun payload_count :: "payload \<Rightarrow> nat" where
  "payload_count (PString s) = 0"
| "payload_count (PList xs) = length xs"
| "payload_count (PHash kvs) = length kvs"
| "payload_count (PSet xs) = length xs"
| "payload_count (PZset ms) = length ms"

definition payload_fits :: "payload \<Rightarrow> bool" where
  "payload_fits p \<longleftrightarrow> payload_count p < 2 ^ 32 \<and> (\<forall>s \<in> payload_texts p. short_bytes s)"

definition in_int64 :: "int \<Rightarrow> bool" where
  "in_int64 n \<longleftrightarrow> - (2 ^ 63) \<le> n \<and> n < 2 ^ 63"

definition time_fits :: "pyfloat \<Rightarrow> bool" where
  "time_fits t \<longleftrightarrow> (case millis t of None \<Rightarrow> False | Some n \<Rightarrow> in_int64 n)"

definition record_fits :: "snapshot_record \<Rightarrow> bool" where
  "record_fits rec = (case rec of (k, p, e) \<Rightarrow>
     wire_text k \<and> short_bytes k \<and> storable p \<and> payload_fits p \<and> (case e of None \<Rightarrow> True | Some t \<Rightarrow> time_fits t))"

lemma joined_total: "joined ps \<noteq> None \<longleftrightarrow> None \<notin> set ps"
  by (induction ps) (auto simp: joined_def split: option.split)

lemma pack_u_total: "0 \<le> v \<Longrightarrow> v < 256 ^ w \<Longrightarrow> pack_u w v \<noteq> None"
  by (simp add: pack_u_def)

lemma pack_time: "time_fits t \<Longrightarrow> Option.bind (millis t) (pack_i 8) \<noteq> None"
  by (auto simp: time_fits_def in_int64_def pack_i_def split: option.splits bind_splits)

lemma str_pieces_total: "short_bytes s \<Longrightarrow> None \<notin> set (str_pieces s)"
  by (auto simp: short_bytes_def str_pieces_def pack_u_def split: option.splits)

lemma count_total: "n < 2 ^ 32 \<Longrightarrow> pack_u 4 (int n) \<noteq> None"
  by (simp add: pack_u_def)

lemma payload_total:
  assumes "payload_fits p"
  shows "None \<notin> set (write_payload p)"
proof -
  have c: "payload_count p < 2 ^ 32" and t: "\<And>s. s \<in> payload_texts p \<Longrightarrow> None \<notin> set (str_pieces s)"
    using assms str_pieces_total by (auto simp: payload_fits_def)
  note n = count_total [OF c, symmetric]
  show ?thesis
    using n t by (cases p) (auto simp: write_payload_def image_iff Bex_def)
qed

lemma record_total: "record_fits rec \<Longrightarrow> None \<notin> set (record_pieces rec)"
proof -
  assume f: "record_fits rec"
  obtain k p e where rec: "rec = (k, p, e)" by (cases rec)
  have "joined [Some [type_code p], (case e of None \<Rightarrow> pack_i 8 (- 1) | Some t \<Rightarrow> Option.bind (millis t) (pack_i 8))] \<noteq> None"
    using f rec pack_time by (fastforce simp: joined_def record_fits_def pack_i_def split: option.splits)
  then show ?thesis
    using f rec str_pieces_total payload_total by (auto simp: record_fits_def record_pieces_def dest: sym)
qed

lemma encode_total:
  assumes "time_fits t" "length recs < 2 ^ 64" "\<forall>rec \<in> set recs. record_fits rec"
  shows "\<exists>bs. encode_snapshot t recs = Some bs"
proof -
  have "header_piece t (length recs) \<noteq> None"
    using pack_time [OF assms(1)] pack_u_total [of "int (length recs)" 8] assms(2)
    by (auto simp: header_piece_def joined_def pack_u_def SNAPSHOT_VERSION_def)
  then have "joined (header_piece t (length recs) # concat (map record_pieces recs)) \<noteq> None"
    unfolding joined_total using assms(3) record_total by (auto dest: sym)
  then show ?thesis by (auto simp: encode_snapshot_def write_body_eq)
qed

lemma dump_total: "payload_fits p \<Longrightarrow> \<exists>b. dump_value p = Some b"
  using payload_total [of p] joined_total [of "Some [DUMP_VERSION, type_code p] # write_payload p"]
  by (auto simp: dump_value_eq)

text \<open>
  C35. Snapshots are faithful: for records whose texts and scores are ones the server can hold and
  whose sizes fit the format's fields, encoding succeeds and decoding the bytes yields exactly the
  same keys and values with no error, deadlines rounded to the millisecond; and a value survives
  \<open>DUMP\<close> followed by the decoding of \<open>RESTORE\<close>.
\<close>

theorem snapshot_bytes_roundtrip:
  assumes "time_fits t" "length recs < 2 ^ 64" "\<forall>rec \<in> set recs. record_fits rec"
  shows "(\<exists>bs. encode_snapshot t recs = Some bs \<and> decode_snapshot source bs = (map stored recs, None))
    \<and> (\<forall>(k, p, e) \<in> set recs. \<exists>b. dump_value p = Some b \<and> load_value b = Inr p)"
proof
  have w: "\<forall>(k, p, e) \<in> set recs. wire_text k \<and> storable p"
    using assms(3) by (auto simp: record_fits_def)
  show "\<exists>bs. encode_snapshot t recs = Some bs \<and> decode_snapshot source bs = (map stored recs, None)"
    using encode_total [OF assms] decode_encoded [OF _ w] by blast
  show "\<forall>(k, p, e) \<in> set recs. \<exists>b. dump_value p = Some b \<and> load_value b = Inr p"
  proof clarify
    fix k p e
    assume "(k, p, e) \<in> set recs"
    then have "record_fits (k, p, e)" using assms(3) by blast
    then have "payload_fits p" "storable p" by (simp_all add: record_fits_def)
    then show "\<exists>b. dump_value p = Some b \<and> load_value b = Inr p"
      using dump_total load_dumped by blast
  qed
qed

theorem snapshot_bytes_roundtrip_witness:
  "\<exists>bs. encode_snapshot (int_div 1700000000123 1000)
      [(lit ''k'', PZset [(lit ''m'', Fin 7)], Some (int_div 1700000000999 1000)), (lit ''l'', PList [lit ''a'', lit ''b''], None)]
      = Some bs
    \<and> decode_snapshot (lit ''f'') bs =
        ([(lit ''k'', PZset [(lit ''m'', Fin 7)], Some (int_div 1700000000999 1000)), (lit ''l'', PList [lit ''a'', lit ''b''], None)], None)"
proof -
  have ms: "millis (int_div 1700000000123 1000) = Some 1700000000123"
    "millis (int_div 1700000000999 1000) = Some 1700000000999"
    unfolding millis_def by (rule millis_roundtrip; simp)+
  have f: "is_f64 (Fin 7)" using is_f64_int [of 7] by simp
  have t: "wire_text (lit ''k'')" "wire_text (lit ''l'')" "wire_text (lit ''m'')" "wire_text (lit ''a'')" "wire_text (lit ''b'')"
    by (rule wire_ascii; simp add: lit_def)+
  have b: "short_bytes (lit ''k'')" "short_bytes (lit ''l'')" "short_bytes (lit ''m'')" "short_bytes (lit ''a'')" "short_bytes (lit ''b'')"
    by (simp add: short_bytes_def lit_def enc_char_def)+
  let ?recs = "[(lit ''k'', PZset [(lit ''m'', Fin 7)], Some (int_div 1700000000999 1000)), (lit ''l'', PList [lit ''a'', lit ''b''], None)]"
  have r: "\<forall>rec \<in> set ?recs. record_fits rec"
    using t b f ms by (simp add: record_fits_def storable_def payload_fits_def time_fits_def in_int64_def)
  have s: "map stored ?recs = ?recs" using ms by (simp add: stored_def stored_expiry_def)
  have "time_fits (int_div 1700000000123 1000)" using ms by (simp add: time_fits_def in_int64_def)
  from snapshot_bytes_roundtrip [OF this _ r, of "lit ''f''"] show ?thesis unfolding s by simp
qed

end
