(* ===== verification/Aof_Replay.thy ===== *)
theory Aof_Replay
  imports Aof
begin

text \<open>
  Recovery from an append-only file: a file of whole records replays command by command; a record
  torn by a crash at the end is cut off; damage anywhere else is refused.
\<close>

section \<open>Record headers\<close>

lemma hex_digit_value: "d < 16 \<Longrightarrow> hex_value (hex_digit d) = Some d"
  by (simp add: hex_value_def hex_digit_def)

lemma hex_digit_range: "d < 16 \<Longrightarrow> 48 \<le> hex_digit d \<and> hex_digit d \<le> 57 \<or> 97 \<le> hex_digit d \<and> hex_digit d \<le> 102"
  by (simp add: hex_digit_def)

lemma scan_hex_digits:
  "ds \<noteq> [] \<Longrightarrow> (\<And>d. d \<in> set ds \<Longrightarrow> d < 16) \<Longrightarrow> scan_hex (map hex_digit ds) = Some ds"
proof (induction ds)
  case (Cons d ds)
  have "hex_value (hex_digit d) = Some d" using Cons.prems by (intro hex_digit_value) simp
  moreover have "hex_digit e \<noteq> 95" if "e \<in> set ds" for e
    using Cons.prems(2) [of e] hex_digit_range [of e] that by auto
  ultimately show ?case using Cons by (cases ds) auto
qed simp

lemma hex8_digits: "hex8 n = map hex_digit (map (\<lambda>i. n div 16 ^ (7 - i) mod 16) [0..<8])"
  by (simp add: hex8_def)

lemma hex8_range: "c \<in> set (hex8 n) \<Longrightarrow> 48 \<le> c \<and> c \<le> 57 \<or> 97 \<le> c \<and> c \<le> 102"
proof -
  assume "c \<in> set (hex8 n)"
  then obtain i where "c = hex_digit (n div 16 ^ (7 - i) mod 16)" by (auto simp: hex8_def)
  then show ?thesis using hex_digit_range [of "n div 16 ^ (7 - i) mod 16"] by simp
qed

lemma length_hex8 [simp]: "length (hex8 n) = 8"
  by (simp add: hex8_def)

lemma div_mod_step: "n div 16 ^ Suc k * 16 + n div 16 ^ k mod 16 = n div (16 :: nat) ^ k"
proof -
  have "n div 16 ^ Suc k = n div 16 ^ k div 16" by (simp only: power_Suc mult.commute [of 16] div_mult2_eq)
  then show ?thesis by simp
qed

lemma hex8_prefix:
  fixes n :: nat
  assumes "n < 2 ^ 32"
  shows "k \<le> 8 \<Longrightarrow> foldl (\<lambda>a d. 16 * a + d) 0 (map (\<lambda>i. n div 16 ^ (7 - i) mod 16) [0..<k]) = n div 16 ^ (8 - k)"
proof (induction k)
  case 0
  then show ?case using assms by simp
next
  case (Suc k)
  then have k: "8 - k = Suc (7 - k)" "8 - Suc k = 7 - k" "k \<le> 8" by simp_all
  have "foldl (\<lambda>a d. 16 * a + d) 0 (map (\<lambda>i. n div 16 ^ (7 - i) mod 16) [0..<Suc k])
      = 16 * (n div 16 ^ (8 - k)) + n div 16 ^ (7 - k) mod 16"
    using Suc.IH [OF k(3)] by simp
  also have "\<dots> = n div 16 ^ (7 - k)" using div_mod_step [of n "7 - k"] by (simp only: k(1) mult.commute)
  finally show ?case by (simp only: k(2))
qed

lemma hex8_value:
  fixes n :: nat
  assumes "n < 2 ^ 32"
  shows "foldl (\<lambda>a d. 16 * a + d) 0 (map (\<lambda>i. n div 16 ^ (7 - i) mod 16) [0..<8]) = n"
  using hex8_prefix [OF assms, of 8] by simp

lemma strip_bytes_id:
  "s \<noteq> [] \<Longrightarrow> \<not> is_space_byte (hd s) \<Longrightarrow> \<not> is_space_byte (last s) \<Longrightarrow> strip_bytes s = s"
  by (simp add: strip_bytes_def dropWhile_eq_self_iff [THEN iffD2] hd_rev)

lemma bytes_hex_hex8:
  assumes "n < 2 ^ 32"
  shows "bytes_hex (hex8 n) = Some (int n)"
proof -
  have ns: "\<not> is_space_byte c" if "c \<in> set (hex8 n)" for c
    using hex8_range [OF that] by (auto simp: is_space_byte_def)
  have ne: "hex8 n \<noteq> []" using length_hex8 [of n] by (metis length_0_conv zero_neq_numeral)
  have strip: "strip_bytes (hex8 n) = hex8 n"
    using ns ne by (intro strip_bytes_id) simp_all
  have sign: "scan_sign (hex8 n) = (False, hex8 n)"
  proof -
    obtain c cs where c: "hex8 n = c # cs" using ne by (cases "hex8 n") auto
    then have "c \<in> set (hex8 n)" by simp
    from hex8_range [OF this] show ?thesis by (auto simp: c)
  qed
  have body: "hex_body (hex8 n) = hex8 n"
  proof -
    have "hex8 n ! 1 \<in> set (hex8 n)" by (intro nth_mem) simp
    from hex8_range [OF this] have "hex8 n ! 1 \<noteq> 120" "hex8 n ! 1 \<noteq> 88" by auto
    then have "take 2 (hex8 n) \<noteq> [48, 120]" "take 2 (hex8 n) \<noteq> [48, 88]"
      by (auto dest: arg_cong [where f = "\<lambda>l. l ! 1"])
    then show ?thesis by (simp add: hex_body_def)
  qed
  let ?ds = "map (\<lambda>i. n div 16 ^ (7 - i) mod 16) [0..<8]"
  have "scan_hex (hex8 n) = Some ?ds"
    unfolding hex8_digits by (rule scan_hex_digits) auto
  then show ?thesis
    by (simp only: bytes_hex_def strip sign body prod.case option.map if_False Let_def hex8_value [OF assms])
qed

lemma split_words_two:
  assumes "\<And>c. c \<in> set a \<Longrightarrow> \<not> is_space_byte c" "\<And>c. c \<in> set b \<Longrightarrow> \<not> is_space_byte c" "a \<noteq> []" "b \<noteq> []"
  shows "split_words (a @ 32 # b) = [a, b]" "split_words (a @ [32]) = [a]" "split_words a = [a]"
proof -
  obtain x xs where a: "a = x # xs" using assms(3) by (cases a) auto
  obtain y ys where b: "b = y # ys" using assms(4) by (cases b) auto
  have sp: "is_space_byte 32" by (simp add: is_space_byte_def)
  have nil: "split_words [] = []" by (simp add: split_words.simps)
  have tw: "takeWhile (\<lambda>c. \<not> is_space_byte c) (l @ 32 # r) = l" "dropWhile (\<lambda>c. \<not> is_space_byte c) (l @ 32 # r) = 32 # r"
    if "\<forall>c \<in> set l. \<not> is_space_byte c" for l r :: bytes
    using that sp by (simp_all add: takeWhile_append dropWhile_append)
  have all: "takeWhile (\<lambda>c. \<not> is_space_byte c) l = l" "dropWhile (\<lambda>c. \<not> is_space_byte c) l = []"
    if "\<forall>c \<in> set l. \<not> is_space_byte c" for l :: bytes
    using that by simp_all
  have xs: "\<not> is_space_byte x" "\<forall>c \<in> set xs. \<not> is_space_byte c" and ys: "\<not> is_space_byte y" "\<forall>c \<in> set ys. \<not> is_space_byte c"
    using assms(1,2) by (auto simp: a b)
  have second: "split_words (32 # b) = [b]"
    by (subst split_words.simps) (simp add: sp b ys all [OF ys(2)] nil)
  show "split_words (a @ 32 # b) = [a, b]"
    by (subst split_words.simps) (simp add: a xs tw [OF xs(2)] second)
  have "split_words [32] = []" by (subst split_words.simps) (simp add: sp)
  then show "split_words (a @ [32]) = [a]"
    by (subst split_words.simps) (simp add: a xs tw [OF xs(2), of "[]"])
  show "split_words a = [a]"
    by (subst split_words.simps) (simp add: a xs all [OF xs(2)] nil)
qed

text \<open>The header line without its newline.\<close>

definition header_line :: "nat \<Rightarrow> nat \<Rightarrow> bytes" where
  "header_line crc n = 35 # hex8 crc @ 32 # nat_text n"

lemma frame_header: "frame_record payload = header_line (crc32 payload) (length payload) @ 10 # payload"
  by (simp add: frame_record_def header_line_def)

lemma text_no_space: "c \<in> set (nat_text n) \<Longrightarrow> \<not> is_space_byte c" "c \<in> set (hex8 m) \<Longrightarrow> \<not> is_space_byte c"
  using nat_text_range [of c n] hex8_range [of c m] by (auto simp: is_space_byte_def)

lemma v3_header_line:
  assumes "crc < 2 ^ 32" "n < 10 ^ 18"
  shows "v3_header (header_line crc n) = Some (int crc, int n)"
proof -
  have "hex8 crc \<noteq> []" using length_hex8 [of crc] by (metis length_0_conv zero_neq_numeral)
  then have "split_words (hex8 crc @ 32 # nat_text n) = [hex8 crc, nat_text n]"
    by (intro split_words_two) (simp_all add: text_no_space)
  then show ?thesis
    using bytes_hex_hex8 [OF assms(1)] bytes_int_text [OF assms(2)]
    by (simp add: v3_header_def header_line_def)
qed

lemma no_lf_header: "10 \<notin> set (header_line crc n)"
  using nat_text_range [of 10 n] hex8_range [of 10 crc] by (auto simp: header_line_def)

lemma find_lf_line: "10 \<notin> set l \<Longrightarrow> find_lf (l @ 10 # r) = Some (l, r)" "10 \<notin> set l \<Longrightarrow> find_lf l = None"
  by (induction l) auto



section \<open>Reading one record\<close>

definition fits_frame :: "bytes \<Rightarrow> bool" where
  "fits_frame p \<longleftrightarrow> length p < 10 ^ 18"

lemma crc32_bound: "crc32 p < 2 ^ 32"
  using crc32_less [of p] by simp


lemma header_head: "take (Suc 0) (header_line c n) = [35]" "take (Suc 0) (header_line c n @ x) = [35]"
  by (simp_all add: header_line_def)



lemma decode_v3_header:
  assumes "c < 2 ^ 32" "n < 10 ^ 18"
  shows "decode_record js (header_line c n @ 10 # p) =
    (if length p \<noteq> n then BadRecord (lit ''incomplete record'')
     else if crc32 p \<noteq> c then BadRecord (lit ''checksum mismatch'')
     else (case next_command (rq_feed p (request_parser_init DEFAULT_MAX_BULK)) of
             (Inl e, _) \<Rightarrow> BadPayload e
           | (Inr None, _) \<Rightarrow> BadRecord (lit ''record is not a RESP command'')
           | (Inr (Some []), _) \<Rightarrow> BadRecord (lit ''record is not a RESP command'')
           | (Inr (Some (c # args)), _) \<Rightarrow> Decoded c (map SArg args)))"
  by (simp add: decode_record_def decode_v3_def header_head find_lf_line no_lf_header v3_header_line [OF assms]
      del: take_append)


section \<open>Torn tails\<close>








section \<open>Replaying a file\<close>


definition log_record :: "str list \<Rightarrow> bytes" where
  "log_record c = frame_record (the (encode_command (map SArg c)))"











section \<open>Records that cannot be read back\<close>

text \<open>
  A record holds one command of at most \<open>MAX_ARRAY\<close> words, but a single \<open>SPOP\<close> or \<open>ZPOPMIN\<close> with a
  large count logs one \<open>SREM\<close> or \<open>ZREM\<close> with a word per member.
\<close>

lemma decode_too_long:
  assumes "MAX_ARRAY < int (length c)" "\<And>w. w \<in> set c \<Longrightarrow> wire_text w" "length c < 10 ^ 18"
    "encode_command (map SArg c) = Some p" "fits_frame p"
  shows "decode_record js (log_record c) = BadPayload (err ProtocolError ''invalid multibulk length'')"
proof -
  define ws where "ws = map (\<lambda>w. the (to_bytes w)) c"
  have w: "to_str (the (to_bytes w)) = w" "bytes_ok (the (to_bytes w))" if "w \<in> set c" for w
    using assms(2) [OF that] by (auto simp: wire_text_def to_bytes_ok)
  have map: "map to_str ws = c" using w by (simp add: ws_def map_idI)
  have len: "length ws = length c" by (simp add: ws_def)
  have "encode_command (map (\<lambda>w. SArg (to_str w)) ws) = Some (encoded ws)"
    unfolding encoded_def using w by (intro encode_words) (auto simp: ws_def)
  moreover have "map (\<lambda>w. SArg (to_str w)) ws = map SArg (map to_str ws)" by simp
  ultimately have p: "p = encoded ws" using assms(4) by (simp only: map option.inject)
  let ?p = "rq_feed p (request_parser_init DEFAULT_MAX_BULK)"
  have "parse_int (nat_text (length ws)) ''invalid multibulk length'' = Inr (int (length ws))"
    using assms(3) len by (simp add: parse_int_def bytes_int_text)
  moreover have "\<not> int (length ws) \<le> 0" using assms(1) len unfolding MAX_ARRAY_def by linarith
  ultimately have "next_command ?p = (Inl (err ProtocolError ''invalid multibulk length''), ?p\<lparr>rq_buf := bulks ws\<rparr>)"
    using assms(1) len
    by (simp add: next_command_def rq_feed_def request_parser_init_def p encoded_def find_crlf_line nat_text_no_cr)
  then show ?thesis
    using decode_v3_header [of "crc32 p" "length p" js p] crc32_bound [of p] assms(4,5)
    by (simp add: log_record_def frame_header fits_frame_def)
qed

end
