(* ===== verification/Resp_Reply.thy ===== *)
theory Resp_Reply
  imports Resp_Stream
begin

text \<open>
  The reply parser against the encoder: what a client (or the router) reads back from an encoded
  reply, nested arrays included.
\<close>

text \<open>
  How a reply looks on the other side: floats and byte strings are bulk strings, an error is
  rebuilt from its line.
\<close>

fun received :: "reply \<Rightarrow> reply" where
  "received RNil = RNil"
| "received (RSimple s) = RSimple s"
| "received (RBulk s) = RBulk s"
| "received (RInt n) = RInt n"
| "received (RArray rs) = RArray (map received rs)"
| "received (RFloat x) = RBulk (format_float x)"
| "received (RBytes bs) = RBulk (to_str bs)"
| "received (RError e) = RError (from_resp (one_line (to_resp e)))"

text \<open>
  Text on one line: no carriage return.  The engine's status replies are constants, and an error
  line has its line breaks replaced.
\<close>

definition line_text :: "str \<Rightarrow> bool" where
  "line_text s \<longleftrightarrow> wire_text s \<and> 13 \<notin> set (the (to_bytes s))"

definition short_text :: "str \<Rightarrow> bool" where
  "short_text s \<longleftrightarrow> wire_text s \<and> length (the (to_bytes s)) < 10 ^ 18"

fun reply_ok :: "reply \<Rightarrow> bool" where
  "reply_ok RNil = True"
| "reply_ok (RSimple s) = line_text s"
| "reply_ok (RBulk s) = short_text s"
| "reply_ok (RInt n) \<longleftrightarrow> \<bar>n\<bar> < 10 ^ 30"
| "reply_ok (RArray rs) \<longleftrightarrow> length rs < 10 ^ 18 \<and> list_all reply_ok rs"
| "reply_ok (RFloat x) = short_text (format_float x)"
| "reply_ok (RBytes bs) \<longleftrightarrow> bytes_ok bs \<and> length bs < 10 ^ 18"
| "reply_ok (RError e) = line_text (one_line (to_resp e))"

lemma wire_textD: "wire_text s \<Longrightarrow> to_bytes s = Some (the (to_bytes s)) \<and> to_str (the (to_bytes s)) = s"
  by (auto simp: wire_text_def)

lemma find_line: "13 \<notin> set l \<Longrightarrow> find_crlf (l @ CRLF @ r) = Some (l, r)"
  by (rule find_crlf_line)

lemma parse_bulk:
  assumes "length data < 10 ^ 18"
  shows "parse_reply (Suc fuel) (bulk data @ rest) = Parsed (RBulk (to_str data)) rest"
proof -
  have "find_crlf ((36 # nat_text (length data)) @ CRLF @ (data @ CRLF @ rest)) = Some (36 # nat_text (length data), data @ CRLF @ rest)"
    using nat_text_no_cr by (intro find_line) simp
  then show ?thesis using bytes_int_text [OF assms] by (simp add: bulk_def parse_int_def CRLF_def)
qed

lemma int_text_no_cr: "13 \<notin> set (int_text n)"
  using nat_text_no_cr by (auto simp: int_text_def)

lemma bytes_int_int_text:
  assumes "\<bar>n\<bar> < 10 ^ 30"
  shows "bytes_int (int_text n) = Some n"
proof -
  have digit: "\<not> is_space_byte c" if "c \<in> set (int_text n)" for c
    using that nat_text_range [of c] by (auto simp: is_space_byte_def int_text_def split: if_splits)
  have ne: "int_text n \<noteq> []" by (simp add: int_text_def)
  then have "strip_bytes (int_text n) = int_text n"
    using digit [of "hd (int_text n)"] digit [of "last (int_text n)"]
    by (simp add: strip_bytes_def dropWhile_eq_self_iff [THEN iffD2] hd_rev)
  moreover have "scan_digits (nat_text m) = Some (nat_digits m)" for m
    by (simp only: nat_text_digits) (rule scan_digits_ascii, auto dest: nat_digits_small)
  moreover have "nat \<bar>n\<bar> < 10 ^ 30" using assms by (simp add: nat_less_iff)
  then have "length (nat_digits (nat \<bar>n\<bar>)) \<le> 30" using length_nat_digits by simp
  moreover have "scan_sign (int_text n) = (n < 0, nat_text (nat \<bar>n\<bar>))"
    by (simp add: int_text_def scan_sign_digits)
  ultimately show ?thesis by (simp add: bytes_int_def digits_num_nat_digits)
qed

lemma parse_encoded:
  "reply_ok r \<Longrightarrow> encode_reply r = Some bs \<Longrightarrow> length bs \<le> fuel \<Longrightarrow> parse_reply fuel (bs @ rest) = Parsed (received r) rest"
  "list_all reply_ok rs \<Longrightarrow> encode_items rs = Some bs \<Longrightarrow> length bs \<le> fuel \<Longrightarrow>
   parse_items fuel (length rs) (bs @ rest) = Parsed (map received rs) rest"
proof (induction r and rs arbitrary: bs fuel rest and bs fuel rest rule: encode_reply_encode_items.induct)
  case 1
  have "find_crlf ((36 # [45, 49]) @ CRLF @ rest) = Some ([36, 45, 49], rest)" by (intro find_line) simp
  moreover have "bytes_int [45, 49] = Some (- 1)"
    using bytes_int_int_text [of "- 1"] by (simp add: int_text_def nat_text.simps)
  ultimately show ?case using 1 by (cases fuel) (auto simp: CRLF_def lit_def parse_int_def)
next
  case (2 s)
  then obtain m where m: "fuel = Suc m" by (cases fuel) auto
  have "find_crlf ((43 # the (to_bytes s)) @ CRLF @ rest) = Some (43 # the (to_bytes s), rest)"
    using 2 by (intro find_line) (simp add: line_text_def)
  then show ?case using 2 wire_textD [of s] m by (auto simp: line_text_def)
next
  case (3 s)
  then obtain m where m: "fuel = Suc m" by (cases fuel) (auto simp: bulk_def)
  show ?case using 3 wire_textD [of s] parse_bulk [of "the (to_bytes s)" m rest] m by (auto simp: short_text_def)
next
  case (4 n)
  then obtain m where m: "fuel = Suc m" by (cases fuel) auto
  have "find_crlf ((58 # int_text n) @ CRLF @ rest) = Some (58 # int_text n, rest)"
    using int_text_no_cr by (intro find_line) simp
  then show ?case using 4 m bytes_int_int_text [of n] by (auto simp: parse_int_def)
next
  case (5 rs)
  then obtain body where b: "encode_items rs = Some body" "bs = 42 # nat_text (length rs) @ CRLF @ body" by auto
  then obtain m where m: "fuel = Suc m" "length body \<le> m" using "5.prems"(3) by (cases fuel) (auto simp: CRLF_def)
  have "find_crlf ((42 # nat_text (length rs)) @ CRLF @ (body @ rest)) = Some (42 # nat_text (length rs), body @ rest)"
    using nat_text_no_cr by (intro find_line) simp
  moreover have "parse_items m (length rs) (body @ rest) = Parsed (map received rs) rest"
    using 5 b m by simp
  ultimately show ?case using b m bytes_int_text [of "length rs"] "5.prems"(1) by (simp add: parse_int_def)
next
  case (6 x)
  then obtain m where m: "fuel = Suc m" by (cases fuel) (auto simp: bulk_def)
  show ?case using 6 wire_textD [of "format_float x"] parse_bulk [of "the (to_bytes (format_float x))" m rest] m
    by (auto simp: short_text_def)
next
  case (7 data)
  then obtain m where m: "fuel = Suc m" by (cases fuel) (auto simp: bulk_def)
  show ?case using 7 parse_bulk [of data m rest] m by simp
next
  case (8 e)
  let ?s = "one_line (to_resp e)"
  obtain m where m: "fuel = Suc m" using 8 by (cases fuel) (auto simp: encode_error_def)
  have "find_crlf ((45 # the (to_bytes ?s)) @ CRLF @ rest) = Some (45 # the (to_bytes ?s), rest)"
    using 8 by (intro find_line) (simp add: line_text_def)
  then show ?case using 8 wire_textD [of ?s] m by (auto simp: line_text_def encode_error_def)
next
  case 9
  then show ?case by simp
next
  case (10 r rs)
  then obtain b1 b2 where b: "encode_reply r = Some b1" "encode_items rs = Some b2" "bs = b1 @ b2"
    by (auto split: option.splits)
  have "parse_reply fuel (b1 @ (b2 @ rest)) = Parsed (received r) (b2 @ rest)"
    using "10.IH"(1) [of b1 fuel "b2 @ rest"] "10.prems" b by simp
  moreover have "parse_items fuel (length rs) (b2 @ rest) = Parsed (map received rs) rest"
    using "10.IH"(2) "10.prems" b by simp
  ultimately show ?case using b(3) by simp
qed

section \<open>Incomplete replies\<close>

lemma no_line_not_ready: "find_crlf p = None \<Longrightarrow> parse_reply fuel p = NotReady"
  by (cases fuel) auto

text \<open>A reply that is one line.\<close>

lemma partial_line:
  assumes "p @ q = l @ CRLF" "q \<noteq> []" "13 \<notin> set l"
  shows "parse_reply fuel p = NotReady"
proof (rule no_line_not_ready)
  have "p @ q = l @ CRLF @ []" using assms(1) by simp
  from this assms(3) show "find_crlf p = None"
  proof (cases rule: line_cases)
    case (whole r)
    then show ?thesis using assms(2) by simp
  qed
qed

lemma partial_bulk:
  assumes "p @ q = bulk data" "q \<noteq> []" "length data < 10 ^ 18"
  shows "parse_reply fuel p = NotReady"
proof -
  have "p @ q = (36 # nat_text (length data)) @ CRLF @ (data @ CRLF)" using assms(1) by (simp add: bulk_def)
  moreover have "13 \<notin> set (36 # nat_text (length data))" using nat_text_no_cr by simp
  ultimately show ?thesis
  proof (cases rule: line_cases)
    case (whole r)
    have "length r < length data + 2" using arg_cong [OF whole(2), of length] assms(2) by (cases q) (auto simp: CRLF_def)
    then show ?thesis
      using whole(3) bytes_int_text [OF assms(3)] by (cases fuel) (auto simp: parse_int_def)
  next
    case part
    then show ?thesis by (intro no_line_not_ready)
  qed
qed

lemma parse_partial:
  "reply_ok r \<Longrightarrow> encode_reply r = Some (p @ q) \<Longrightarrow> q \<noteq> [] \<Longrightarrow> length p \<le> fuel \<Longrightarrow> parse_reply fuel p = NotReady"
  "list_all reply_ok rs \<Longrightarrow> encode_items rs = Some (p @ q) \<Longrightarrow> q \<noteq> [] \<Longrightarrow> length p \<le> fuel \<Longrightarrow>
   parse_items fuel (length rs) p = NotReady"
proof (induction r and rs arbitrary: p q fuel and p q fuel rule: encode_reply_encode_items.induct)
  case 1
  then show ?case by (intro partial_line [of p q "[36, 45, 49]"]) (simp_all add: lit_def)
next
  case (2 s)
  then show ?case by (intro partial_line [of p q "43 # the (to_bytes s)"]) (auto simp: line_text_def)
next
  case (3 s)
  then show ?case by (intro partial_bulk [of p q "the (to_bytes s)"]) (auto simp: short_text_def)
next
  case (4 n)
  then show ?case using int_text_no_cr by (intro partial_line [of p q "58 # int_text n"]) auto
next
  case (5 rs)
  then obtain body where b: "encode_items rs = Some body" "p @ q = (42 # nat_text (length rs)) @ CRLF @ body" by auto
  have cr: "13 \<notin> set (42 # nat_text (length rs))" using nat_text_no_cr by simp
  from b(2) cr show ?case
  proof (cases rule: line_cases)
    case (whole r)
    show ?thesis
    proof (cases fuel)
      case (Suc m)
      have "length r \<le> m" using "5.prems"(4) whole(1) Suc by (simp add: CRLF_def)
      then have "parse_items m (length rs) r = NotReady"
        using "5.IH" [of r q m] "5.prems" b(1) whole(2) by simp
      then show ?thesis using Suc whole(3) bytes_int_text [of "length rs"] "5.prems"(1) by (simp add: parse_int_def)
    qed simp
  next
    case part
    then show ?thesis by (intro no_line_not_ready)
  qed
next
  case (6 x)
  then show ?case by (intro partial_bulk [of p q "the (to_bytes (format_float x))"]) (auto simp: short_text_def)
next
  case (7 data)
  then show ?case by (intro partial_bulk [of p q data]) auto
next
  case (8 e)
  then show ?case
    by (intro partial_line [of p q "45 # the (to_bytes (one_line (to_resp e)))"]) (auto simp: line_text_def encode_error_def)
next
  case 9
  then show ?case by simp
next
  case (10 r rs)
  then obtain b1 b2 where b: "encode_reply r = Some b1" "encode_items rs = Some b2" "p @ q = b1 @ b2"
    by (auto split: option.splits)
  obtain us where us: "p = b1 @ us \<and> us @ q = b2 \<or> p @ us = b1 \<and> q = us @ b2"
    using b(3) by (auto simp: append_eq_append_conv2)
  consider (one) p' where "p = b1 @ p'" "p' @ q = b2" | (none) "p @ us = b1" "us \<noteq> []"
    using us by (cases "us = []") auto
  then show ?case
  proof cases
    case p': (one p')
    have "parse_reply fuel (b1 @ p') = Parsed (received r) p'"
      using parse_encoded(1) [of r b1 fuel p'] "10.prems" b(1) p' by simp
    moreover have "parse_items fuel (length rs) p' = NotReady"
      using "10.IH"(2) [of p' q fuel] "10.prems" b(2) p' by simp
    ultimately show ?thesis using p' by simp
  next
    case none
    then have "parse_reply fuel p = NotReady" using "10.IH"(1) [of p us fuel] "10.prems" b(1) by simp
    then show ?thesis by simp
  qed
qed

text \<open>
  C38.  A reply survives the wire in both directions of the protocol: once its bytes are there the
  parser returns it (floats and bytes as text, errors rebuilt from their line) and leaves exactly
  the bytes that follow; as long as any byte is missing it reports that it is not ready and
  keeps what it has.
\<close>

theorem reply_roundtrip:
  assumes "reply_ok r" "encode_reply r = Some bs"
  shows "next_reply (bs @ rest) = (Parsed (received r) rest, rest)
    \<and> (\<forall>p q. bs = p @ q \<longrightarrow> q \<noteq> [] \<longrightarrow> next_reply p = (NotReady, p))"
proof (intro conjI allI impI)
  show "next_reply (bs @ rest) = (Parsed (received r) rest, rest)"
    using parse_encoded(1) [OF assms, of "Suc (length (bs @ rest))" rest] by (simp add: next_reply_def)
  fix p q assume "bs = p @ q" "q \<noteq> []"
  then show "next_reply p = (NotReady, p)"
    using parse_partial(1) [of r p q "Suc (length p)"] assms by (simp add: next_reply_def)
qed

theorem reply_roundtrip_witness:
  "next_reply [42, 50, 13, 10, 58, 55, 13, 10, 36, 45, 49, 13, 10, 43] = (Parsed (RArray [RInt 7, RNil]) [43], [43])
   \<and> next_reply [42, 50, 13, 10, 58, 55] = (NotReady, [42, 50, 13, 10, 58, 55])"
proof -
  have e: "encode_reply (RArray [RInt 7, RNil]) = Some ([42, 50, 13, 10, 58, 55] @ [13, 10, 36, 45, 49, 13, 10])"
    by (simp add: int_text_def nat_text.simps CRLF_def lit_def)
  have "reply_ok (RArray [RInt 7, RNil])" by simp
  from reply_roundtrip [OF this e, of "[43]"] show ?thesis by auto
qed

end
