(* ===== verification/Persistence.thy ===== *)
theory Persistence
  imports Snapshot_File
begin

text \<open>
  \<open>engine/persistence/manifest.py\<close>, the \<open>AOFWriter\<close> of \<open>aof.py\<close> and
  \<open>engine/persistence/manager.py\<close>.  The data directory is part of the state.  A file holds bytes,
  or (the manifest) JSON text, taken as the value it denotes.  Whether a write, flush, fsync or
  snapshot succeeds is drawn from a list of outcomes; opening, renaming and truncating succeed.
  Background threads (the fsync of \<open>everysec\<close>, the snapshot writer, the closing of the previous
  AOF) are steps of their own.  Times measured for statistics are left out.
\<close>

section \<open>The data directory\<close>

datatype json = JNull | JBool bool | JInt int | JFloat pyfloat | JStr str | JList "json list" | JObj "(str \<times> json) list"

text \<open>\<open>NotJson\<close>: a text file the JSON decoder rejects, with its message.\<close>

datatype content = Raw bytes | Text json | NotJson str

text \<open>\<open>IoErr n msg\<close>: an \<open>OSError\<close> after \<open>n\<close> of the bytes got through.\<close>

datatype io_outcome = IoOk | IoErr nat str

text \<open>\<open>dk_synced\<close>: how many leading bytes of a log are known to be on stable storage.\<close>

record disk =
  dk_files :: "(str, content) dict"
  dk_synced :: "(str, nat) dict"
  dk_io :: "io_outcome list"

definition next_io :: "disk \<Rightarrow> io_outcome \<times> disk" where
  "next_io d = (case dk_io d of [] \<Rightarrow> (IoOk, d) | x # xs \<Rightarrow> (x, d\<lparr>dk_io := xs\<rparr>))"

definition file_bytes :: "str \<Rightarrow> disk \<Rightarrow> bytes" where
  "file_bytes name d = (case dict_get (dk_files d) name of Some (Raw bs) \<Rightarrow> bs | _ \<Rightarrow> [])"

definition put_file :: "str \<Rightarrow> content \<Rightarrow> disk \<Rightarrow> disk" where
  "put_file name c d = d\<lparr>dk_files := dict_set name c (dk_files d)\<rparr>"

definition append_file :: "str \<Rightarrow> bytes \<Rightarrow> disk \<Rightarrow> disk" where
  "append_file name bs d = put_file name (Raw (file_bytes name d @ bs)) d"

section \<open>The writer of the append-only file\<close>

datatype fsync_policy = FsyncAlways | FsyncEverysec | FsyncNo

fun fsync_name :: "fsync_policy \<Rightarrow> str" where
  "fsync_name FsyncAlways = lit ''always''"
| "fsync_name FsyncEverysec = lit ''everysec''"
| "fsync_name FsyncNo = lit ''no''"

record aof_writer =
  aw_name :: str
  aw_policy :: fsync_policy
  aw_fsyncs :: nat
  aw_background_error :: "str option"
  aw_buffer :: bytes
  aw_dirty :: bool
  aw_unsynced :: bool
  aw_closed :: bool

definition aw_open :: "str \<Rightarrow> fsync_policy \<Rightarrow> disk \<Rightarrow> aof_writer \<times> disk" where
  "aw_open name policy d =
     (\<lparr>aw_name = name, aw_policy = policy, aw_fsyncs = 0, aw_background_error = None, aw_buffer = [],
       aw_dirty = False, aw_unsynced = False, aw_closed = False\<rparr>, append_file name [] d)"

definition aw_size_bytes :: "aof_writer \<Rightarrow> disk \<Rightarrow> nat" where
  "aw_size_bytes w d = length (file_bytes (aw_name w) d) + length (aw_buffer w)"

text \<open>The methods return the message of an \<open>OSError\<close>, if one is raised.\<close>

definition aw_append :: "bytes \<Rightarrow> aof_writer \<Rightarrow> disk \<Rightarrow> str option \<times> aof_writer \<times> disk" where
  "aw_append payload w d0 =
     (case next_io d0 of
        (IoOk, d) \<Rightarrow> (None, w\<lparr>aw_buffer := aw_buffer w @ frame_record payload, aw_dirty := True\<rparr>, d)
      | (IoErr n msg, d) \<Rightarrow>
          (Some msg, w\<lparr>aw_buffer := drop n (aw_buffer w)\<rparr>, append_file (aw_name w) (take n (aw_buffer w)) d))"

definition aw_fsync :: "aof_writer \<Rightarrow> disk \<Rightarrow> str option \<times> aof_writer \<times> disk" where
  "aw_fsync w d0 =
     (if aw_closed w then (None, w\<lparr>aw_unsynced := False\<rparr>, d0)
      else case next_io d0 of
             (IoOk, d) \<Rightarrow>
               (None, w\<lparr>aw_fsyncs := aw_fsyncs w + 1, aw_unsynced := False\<rparr>,
                d\<lparr>dk_synced := dict_set (aw_name w) (length (file_bytes (aw_name w) d)) (dk_synced d)\<rparr>)
           | (IoErr _ msg, d) \<Rightarrow> (Some msg, w, d))"

definition aw_commit :: "aof_writer \<Rightarrow> disk \<Rightarrow> str option \<times> aof_writer \<times> disk" where
  "aw_commit w d0 =
     (if \<not> aw_dirty w then (None, w, d0)
      else case next_io d0 of
             (IoErr n msg, d) \<Rightarrow>
               (Some msg, w\<lparr>aw_buffer := drop n (aw_buffer w)\<rparr>, append_file (aw_name w) (take n (aw_buffer w)) d)
           | (IoOk, d) \<Rightarrow>
               let w1 = w\<lparr>aw_buffer := [], aw_dirty := False\<rparr>; d1 = append_file (aw_name w) (aw_buffer w) d
               in if aw_policy w = FsyncAlways then aw_fsync w1 d1
                  else (None, w1\<lparr>aw_unsynced := True\<rparr>, d1))"

definition aw_close :: "aof_writer \<Rightarrow> disk \<Rightarrow> str option \<times> aof_writer \<times> disk" where
  "aw_close w d =
     (if aw_closed w then (None, w, d)
      else case aw_commit w d of
             (Some msg, w1, d1) \<Rightarrow> (Some msg, w1, d1)
           | (None, w1, d1) \<Rightarrow>
               (case aw_fsync w1 d1 of
                  (Some msg, w2, d2) \<Rightarrow> (Some msg, w2, d2)
                | (None, w2, d2) \<Rightarrow> (None, w2\<lparr>aw_closed := True\<rparr>, d2)))"

text \<open>One round of the thread \<open>_fsync_every_second\<close>.\<close>

definition aw_fsync_tick :: "aof_writer \<Rightarrow> disk \<Rightarrow> aof_writer \<times> disk" where
  "aw_fsync_tick w d =
     (if aw_policy w \<noteq> FsyncEverysec \<or> \<not> aw_unsynced w then (w, d)
      else case aw_fsync w d of
             (None, w1, d1) \<Rightarrow> (w1, d1)
           | (Some msg, w1, d1) \<Rightarrow> (w1\<lparr>aw_background_error := Some msg\<rparr>, d1))"

section \<open>The manifest\<close>

definition MANIFEST_NAME :: str where "MANIFEST_NAME = lit ''manifest.json''"
definition LEGACY_AOF_NAME :: str where "LEGACY_AOF_NAME = lit ''appendonly.aof''"

definition aof_name :: "nat \<Rightarrow> str" where
  "aof_name generation = lit ''appendonly-'' @ nat_text generation @ lit ''.aof''"

definition snapshot_name :: "nat \<Rightarrow> str" where
  "snapshot_name generation = lit ''snapshot-'' @ nat_text generation @ lit ''.snap''"

text \<open>The regular expression \<open>appendonly-(\d+)\.aof\<close> on the whole name.\<close>

definition generation_of :: "str \<Rightarrow> nat" where
  "generation_of aof =
     (let p = lit ''appendonly-''; q = lit ''.aof''; mid = drop (length p) (take (length aof - length q) aof);
          ds = map digit_value mid
      in if take (length p) aof = p \<and> drop (length aof - length q) aof = q \<and> mid \<noteq> [] \<and> None \<notin> set ds
            \<and> length aof = length p + length mid + length q
         then digits_num (map the ds) else 0)"

record manifest =
  mf_snapshot :: "str option"
  mf_aofs :: "str list"

definition mf_files :: "manifest \<Rightarrow> str list" where
  "mf_files m = mf_aofs m @ (case mf_snapshot m of None \<Rightarrow> [] | Some s \<Rightarrow> if s = [] then [] else [s])"

definition mf_save :: "manifest \<Rightarrow> disk \<Rightarrow> disk" where
  "mf_save m d =
     put_file MANIFEST_NAME
       (Text (JObj [(lit ''version'', JInt 1),
                    (lit ''snapshot'', case mf_snapshot m of None \<Rightarrow> JNull | Some s \<Rightarrow> JStr s),
                    (lit ''aofs'', JList (map JStr (mf_aofs m)))])) d"

definition path_in :: "str \<Rightarrow> str \<Rightarrow> str" where
  "path_in dir name = dir @ lit ''/'' @ name"

text \<open>What indexing a decoded value with a string key gives: the member, or the exception's text.\<close>

fun json_member :: "str \<Rightarrow> json \<Rightarrow> str + json" where
  "json_member k (JObj kvs) =
     (case map_of (rev kvs) k of Some v \<Rightarrow> Inr v | None \<Rightarrow> Inl ([39] @ k @ [39]))"
| "json_member k (JList _) = Inl (lit ''list indices must be integers or slices, not str'')"
| "json_member k (JStr _) = Inl (lit ''string indices must be integers, not '' @ [39] @ lit ''str'' @ [39])"
| "json_member k (JInt _) = Inl ([39] @ lit ''int'' @ [39] @ lit '' object is not subscriptable'')"
| "json_member k (JBool _) = Inl ([39] @ lit ''bool'' @ [39] @ lit '' object is not subscriptable'')"
| "json_member k (JFloat _) = Inl ([39] @ lit ''float'' @ [39] @ lit '' object is not subscriptable'')"
| "json_member k JNull = Inl ([39] @ lit ''NoneType'' @ [39] @ lit '' object is not subscriptable'')"

fun json_strings :: "json list \<Rightarrow> str list option" where
  "json_strings [] = Some []"
| "json_strings (JStr s # js) = map_option (Cons s) (json_strings js)"
| "json_strings (_ # js) = None"

definition mf_error :: "str \<Rightarrow> str \<Rightarrow> kverror" where
  "mf_error dir msg = mk_error PersistenceError (path_in dir MANIFEST_NAME @ lit '': '' @ msg) None"

definition mf_of_json :: "str \<Rightarrow> json \<Rightarrow> kverror + manifest" where
  "mf_of_json dir j =
     (case json_member (lit ''snapshot'') j of
        Inl e \<Rightarrow> Inl (mf_error dir (lit ''unreadable manifest: '' @ e))
      | Inr snap \<Rightarrow>
          (case json_member (lit ''aofs'') j of
             Inl e \<Rightarrow> Inl (mf_error dir (lit ''unreadable manifest: '' @ e))
           | Inr aofs \<Rightarrow>
               (case (case aofs of JList (x # xs) \<Rightarrow> json_strings (x # xs) | _ \<Rightarrow> None) of
                  None \<Rightarrow> Inl (mf_error dir (lit ''manifest must list at least one AOF''))
                | Some names \<Rightarrow>
                    (case snap of
                       JNull \<Rightarrow> Inr \<lparr>mf_snapshot = None, mf_aofs = names\<rparr>
                     | JStr s \<Rightarrow> Inr \<lparr>mf_snapshot = Some s, mf_aofs = names\<rparr>
                     | _ \<Rightarrow> Inl (mf_error dir (lit ''invalid snapshot entry''))))))"

definition mf_load :: "str \<Rightarrow> disk \<Rightarrow> kverror + manifest option" where
  "mf_load dir d =
     (case dict_get (dk_files d) MANIFEST_NAME of
        None \<Rightarrow> Inr None
      | Some (Text j) \<Rightarrow> (case mf_of_json dir j of Inl e \<Rightarrow> Inl e | Inr m \<Rightarrow> Inr (Some m))
      | Some (NotJson msg) \<Rightarrow> Inl (mf_error dir (lit ''unreadable manifest: '' @ msg))
      | Some (Raw _) \<Rightarrow> Inl (mf_error dir (lit ''unreadable manifest: '')))"

end
