(* ===== verification/Manager.thy ===== *)
theory Manager
  imports Persistence
begin

text \<open>
  \<open>engine/persistence/manager.py\<close>: recovery, the live log and background rewrites.
\<close>

text \<open>
  The snapshot writer's future: what it has to write, its size once on disk, or the failure.
  \<open>ps_closing\<close> is the previous AOF while its thread is still closing it.
\<close>

datatype future = Writing "snapshot_record list" pyfloat | Written nat | WriteFailed

record rewrite_job =
  rj_snapshot :: str
  rj_future :: future

record persistence =
  ps_dir :: str
  ps_fsync :: fsync_policy
  ps_rewrite_percentage :: int
  ps_rewrite_min_bytes :: int
  ps_manifest :: manifest
  ps_writer :: "aof_writer option"
  ps_job :: "rewrite_job option"
  ps_copying :: "str option"
  ps_closing :: "aof_writer option"
  ps_write_error :: "str option"
  ps_base_size :: nat
  ps_records_loaded :: nat
  ps_truncated_bytes :: nat
  ps_snapshot_keys_loaded :: nat
  ps_rewrites_completed :: nat
  ps_rewrites_failed :: nat
  ps_last_rewrite_ok :: bool
  ps_last_save_time :: int
  ps_disk :: disk

definition clock_seconds :: "pyfloat \<Rightarrow> int" where
  "clock_seconds now = (case ftrunc now of Some n \<Rightarrow> n | None \<Rightarrow> 0)"

definition persistence_init :: "str \<Rightarrow> fsync_policy \<Rightarrow> int \<Rightarrow> int \<Rightarrow> pyfloat \<Rightarrow> disk \<Rightarrow> persistence" where
  "persistence_init dir policy percentage min_bytes now d =
     \<lparr>ps_dir = dir, ps_fsync = policy, ps_rewrite_percentage = percentage, ps_rewrite_min_bytes = min_bytes,
      ps_manifest = \<lparr>mf_snapshot = None, mf_aofs = [aof_name 1]\<rparr>, ps_writer = None, ps_job = None,
      ps_copying = None, ps_closing = None, ps_write_error = None, ps_base_size = 0, ps_records_loaded = 0,
      ps_truncated_bytes = 0, ps_snapshot_keys_loaded = 0, ps_rewrites_completed = 0, ps_rewrites_failed = 0,
      ps_last_rewrite_ok = True, ps_last_save_time = clock_seconds now, ps_disk = d\<rparr>"

definition is_open :: "persistence \<Rightarrow> bool" where
  "is_open p \<longleftrightarrow> ps_writer p \<noteq> None"

definition rewrite_in_progress :: "persistence \<Rightarrow> bool" where
  "rewrite_in_progress p \<longleftrightarrow> ps_job p \<noteq> None \<or> ps_copying p \<noteq> None"

section \<open>Startup\<close>

text \<open>\<open>_delete_unreferenced\<close>; a file that cannot be deleted stays.\<close>

definition ends_with :: "str \<Rightarrow> str \<Rightarrow> bool" where
  "ends_with suffix name \<longleftrightarrow> length suffix \<le> length name \<and> drop (length name - length suffix) name = suffix"

definition is_ours :: "str \<Rightarrow> bool" where
  "is_ours name \<longleftrightarrow> ends_with (lit ''.aof'') name \<or> ends_with (lit ''.snap'') name \<or> ends_with (lit ''.tmp'') name"

primrec unlink_all :: "str list \<Rightarrow> disk \<Rightarrow> disk" where
  "unlink_all [] d = d"
| "unlink_all (n # ns) d =
     (case next_io d of
        (IoOk, d1) \<Rightarrow> unlink_all ns (d1\<lparr>dk_files := dict_pop n (dk_files d1), dk_synced := dict_pop n (dk_synced d1)\<rparr>)
      | (IoErr _ _, d1) \<Rightarrow> unlink_all ns d1)"

definition delete_unreferenced :: "persistence \<Rightarrow> persistence" where
  "delete_unreferenced p =
     (let keep = MANIFEST_NAME # mf_files (ps_manifest p)
      in p\<lparr>ps_disk := unlink_all (filter (\<lambda>n. is_ours n \<and> n \<notin> set keep) (dict_keys (dk_files (ps_disk p)))) (ps_disk p)\<rparr>)"

text \<open>Replaying the logs of the manifest in order; only the last may have a torn tail.\<close>

fun replay_all ::
    "json_decoders \<Rightarrow> 's apply_fn \<Rightarrow> str list \<Rightarrow> persistence \<Rightarrow> 's \<Rightarrow> (exn + unit) \<times> persistence \<times> 's" where
  "replay_all js app [] p s = (Inr (), p, s)"
| "replay_all js app (name # names) p s =
     (case dict_get (dk_files (ps_disk p)) name of
        None \<Rightarrow> replay_all js app names p s
      | Some _ \<Rightarrow>
          (case replay_aof js (path_in (ps_dir p) name) app (names = []) (file_bytes name (ps_disk p)) s of
             (Inl e, s') \<Rightarrow> (Inl e, p, s')
           | (Inr (records, truncated, bs), s') \<Rightarrow>
               replay_all js app names
                 (p\<lparr>ps_records_loaded := ps_records_loaded p + records,
                    ps_truncated_bytes := ps_truncated_bytes p + truncated,
                    ps_disk := put_file name (Raw bs) (ps_disk p)\<rparr>) s'))"

definition load_base ::
    "(snapshot_record \<Rightarrow> 's \<Rightarrow> 's) \<Rightarrow> persistence \<Rightarrow> 's \<Rightarrow> (exn + unit) \<times> persistence \<times> 's" where
  "load_base load_rec p s =
     (case mf_snapshot (ps_manifest p) of
        None \<Rightarrow> (Inr (), p, s)
      | Some name \<Rightarrow>
          (case dict_get (dk_files (ps_disk p)) name of
             None \<Rightarrow> (Inl (Uncaught ''FileNotFoundError''), p, s)
           | Some _ \<Rightarrow>
               (case decode_snapshot (path_in (ps_dir p) name) (file_bytes name (ps_disk p)) of (recs, fault) \<Rightarrow>
                  let s' = fold load_rec recs s;
                      p' = p\<lparr>ps_snapshot_keys_loaded := ps_snapshot_keys_loaded p + length recs\<rparr>
                  in case fault of
                       Some e \<Rightarrow> (Inl e, p', s')
                     | None \<Rightarrow> (Inr (), p'\<lparr>ps_base_size := length (file_bytes name (ps_disk p))\<rparr>, s'))))"

definition ps_load ::
    "json_decoders \<Rightarrow> (snapshot_record \<Rightarrow> 's \<Rightarrow> 's) \<Rightarrow> 's apply_fn \<Rightarrow> persistence \<Rightarrow> 's \<Rightarrow> (exn + unit) \<times> persistence \<times> 's" where
  "ps_load js load_rec app p s =
     (case mf_load (ps_dir p) (ps_disk p) of
        Inl e \<Rightarrow> (Inl (Raised e), p, s)
      | Inr found \<Rightarrow>
          let p1 = (case found of
                      Some m \<Rightarrow> p\<lparr>ps_manifest := m\<rparr>
                    | None \<Rightarrow>
                        let legacy = dict_get (dk_files (ps_disk p)) LEGACY_AOF_NAME \<noteq> None;
                            m = \<lparr>mf_snapshot = None, mf_aofs = [if legacy then LEGACY_AOF_NAME else aof_name 1]\<rparr>
                        in p\<lparr>ps_manifest := m, ps_disk := mf_save m (ps_disk p)\<rparr>)
          in case load_base load_rec p1 s of
               (Inl e, p2, s2) \<Rightarrow> (Inl e, p2, s2)
             | (Inr _, p2, s2) \<Rightarrow>
                 (case replay_all js app (mf_aofs (ps_manifest p2)) p2 s2 of
                    (Inl e, p3, s3) \<Rightarrow> (Inl e, p3, s3)
                  | (Inr _, p3, s3) \<Rightarrow>
                      (case aw_open (last (mf_aofs (ps_manifest p3))) (ps_fsync p3) (ps_disk p3) of (w, d) \<Rightarrow>
                         (Inr (), delete_unreferenced (p3\<lparr>ps_writer := Some w, ps_disk := d\<rparr>), s3))))"

section \<open>Writes\<close>

text \<open>\<open>_fail\<close>: the error is remembered and raised.\<close>

definition ps_fail :: "str \<Rightarrow> persistence \<Rightarrow> (exn + unit) \<times> persistence" where
  "ps_fail msg p =
     (Inl (Raised (mk_error PersistenceWriteError (lit ''Errors writing to the AOF file: '' @ msg) None)),
      p\<lparr>ps_write_error := Some msg\<rparr>)"

definition ps_append :: "bytes \<Rightarrow> persistence \<Rightarrow> (exn + unit) \<times> persistence" where
  "ps_append payload p =
     (case ps_writer p of
        None \<Rightarrow> (Inl (Uncaught ''AssertionError''), p)
      | Some w \<Rightarrow>
          if ps_write_error p \<noteq> None then (Inr (), p)
          else (case aw_append payload w (ps_disk p) of
                  (None, w1, d1) \<Rightarrow> (Inr (), p\<lparr>ps_writer := Some w1, ps_disk := d1\<rparr>)
                | (Some msg, w1, d1) \<Rightarrow> ps_fail msg (p\<lparr>ps_writer := Some w1, ps_disk := d1\<rparr>)))"

definition ps_commit :: "persistence \<Rightarrow> (exn + unit) \<times> persistence" where
  "ps_commit p =
     (case ps_writer p of
        None \<Rightarrow> (Inr (), p)
      | Some w \<Rightarrow>
          if ps_write_error p \<noteq> None then (Inr (), p)
          else (case aw_background_error w of
                  Some msg \<Rightarrow> ps_fail msg (p\<lparr>ps_writer := Some (w\<lparr>aw_background_error := None\<rparr>)\<rparr>)
                | None \<Rightarrow>
                    (case aw_commit w (ps_disk p) of
                       (None, w1, d1) \<Rightarrow> (Inr (), p\<lparr>ps_writer := Some w1, ps_disk := d1\<rparr>)
                     | (Some msg, w1, d1) \<Rightarrow> ps_fail msg (p\<lparr>ps_writer := Some w1, ps_disk := d1\<rparr>))))"

definition check_writable :: "persistence \<Rightarrow> kverror + unit" where
  "check_writable p =
     (case ps_write_error p of
        None \<Rightarrow> Inr ()
      | Some msg \<Rightarrow>
          Inl (mk_error PersistenceWriteError (lit ''Errors writing to the AOF file: '' @ msg
                 @ lit ''. Writes are disabled until the node is restarted.'') None))"

section \<open>Rewrites\<close>

text \<open>The thread \<open>_close_previous\<close>, and waiting for it.\<close>

definition closing_step :: "persistence \<Rightarrow> persistence" where
  "closing_step p =
     (case ps_closing p of
        None \<Rightarrow> p
      | Some old \<Rightarrow>
          (case aw_close old (ps_disk p) of
             (None, _, d) \<Rightarrow> p\<lparr>ps_closing := None, ps_disk := d\<rparr>
           | (Some msg, _, d) \<Rightarrow>
               p\<lparr>ps_closing := None, ps_disk := d,
                 ps_writer := map_option (\<lambda>w. w\<lparr>aw_background_error := Some msg\<rparr>) (ps_writer p)\<rparr>))"

definition rewrite_running :: kverror where
  "rewrite_running = err CommandError ''Background append only file rewriting already in progress''"

text \<open>An \<open>OSError\<close> of the old log's commit leaves the method before anything is switched.\<close>

definition begin_rewrite :: "persistence \<Rightarrow> (exn + unit) \<times> persistence" where
  "begin_rewrite p0 =
     (if ps_job p0 \<noteq> None \<or> ps_copying p0 \<noteq> None then (Inl (Raised rewrite_running), p0)
      else case ps_writer p0 of
             None \<Rightarrow> (Inl (Uncaught ''AssertionError''), p0)
           | Some _ \<Rightarrow>
               let p = closing_step p0; generation = generation_of (last (mf_aofs (ps_manifest p))) + 1;
                   new_aof = aof_name generation
               in case aw_commit (the (ps_writer p)) (ps_disk p) of
                    (Some msg, old, d) \<Rightarrow> (Inl (Uncaught ''OSError''), p\<lparr>ps_writer := Some old, ps_disk := d\<rparr>)
                  | (None, old, d) \<Rightarrow>
                      (case aw_open new_aof (ps_fsync p) d of (w, d1) \<Rightarrow>
                         let m = \<lparr>mf_snapshot = mf_snapshot (ps_manifest p), mf_aofs = mf_aofs (ps_manifest p) @ [new_aof]\<rparr>
                         in (Inr (), p\<lparr>ps_manifest := m, ps_disk := mf_save m d1, ps_writer := Some w,
                                       ps_copying := Some (snapshot_name generation), ps_closing := Some old\<rparr>)))"

definition abandon_copy :: "persistence \<Rightarrow> persistence" where
  "abandon_copy p = p\<lparr>ps_copying := None\<rparr>"

definition finish_copy :: "snapshot_record list \<Rightarrow> pyfloat \<Rightarrow> persistence \<Rightarrow> (exn + unit) \<times> persistence" where
  "finish_copy records created_at p =
     (case ps_copying p of
        None \<Rightarrow> (Inl (Uncaught ''AssertionError''), p)
      | Some name \<Rightarrow>
          (Inr (), p\<lparr>ps_copying := None,
                     ps_job := Some \<lparr>rj_snapshot = name, rj_future = Writing records created_at\<rparr>\<rparr>))"

text \<open>\<open>write_snapshot\<close>: a failure leaves a file \<open>.tmp\<close> behind; success is the atomic rename.\<close>

definition write_snapshot :: "str \<Rightarrow> snapshot_record list \<Rightarrow> pyfloat \<Rightarrow> disk \<Rightarrow> nat option \<times> disk" where
  "write_snapshot name records created_at d0 =
     (let tmp = name @ lit ''.tmp'' in
      case write_body created_at records of
        None \<Rightarrow> (None, put_file tmp (Raw []) d0)
      | Some (bs, n) \<Rightarrow>
          (case next_io d0 of
             (IoOk, d) \<Rightarrow> (Some n, put_file name (Raw bs) (d\<lparr>dk_files := dict_pop tmp (dk_files d)\<rparr>))
           | (IoErr m _, d) \<Rightarrow> (None, put_file tmp (Raw (take m bs)) d)))"

text \<open>The thread \<open>snapshot-writer\<close>.\<close>

definition snapshot_writer_step :: "persistence \<Rightarrow> persistence" where
  "snapshot_writer_step p =
     (case ps_job p of
        Some j \<Rightarrow>
          (case rj_future j of
             Writing records created_at \<Rightarrow>
               (case write_snapshot (rj_snapshot j) records created_at (ps_disk p) of (r, d) \<Rightarrow>
                  p\<lparr>ps_job := Some (j\<lparr>rj_future := (case r of None \<Rightarrow> WriteFailed | Some n \<Rightarrow> Written n)\<rparr>), ps_disk := d\<rparr>)
           | _ \<Rightarrow> p)
      | None \<Rightarrow> p)"

definition ps_finish :: "pyfloat \<Rightarrow> persistence \<Rightarrow> persistence" where
  "ps_finish now p =
     (case ps_job p of
        None \<Rightarrow> p
      | Some j \<Rightarrow>
          (case rj_future j of
             Written n \<Rightarrow>
               let m = \<lparr>mf_snapshot = Some (rj_snapshot j), mf_aofs = [last (mf_aofs (ps_manifest p))]\<rparr>;
                   p1 = delete_unreferenced (p\<lparr>ps_job := None, ps_manifest := m, ps_disk := mf_save m (ps_disk p)\<rparr>)
               in p1\<lparr>ps_base_size := n, ps_rewrites_completed := ps_rewrites_completed p1 + 1,
                     ps_last_rewrite_ok := True, ps_last_save_time := clock_seconds now\<rparr>
           | _ \<Rightarrow> p\<lparr>ps_job := None, ps_rewrites_failed := ps_rewrites_failed p + 1, ps_last_rewrite_ok := False\<rparr>))"

definition poll :: "pyfloat \<Rightarrow> persistence \<Rightarrow> bool \<times> persistence" where
  "poll now p =
     (case ps_job p of
        None \<Rightarrow> (False, p)
      | Some j \<Rightarrow>
          (case rj_future j of
             Writing _ _ \<Rightarrow> (False, p)
           | _ \<Rightarrow> if ps_closing p \<noteq> None then (False, p) else (True, ps_finish now p)))"

definition ps_wait_rewrite :: "pyfloat \<Rightarrow> persistence \<Rightarrow> persistence" where
  "ps_wait_rewrite now p0 =
     (let p = closing_step p0
      in if ps_job p = None then p else ps_finish now (snapshot_writer_step p))"

definition should_auto_rewrite :: "persistence \<Rightarrow> bool" where
  "should_auto_rewrite p \<longleftrightarrow>
     \<not> (ps_job p \<noteq> None \<or> ps_copying p \<noteq> None \<or> ps_rewrite_percentage p = 0) \<and>
     (case ps_writer p of
        None \<Rightarrow> False
      | Some w \<Rightarrow>
          let n = int (aw_size_bytes w (ps_disk p))
          in \<not> n < ps_rewrite_min_bytes p \<and> int (ps_base_size p) * ps_rewrite_percentage p \<le> n * 100)"

section \<open>Shutdown\<close>

definition ps_close :: "pyfloat \<Rightarrow> persistence \<Rightarrow> (exn + unit) \<times> persistence" where
  "ps_close now p0 =
     (let p = closing_step (ps_wait_rewrite now p0) in
      case ps_writer p of
        None \<Rightarrow> (Inr (), p)
      | Some w \<Rightarrow>
          (case aw_close w (ps_disk p) of
             (None, _, d) \<Rightarrow> (Inr (), p\<lparr>ps_writer := None, ps_disk := d\<rparr>)
           | (Some msg, w1, d) \<Rightarrow>
               if ps_write_error p = None then (Inl (Uncaught ''OSError''), p\<lparr>ps_writer := Some w1, ps_disk := d\<rparr>)
               else (Inr (), p\<lparr>ps_writer := None, ps_disk := d\<rparr>)))"

end
