(* ===== verification/Registry.thy ===== *)
theory Registry
  imports Aof
begin

text \<open>
  \<open>engine/commands/registry.py\<close>: the metadata of a command and the parsing of arguments.  An
  argument parser returns the exception it raises or the value.
\<close>

section \<open>Command metadata\<close>

text \<open>\<open>ks_last = None\<close> is the source's \<open>last=-1\<close>, "to the end".\<close>

record key_spec =
  kp_first :: nat
  kp_last :: "nat option"
  kp_step :: nat

definition SINGLE_KEY :: key_spec where "SINGLE_KEY = \<lparr>kp_first = 0, kp_last = Some 0, kp_step = 1\<rparr>"
definition ALL_KEYS :: key_spec where "ALL_KEYS = \<lparr>kp_first = 0, kp_last = None, kp_step = 1\<rparr>"
definition EVERY_OTHER_KEY :: key_spec where "EVERY_OTHER_KEY = \<lparr>kp_first = 0, kp_last = None, kp_step = 2\<rparr>"

datatype flag = WRITE | DENYOOM | READONLY | STATELESS | ADMIN

fun flag_name :: "flag \<Rightarrow> str" where
  "flag_name WRITE = lit ''write''"
| "flag_name DENYOOM = lit ''denyoom''"
| "flag_name READONLY = lit ''readonly''"
| "flag_name STATELESS = lit ''stateless''"
| "flag_name ADMIN = lit ''admin''"

text \<open>\<open>CommandSpec\<close> without its handler, which \<open>run_handler\<close> finds by the name.\<close>

record command_spec =
  cs_name :: str
  cs_min_args :: nat
  cs_max_args :: "nat option"
  cs_flags :: "flag list"
  cs_key_spec :: "key_spec option"

text \<open>The decorator \<open>command\<close>: a command that does not write is read-only.\<close>

definition mk_command :: "string \<Rightarrow> nat \<Rightarrow> nat option \<Rightarrow> flag list \<Rightarrow> key_spec option \<Rightarrow> str \<times> command_spec" where
  "mk_command name min_args max_args flags keys =
     (lit name, \<lparr>cs_name = lit name, cs_min_args = min_args, cs_max_args = max_args,
        cs_flags = flags @ (if WRITE \<in> set flags then [] else [READONLY]), cs_key_spec = keys\<rparr>)"

definition is_write :: "command_spec \<Rightarrow> bool" where
  "is_write c \<longleftrightarrow> WRITE \<in> set (cs_flags c)"

definition arity :: "command_spec \<Rightarrow> int" where
  "arity c = (if cs_max_args c = Some (cs_min_args c) then int (cs_min_args c) + 1 else - (int (cs_min_args c) + 1))"

text \<open>\<open>name.lower()\<close>: the names are ASCII.\<close>

definition wrong_arity :: "str \<Rightarrow> exn" where
  "wrong_arity name =
     Raised (mk_error WrongArityError
       (lit ''wrong number of arguments for '' @ [39] @ lower_ascii name @ [39] @ lit '' command'') None)"

definition check_arity :: "command_spec \<Rightarrow> 'a list \<Rightarrow> exn + unit" where
  "check_arity c args =
     (if length args < cs_min_args c \<or> (case cs_max_args c of None \<Rightarrow> False | Some m \<Rightarrow> m < length args)
      then Inl (wrong_arity (cs_name c)) else Inr ())"

text \<open>\<open>args[first : last + 1 : step]\<close>.\<close>

fun every_nth :: "nat \<Rightarrow> 'a list \<Rightarrow> 'a list" where
  "every_nth n [] = []"
| "every_nth n (x # xs) = x # every_nth n (drop (n - 1) xs)"

definition spec_keys :: "command_spec \<Rightarrow> 'a list \<Rightarrow> 'a list" where
  "spec_keys c args =
     (case cs_key_spec c of
        None \<Rightarrow> []
      | Some k \<Rightarrow>
          (case kp_last k of
             None \<Rightarrow> every_nth (kp_step k) (drop (kp_first k) args)
           | Some l \<Rightarrow> every_nth (kp_step k) (drop (kp_first k) (take (l + 1) args))))"

text \<open>\<open>[k for k in spec.keys(args) if isinstance(k, str)]\<close>.\<close>

primrec str_keys :: "arg list \<Rightarrow> str list" where
  "str_keys [] = []"
| "str_keys (a # as) = (case a of SArg k \<Rightarrow> k # str_keys as | _ \<Rightarrow> str_keys as)"

definition command_keys :: "command_spec \<Rightarrow> arg list \<Rightarrow> str list" where
  "command_keys c args = str_keys (spec_keys c args)"

section \<open>Arguments\<close>

definition INT64_MIN :: int where "INT64_MIN = - (2 ^ 63)"
definition INT64_MAX :: int where "INT64_MAX = 2 ^ 63 - 1"

abbreviation invalid :: "string \<Rightarrow> exn" where
  "invalid msg \<equiv> Raised (err InvalidArgumentError msg)"

definition key_arg :: "arg \<Rightarrow> exn + str" where
  "key_arg a = (case a of SArg s \<Rightarrow> Inr s | _ \<Rightarrow> Inl (invalid ''key must be a string''))"

definition str_arg :: "arg \<Rightarrow> exn + str" where
  "str_arg a = (case a of SArg s \<Rightarrow> Inr s | _ \<Rightarrow> Inl (invalid ''value must be a string''))"

definition in_range64 :: "int \<Rightarrow> bool" where
  "in_range64 n \<longleftrightarrow> INT64_MIN \<le> n \<and> n \<le> INT64_MAX"

definition int_arg :: "arg \<Rightarrow> exn + int" where
  "int_arg a =
     (case (case a of IArg n \<Rightarrow> Some n | SArg s \<Rightarrow> py_int s | _ \<Rightarrow> None) of
        Some n \<Rightarrow> if in_range64 n then Inr n else Inl (invalid ''value is not an integer or out of range'')
      | None \<Rightarrow> Inl (invalid ''value is not an integer or out of range''))"

text \<open>\<open>float(n)\<close> of an integer too large for a float is an \<open>OverflowError\<close>, which is not caught.\<close>

definition float_arg :: "arg \<Rightarrow> exn + pyfloat" where
  "float_arg a =
     (case a of
        SArg s \<Rightarrow>
          (case py_float s of
             Some x \<Rightarrow> if x = NaN then Inl (invalid ''value is not a valid float'') else Inr x
           | None \<Rightarrow> Inl (invalid ''value is not a valid float''))
      | IArg n \<Rightarrow>
          (case round64 (of_int n) of Fin q \<Rightarrow> Inr (Fin q) | _ \<Rightarrow> Inl (Uncaught ''OverflowError''))
      | FArg x \<Rightarrow> if x = NaN then Inl (invalid ''value is not a valid float'') else Inr x
      | BArg _ \<Rightarrow> Inl (invalid ''value is not a valid float''))"

definition score_bound :: "arg \<Rightarrow> exn + pyfloat \<times> bool" where
  "score_bound a =
     (let text = arg_str a; exclusive = (take 1 text = [40])
      in case py_float (if exclusive then drop 1 text else text) of
           None \<Rightarrow> Inl (invalid ''min or max is not a float'')
         | Some x \<Rightarrow> if x = NaN then Inl (invalid ''min or max is not a float'') else Inr (x, exclusive))"

definition upper_arg :: "arg \<Rightarrow> str" where
  "upper_arg a = (case a of SArg s \<Rightarrow> py_upper s | _ \<Rightarrow> [])"

definition syntax_error :: exn where
  "syntax_error = invalid ''syntax error''"

definition check_int64 :: "int \<Rightarrow> exn + int" where
  "check_int64 n = (if in_range64 n then Inr n else Inl (invalid ''increment or decrement would overflow''))"

end
