(* ===== verification/Engine_State.thy ===== *)
theory Engine_State
  imports Manager Registry
begin

text \<open>
  The state of \<open>engine/engine.py\<close> and the part of it the command handlers use
  (\<open>CommandContext\<close>).  A handler runs in a state-exception monad over the engine: whatever was
  changed before an exception stays changed, as in Python.
\<close>

section \<open>The engine\<close>

text \<open>
  \<open>ReplicationFeed\<close> as the engine uses it: whether it is active, and the calls made to it.
  \<open>st_out\<close> of the store is the history of all effects, expiries included; the first \<open>en_sent\<close> of
  them have been handed to the log and the feed.
\<close>

datatype feed_call = Fed bytes | Flushed

record feed =
  fd_active :: bool
  fd_calls :: "feed_call list"

text \<open>
  Who gets the copy of the running snapshot: the rewrite, or the caller of \<open>begin_snapshot\<close>.
  \<open>en_set_order\<close> is the order in which Python iterates over a \<open>set\<close> built from the given members,
  which depends on the hash seed of the process; \<open>en_time_ns\<close> is \<open>time.time_ns()\<close>.
\<close>

text \<open>
  What \<open>INFO\<close> reports of the process and of the owner of the engine: the process id, the uptime, the
  durations measured (\<open>None\<close>: not yet), and the sections of \<open>extra_info\<close>.
\<close>

datatype info_field = FBool bool | FNone | FInt int | FText str

record facts =
  fc_pid :: int
  fc_uptime :: int
  fc_rewrite_ms :: "str option"
  fc_pause_ms :: "str option"
  fc_extra :: "(str \<times> (str \<times> info_field) list) list"

datatype snapshot_target = ToRewrite | ToCaller

record engine =
  en_store :: store
  en_persist :: "persistence option"
  en_replaying :: bool
  en_incremental :: bool
  en_slice_keys :: nat
  en_gc_held :: bool
  en_gc_holds :: nat
  en_feed :: "feed option"
  en_target :: snapshot_target
  en_delivered :: "snapshot_record list list"
  en_sent :: nat
  en_commit_depth :: int
  en_commands :: int
  en_started_wall :: int
  en_set_order :: "str list \<Rightarrow> str list"
  en_time_ns :: int
  en_facts :: facts

type_synonym 'a cmd = "engine \<Rightarrow> (exn + 'a) \<times> engine"

definition ret :: "'a \<Rightarrow> 'a cmd" where
  "ret x e = (Inr x, e)"

definition throw :: "exn \<Rightarrow> 'a cmd" where
  "throw x e = (Inl x, e)"

definition bnd :: "'a cmd \<Rightarrow> ('a \<Rightarrow> 'b cmd) \<Rightarrow> 'b cmd" where
  "bnd m f e = (case m e of (Inl x, e') \<Rightarrow> (Inl x, e') | (Inr v, e') \<Rightarrow> f v e')"

definition lift :: "exn + 'a \<Rightarrow> 'a cmd" where
  "lift r e = (r, e)"

definition asks :: "(engine \<Rightarrow> 'a) \<Rightarrow> 'a cmd" where
  "asks f e = (Inr (f e), e)"

primrec map_cmd :: "('a \<Rightarrow> 'b cmd) \<Rightarrow> 'a list \<Rightarrow> 'b list cmd" where
  "map_cmd f [] = ret []"
| "map_cmd f (x # xs) = bnd (f x) (\<lambda>y. bnd (map_cmd f xs) (\<lambda>ys. ret (y # ys)))"

section \<open>Garbage collector holds\<close>

definition gc_hold :: "engine \<Rightarrow> engine" where
  "gc_hold e = e\<lparr>en_gc_holds := en_gc_holds e + 1\<rparr>"

definition gc_release :: "engine \<Rightarrow> engine" where
  "gc_release e = (if en_gc_holds e = 0 then e else e\<lparr>en_gc_holds := en_gc_holds e - 1\<rparr>)"

definition release_gc :: "engine \<Rightarrow> engine" where
  "release_gc e =
     (if en_gc_held e \<and> \<not> (case en_persist e of None \<Rightarrow> False | Some p \<Rightarrow> rewrite_in_progress p)
      then gc_release (e\<lparr>en_gc_held := False\<rparr>) else e)"

section \<open>Effects\<close>

text \<open>
  \<open>Engine.propagate\<close> for one effect: encoded once, appended to the log, then fed to the replicas.
  An error of the log keeps the effect from the replicas.
\<close>

definition feed_active :: "engine \<Rightarrow> bool" where
  "feed_active e \<longleftrightarrow> (case en_feed e of None \<Rightarrow> False | Some f \<Rightarrow> fd_active f)"

definition log_open :: "engine \<Rightarrow> bool" where
  "log_open e \<longleftrightarrow> (case en_persist e of None \<Rightarrow> False | Some p \<Rightarrow> is_open p)"

definition log_append :: "bytes \<Rightarrow> unit cmd" where
  "log_append payload e =
     (case en_persist e of
        Some p \<Rightarrow>
          if is_open p then (case ps_append payload p of (r, p') \<Rightarrow> (r, e\<lparr>en_persist := Some p'\<rparr>)) else (Inr (), e)
      | None \<Rightarrow> (Inr (), e))"

definition feed_append :: "bytes \<Rightarrow> unit cmd" where
  "feed_append payload e =
     (Inr (), case en_feed e of
                Some f \<Rightarrow> if fd_active f then e\<lparr>en_feed := Some (f\<lparr>fd_calls := fd_calls f @ [Fed payload]\<rparr>)\<rparr> else e
              | None \<Rightarrow> e)"

definition send_effect :: "str list \<Rightarrow> unit cmd" where
  "send_effect words e =
     (if \<not> log_open e \<and> \<not> feed_active e then (Inr (), e)
      else case encode_command (map SArg words) of
             None \<Rightarrow> (Inl (Uncaught ''UnicodeEncodeError''), e)
           | Some payload \<Rightarrow> bnd (log_append payload) (\<lambda>_. feed_append payload) e)"

primrec send_effects :: "str list list \<Rightarrow> unit cmd" where
  "send_effects [] = ret ()"
| "send_effects (w # ws) = bnd (send_effect w) (\<lambda>_. send_effects ws)"

text \<open>While records are replayed, nothing is passed on.  An error ends the passing on.\<close>

definition hand_over :: "unit cmd" where
  "hand_over e0 =
     (let fresh = drop (en_sent e0) (st_out (en_store e0)); e = e0\<lparr>en_sent := length (st_out (en_store e0))\<rparr>
      in if en_replaying e then (Inr (), e) else send_effects fresh e)"

text \<open>The callback of a finished copy: the hold is released and the records go where they are wanted.\<close>

definition deliver_one :: "snapshot_record list \<Rightarrow> unit cmd" where
  "deliver_one records e0 =
     (let e = gc_release e0 in
      case en_target e of
        ToCaller \<Rightarrow> (Inr (), e\<lparr>en_delivered := en_delivered e @ [records]\<rparr>)
      | ToRewrite \<Rightarrow>
          (case en_persist e of
             None \<Rightarrow> (Inl (Uncaught ''AssertionError''), e)
           | Some p \<Rightarrow> (case finish_copy records (st_now (en_store e)) p of (r, p') \<Rightarrow> (r, e\<lparr>en_persist := Some p'\<rparr>))))"

primrec deliver :: "snapshot_record list list \<Rightarrow> unit cmd" where
  "deliver [] = ret ()"
| "deliver (r # rs) = bnd (deliver_one r) (\<lambda>_. deliver rs)"

text \<open>
  A call of a store method: the callbacks it triggers (a finished copy, the effects of expiries)
  run before its result is used.  They run when the method has done its work: an error of the log in
  a callback reaches the caller, as in Python, but does not cut the method short.
\<close>

definition on_store :: "(store \<Rightarrow> 'a \<times> store) \<Rightarrow> 'a cmd" where
  "on_store f e =
     (case f (en_store e) of (x, s) \<Rightarrow>
        bnd (deliver (drop (length (st_finished (en_store e))) (st_finished s)))
          (\<lambda>_. bnd hand_over (\<lambda>_. ret x)) (e\<lparr>en_store := s\<rparr>))"

definition store_do :: "(store \<Rightarrow> store) \<Rightarrow> unit cmd" where
  "store_do f = on_store (\<lambda>s. ((), f s))"

definition on_store_sum :: "(store \<Rightarrow> (kverror + 'a) \<times> store) \<Rightarrow> 'a cmd" where
  "on_store_sum f = bnd (on_store f) (\<lambda>r. lift (map_sum Raised id r))"

definition propagate :: "string \<Rightarrow> arg list \<Rightarrow> unit cmd" where
  "propagate command args e =
     (if en_replaying e then (Inr (), e)
      else hand_over (e\<lparr>en_store := (en_store e)\<lparr>st_out := st_out (en_store e) @ [lit command # map arg_text args]\<rparr>\<rparr>))"

section \<open>Snapshots and rewrites\<close>

text \<open>A call into the persistence layer.\<close>

definition on_persist :: "(persistence \<Rightarrow> (exn + 'a) \<times> persistence) \<Rightarrow> 'a cmd" where
  "on_persist f e =
     (case en_persist e of
        None \<Rightarrow> (Inl (Uncaught ''AssertionError''), e)
      | Some p \<Rightarrow> (case f p of (r, p') \<Rightarrow> (r, e\<lparr>en_persist := Some p'\<rparr>)))"

definition modify :: "(engine \<Rightarrow> engine) \<Rightarrow> unit cmd" where
  "modify f e = (Inr (), f e)"

text \<open>\<open>try: m except BaseException: h; raise\<close>.\<close>

definition on_error :: "'a cmd \<Rightarrow> (engine \<Rightarrow> engine) \<Rightarrow> 'a cmd" where
  "on_error m h e = (case m e of (Inl x, e') \<Rightarrow> (Inl x, h e') | (Inr v, e') \<Rightarrow> (Inr v, e'))"

definition engine_begin_snapshot :: "snapshot_target \<Rightarrow> unit cmd" where
  "engine_begin_snapshot target e0 =
     (let e = gc_hold e0 in
      case begin_snapshot True (en_store e) of
        None \<Rightarrow> (Inl (Uncaught ''RuntimeError''), gc_release e)
      | Some s \<Rightarrow> (Inr (), e\<lparr>en_store := s, en_target := target\<rparr>))"

definition engine_start_rewrite :: "unit cmd" where
  "engine_start_rewrite =
     bnd (asks en_persist) (\<lambda>po. case po of
       None \<Rightarrow> throw (Raised (err CommandError ''persistence is disabled on this node''))
     | Some _ \<Rightarrow>
         bnd (on_persist (\<lambda>p. (map_sum Raised id (check_writable p), p))) (\<lambda>_.
         bnd (asks (\<lambda>e. st_now (en_store e))) (\<lambda>now.
         bnd (on_persist (\<lambda>p. case poll now p of (_, p') \<Rightarrow> (Inr (), p'))) (\<lambda>_.
         bnd (modify release_gc) (\<lambda>_.
         bnd (on_persist (\<lambda>p. (Inr (rewrite_in_progress p), p))) (\<lambda>busy.
         if busy then throw (Raised rewrite_running)
         else
           bnd (modify (\<lambda>e. (gc_hold e)\<lparr>en_gc_held := True\<rparr>)) (\<lambda>_.
           on_error
             (bnd (asks (\<lambda>e. en_incremental e \<and> st_job (en_store e) = None)) (\<lambda>incremental.
              if incremental
              then bnd (on_persist begin_rewrite) (\<lambda>_. engine_begin_snapshot ToRewrite)
              else bnd (asks (\<lambda>e. store_snapshot (en_store e))) (\<lambda>records.
                     bnd (on_persist begin_rewrite) (\<lambda>_. on_persist (finish_copy records now)))))
             release_gc)))))))"

text \<open>One slice: chunks of keys while the time budget lasts, here \<open>chunks\<close> of them after the first.\<close>

primrec step_chunks :: "nat \<Rightarrow> bool cmd" where
  "step_chunks 0 = bnd (asks en_slice_keys) (\<lambda>n. on_store (job_step n))"
| "step_chunks (Suc c) =
     bnd (asks en_slice_keys) (\<lambda>n. bnd (on_store (job_step n)) (\<lambda>fin. if fin then ret True else step_chunks c))"

definition step_snapshot :: "nat \<Rightarrow> bool cmd" where
  "step_snapshot chunks =
     bnd (asks (\<lambda>e. st_job (en_store e) = None)) (\<lambda>none.
       if none then ret False else bnd (step_chunks chunks) (\<lambda>fin. ret (\<not> fin)))"

text \<open>\<open>while self.step_snapshot(): pass\<close>, with fuel; a slice copies at least one key.\<close>

primrec finish_snapshot :: "nat \<Rightarrow> unit cmd" where
  "finish_snapshot 0 = ret ()"
| "finish_snapshot (Suc fuel) = bnd (step_snapshot 0) (\<lambda>more. if more then finish_snapshot fuel else ret ())"

definition snapshot_fuel :: "engine \<Rightarrow> nat" where
  "snapshot_fuel e = (case st_job (en_store e) of None \<Rightarrow> 1 | Some j \<Rightarrow> job_remaining j + 2)"

definition engine_wait_rewrite :: "unit cmd" where
  "engine_wait_rewrite =
     bnd (asks snapshot_fuel) (\<lambda>fuel.
     bnd (finish_snapshot fuel) (\<lambda>_.
     modify (\<lambda>e. release_gc (e\<lparr>en_persist := map_option (ps_wait_rewrite (st_now (en_store e))) (en_persist e)\<rparr>))))"

definition engine_save :: "unit cmd" where
  "engine_save =
     bnd engine_start_rewrite (\<lambda>_.
     bnd engine_wait_rewrite (\<lambda>_.
     bnd (on_persist (\<lambda>p. (Inr (ps_last_rewrite_ok p), p))) (\<lambda>ok.
     if ok then ret () else throw (Raised (err PersistenceError ''snapshot failed, see server logs'')))))"

definition engine_last_save_time :: "engine \<Rightarrow> int" where
  "engine_last_save_time e = (case en_persist e of Some p \<Rightarrow> ps_last_save_time p | None \<Rightarrow> en_started_wall e)"

section \<open>Configuration\<close>

definition redis_policy_name :: "str \<Rightarrow> str" where
  "redis_policy_name name =
     (if name = lit ''lru'' then lit ''allkeys-lru''
      else if name = lit ''lfu'' then lit ''allkeys-lfu''
      else if name = lit ''random'' then lit ''allkeys-random''
      else lit ''noeviction'')"

definition config_values :: "engine \<Rightarrow> (str \<times> str) list" where
  "config_values e =
     [(lit ''maxmemory'', int_text (st_maxmemory (en_store e))),
      (lit ''maxmemory-policy'', redis_policy_name (pol_name (st_policy (en_store e)))),
      (lit ''appendonly'', case en_persist e of Some _ \<Rightarrow> lit ''yes'' | None \<Rightarrow> lit ''no''),
      (lit ''appendfsync'', case en_persist e of Some p \<Rightarrow> fsync_name (ps_fsync p) | None \<Rightarrow> lit ''no''),
      (lit ''auto-aof-rewrite-percentage'', int_text (case en_persist e of Some p \<Rightarrow> ps_rewrite_percentage p | None \<Rightarrow> 0)),
      (lit ''auto-aof-rewrite-min-size'', int_text (case en_persist e of Some p \<Rightarrow> ps_rewrite_min_bytes p | None \<Rightarrow> 0)),
      (lit ''save'', []),
      (lit ''databases'', lit ''1'')]"

end
