(* ===== verification/Cmd_Strings.thy ===== *)
theory Cmd_Strings
  imports Engine_State
begin

text \<open>\<open>engine/commands/strings.py\<close>: one definition per handler.\<close>

definition opt_bulk :: "str option \<Rightarrow> reply" where
  "opt_bulk v = (case v of None \<Rightarrow> RNil | Some s \<Rightarrow> RBulk s)"

definition get_str :: "str \<Rightarrow> str option cmd" where
  "get_str key = on_store_sum (store_read as_str key)"

definition peek :: "str \<Rightarrow> entry option cmd" where
  "peek key = on_store (store_peek key)"

definition exists_key :: "str \<Rightarrow> bool cmd" where
  "exists_key key = bnd (peek key) (\<lambda>e. ret (e \<noteq> None))"

text \<open>\<open>int(ctx.now() * 1000)\<close>.\<close>

definition now_ms :: "int cmd" where
  "now_ms =
     bnd (asks (\<lambda>e. st_now (en_store e))) (\<lambda>now.
     lift (case ftrunc (fscale now 1000) of Some n \<Rightarrow> Inr n | None \<Rightarrow> Inl (Uncaught ''OverflowError'')))"

definition get_cmd :: "arg list \<Rightarrow> reply cmd" where
  "get_cmd args =
     bnd (lift (key_arg (args ! 0))) (\<lambda>key.
     bnd (get_str key) (\<lambda>v. ret (opt_bulk v)))"

record set_options =
  so_nx :: bool
  so_xx :: bool
  so_get :: bool
  so_keep_ttl :: bool
  so_expire_ms :: "int option"

fun parse_set :: "arg list \<Rightarrow> set_options \<Rightarrow> exn + set_options" where
  "parse_set [] opts = Inr opts"
| "parse_set (a # as) opts =
     (let option = upper_arg a in
      if option = lit ''NX'' \<and> \<not> so_xx opts then parse_set as (opts\<lparr>so_nx := True\<rparr>)
      else if option = lit ''XX'' \<and> \<not> so_nx opts then parse_set as (opts\<lparr>so_xx := True\<rparr>)
      else if option = lit ''GET'' then parse_set as (opts\<lparr>so_get := True\<rparr>)
      else if option = lit ''KEEPTTL'' \<and> so_expire_ms opts = None then parse_set as (opts\<lparr>so_keep_ttl := True\<rparr>)
      else if (option = lit ''EX'' \<or> option = lit ''PX'') \<and> so_expire_ms opts = None \<and> \<not> so_keep_ttl opts
      then (case as of
              [] \<Rightarrow> Inl syntax_error
            | b # bs \<Rightarrow>
                (case int_arg b of
                   Inl x \<Rightarrow> Inl x
                 | Inr amount \<Rightarrow>
                     if amount \<le> 0 then Inl (Raised (mk_error InvalidArgumentError
                       (lit ''invalid expire time in '' @ [39] @ lit ''set'' @ [39] @ lit '' command'') None))
                     else parse_set bs
                            (opts\<lparr>so_expire_ms := Some (if option = lit ''EX'' then amount * 1000 else amount)\<rparr>)))
      else Inl syntax_error)"

definition set_defaults :: set_options where
  "set_defaults = \<lparr>so_nx = False, so_xx = False, so_get = False, so_keep_ttl = False, so_expire_ms = None\<rparr>"

text \<open>The deadline of \<open>SET\<close> with \<open>EX\<close> or \<open>PX\<close>.\<close>

definition set_deadline :: "str \<Rightarrow> int option \<Rightarrow> unit cmd" where
  "set_deadline key expire_ms =
     (case expire_ms of
        None \<Rightarrow> ret ()
      | Some ms \<Rightarrow>
          bnd now_ms (\<lambda>now.
          bnd (on_store (store_set_expiry key (int_div (now + ms) 1000))) (\<lambda>_.
          propagate ''PEXPIREAT'' [SArg key, IArg (now + ms)])))"

definition set_cmd :: "arg list \<Rightarrow> reply cmd" where
  "set_cmd args =
     bnd (lift (key_arg (args ! 0))) (\<lambda>key.
     bnd (lift (str_arg (args ! 1))) (\<lambda>v.
     bnd (lift (parse_set (drop 2 args) set_defaults)) (\<lambda>opts.
     bnd (if so_get opts then get_str key else ret None) (\<lambda>old.
     bnd (exists_key key) (\<lambda>exists.
     if so_nx opts \<and> exists \<or> so_xx opts \<and> \<not> exists
     then ret (if so_get opts then opt_bulk old else RNil)
     else
       bnd (store_do (store_set key (VStr v) (so_keep_ttl opts))) (\<lambda>_.
       bnd (propagate ''SET'' ([SArg key, SArg v] @ (if so_keep_ttl opts then [SArg (lit ''KEEPTTL'')] else []))) (\<lambda>_.
       bnd (set_deadline key (so_expire_ms opts)) (\<lambda>_.
       ret (if so_get opts then opt_bulk old else OK)))))))))"

definition setnx_cmd :: "arg list \<Rightarrow> reply cmd" where
  "setnx_cmd args =
     bnd (set_cmd [args ! 0, args ! 1, SArg (lit ''NX'')]) (\<lambda>r. ret (RInt (if r = RNil then 0 else 1)))"

definition getdel_cmd :: "arg list \<Rightarrow> reply cmd" where
  "getdel_cmd args =
     bnd (lift (key_arg (args ! 0))) (\<lambda>key.
     bnd (get_str key) (\<lambda>v.
     if v = None then ret RNil
     else bnd (on_store (store_delete key)) (\<lambda>_.
          bnd (propagate ''DEL'' [SArg key]) (\<lambda>_. ret (opt_bulk v)))))"

definition mget_one :: "arg \<Rightarrow> reply cmd" where
  "mget_one a =
     bnd (lift (key_arg a)) (\<lambda>key.
     bnd (on_store (store_get key)) (\<lambda>e.
     ret (case e of None \<Rightarrow> RNil | Some en \<Rightarrow> opt_bulk (as_str (e_value en)))))"

definition mget_cmd :: "arg list \<Rightarrow> reply cmd" where
  "mget_cmd args = bnd (map_cmd mget_one args) (\<lambda>vs. ret (RArray vs))"

fun pair_args :: "(arg \<Rightarrow> exn + 'a) \<Rightarrow> (arg \<Rightarrow> exn + 'b) \<Rightarrow> arg list \<Rightarrow> exn + ('a \<times> 'b) list" where
  "pair_args f g (a # b # as) =
     (case f a of
        Inl x \<Rightarrow> Inl x
      | Inr u \<Rightarrow> (case g b of
          Inl x \<Rightarrow> Inl x
        | Inr v \<Rightarrow> (case pair_args f g as of Inl x \<Rightarrow> Inl x | Inr ps \<Rightarrow> Inr ((u, v) # ps))))"
| "pair_args f g as = Inr []"

definition mset_cmd :: "arg list \<Rightarrow> reply cmd" where
  "mset_cmd args =
     (if odd (length args) then throw (wrong_arity (lit ''mset''))
      else bnd (lift (pair_args key_arg str_arg args)) (\<lambda>pairs.
           bnd (map_cmd (\<lambda>(key, v). store_do (store_set key (VStr v) False)) pairs) (\<lambda>_.
           bnd (propagate ''MSET'' args) (\<lambda>_. ret OK))))"

definition incr_by :: "str \<Rightarrow> int \<Rightarrow> int cmd" where
  "incr_by key delta =
     bnd (get_str key) (\<lambda>current.
     bnd (lift (case current of
                  None \<Rightarrow> Inr 0
                | Some t \<Rightarrow> (case py_int t of
                    Some n \<Rightarrow> Inr n
                  | None \<Rightarrow> Inl (invalid ''value is not an integer or out of range'')))) (\<lambda>number.
     bnd (lift (check_int64 (number + delta))) (\<lambda>result.
     bnd (store_do (store_set key (VStr (int_text result)) True)) (\<lambda>_.
     bnd (propagate ''INCRBY'' [SArg key, IArg delta]) (\<lambda>_. ret result)))))"

definition incr_cmd :: "arg list \<Rightarrow> reply cmd" where
  "incr_cmd args = bnd (lift (key_arg (args ! 0))) (\<lambda>key. bnd (incr_by key 1) (\<lambda>n. ret (RInt n)))"

definition decr_cmd :: "arg list \<Rightarrow> reply cmd" where
  "decr_cmd args = bnd (lift (key_arg (args ! 0))) (\<lambda>key. bnd (incr_by key (- 1)) (\<lambda>n. ret (RInt n)))"

definition incrby_cmd :: "arg list \<Rightarrow> reply cmd" where
  "incrby_cmd args =
     bnd (lift (key_arg (args ! 0))) (\<lambda>key.
     bnd (lift (int_arg (args ! 1))) (\<lambda>d. bnd (incr_by key d) (\<lambda>n. ret (RInt n))))"

definition decrby_cmd :: "arg list \<Rightarrow> reply cmd" where
  "decrby_cmd args =
     bnd (lift (key_arg (args ! 0))) (\<lambda>key.
     bnd (lift (int_arg (args ! 1))) (\<lambda>d. bnd (incr_by key (- d)) (\<lambda>n. ret (RInt n))))"

text \<open>
  The stored text is parsed by \<open>float_arg\<close>; of its errors only the one for a bad text can occur.
  Only an infinite result is refused.
\<close>

definition incrbyfloat_cmd :: "arg list \<Rightarrow> reply cmd" where
  "incrbyfloat_cmd args =
     bnd (lift (key_arg (args ! 0))) (\<lambda>key.
     bnd (lift (float_arg (args ! 1))) (\<lambda>delta.
     bnd (get_str key) (\<lambda>current.
     bnd (lift (case current of None \<Rightarrow> Inr (Fin 0) | Some t \<Rightarrow> float_arg (SArg t))) (\<lambda>number.
     let result = fadd number delta in
     if result = PosInf \<or> result = NegInf then throw (invalid ''increment would produce NaN or Infinity'')
     else let text = format_float result in
          bnd (store_do (store_set key (VStr text) True)) (\<lambda>_.
          bnd (propagate ''SET'' [SArg key, SArg text, SArg (lit ''KEEPTTL'')]) (\<lambda>_.
          ret (RBulk text)))))))"

definition byte_length :: "str \<Rightarrow> int cmd" where
  "byte_length v =
     lift (case to_bytes v of Some bs \<Rightarrow> Inr (int (length bs)) | None \<Rightarrow> Inl (Uncaught ''UnicodeEncodeError''))"

definition append_cmd :: "arg list \<Rightarrow> reply cmd" where
  "append_cmd args =
     bnd (lift (key_arg (args ! 0))) (\<lambda>key.
     bnd (lift (str_arg (args ! 1))) (\<lambda>suffix.
     bnd (get_str key) (\<lambda>old.
     let v = (case old of None \<Rightarrow> [] | Some t \<Rightarrow> t) @ suffix in
     bnd (store_do (store_set key (VStr v) True)) (\<lambda>_.
     bnd (propagate ''APPEND'' [SArg key, SArg suffix]) (\<lambda>_.
     bnd (byte_length v) (\<lambda>n. ret (RInt n)))))))"

definition strlen_cmd :: "arg list \<Rightarrow> reply cmd" where
  "strlen_cmd args =
     bnd (lift (key_arg (args ! 0))) (\<lambda>key.
     bnd (get_str key) (\<lambda>v.
     case v of None \<Rightarrow> ret (RInt 0) | Some t \<Rightarrow> bnd (byte_length t) (\<lambda>n. ret (RInt n))))"

end
