(* ===== verification/Cmd_Lists.thy ===== *)
theory Cmd_Lists
  imports Cmd_Strings
begin

text \<open>
  \<open>engine/commands/lists.py\<close> and \<open>engine/commands/hashes.py\<close>.  A handler that changes the value
  it read in place puts the changed value back (\<open>put_value\<close>); the engine re-accounts it afterwards.
\<close>

section \<open>Lists\<close>

definition read_list :: "str \<Rightarrow> list_value option cmd" where
  "read_list key = on_store_sum (store_read as_list key)"

definition bulks_reply :: "str list \<Rightarrow> reply" where
  "bulks_reply xs = RArray (map RBulk xs)"

fun str_args :: "arg list \<Rightarrow> exn + str list" where
  "str_args [] = Inr []"
| "str_args (a # as) =
     (case str_arg a of
        Inl x \<Rightarrow> Inl x
      | Inr s \<Rightarrow> (case str_args as of Inl x \<Rightarrow> Inl x | Inr ss \<Rightarrow> Inr (s # ss)))"

definition push_cmd :: "bool \<Rightarrow> arg list \<Rightarrow> reply cmd" where
  "push_cmd left args =
     bnd (lift (key_arg (args ! 0))) (\<lambda>key.
     bnd (lift (str_args (drop 1 args))) (\<lambda>vs.
     bnd (on_store_sum (store_write_target as_list VList (list_init []) key)) (\<lambda>target.
     let target' = (if left then list_push_left vs target else list_push_right vs target) in
     bnd (store_do (put_value key (VList target'))) (\<lambda>_.
     bnd (propagate (if left then ''LPUSH'' else ''RPUSH'') (SArg key # map SArg vs)) (\<lambda>_.
     ret (RInt (list_len target')))))))"

definition lpush_cmd :: "arg list \<Rightarrow> reply cmd" where
  "lpush_cmd args = push_cmd True args"

definition rpush_cmd :: "arg list \<Rightarrow> reply cmd" where
  "rpush_cmd args = push_cmd False args"

definition negative_count :: exn where
  "negative_count = invalid ''value is out of range, must be positive''"

definition pop_cmd :: "bool \<Rightarrow> arg list \<Rightarrow> reply cmd" where
  "pop_cmd left args =
     bnd (lift (key_arg (args ! 0))) (\<lambda>key.
     bnd (if 1 < length args
          then bnd (lift (int_arg (args ! 1))) (\<lambda>n. if n < 0 then throw negative_count else ret (Some n))
          else ret None) (\<lambda>cnt.
     bnd (read_list key) (\<lambda>t.
     case t of
       None \<Rightarrow> ret RNil
     | Some target \<Rightarrow>
         (case list_pop (case cnt of None \<Rightarrow> 1 | Some n \<Rightarrow> n) left target of (popped, target') \<Rightarrow>
            bnd (store_do (put_value key (VList target'))) (\<lambda>_.
            bnd (if popped = [] then ret ()
                 else propagate (if left then ''LPOP'' else ''RPOP'') [SArg key, IArg (int (length popped))]) (\<lambda>_.
            ret (case cnt of
                   None \<Rightarrow> (case popped of [] \<Rightarrow> RNil | v # _ \<Rightarrow> RBulk v)
                 | Some _ \<Rightarrow> bulks_reply popped)))))))"

definition lpop_cmd :: "arg list \<Rightarrow> reply cmd" where
  "lpop_cmd args = pop_cmd True args"

definition rpop_cmd :: "arg list \<Rightarrow> reply cmd" where
  "rpop_cmd args = pop_cmd False args"

definition llen_cmd :: "arg list \<Rightarrow> reply cmd" where
  "llen_cmd args =
     bnd (lift (key_arg (args ! 0))) (\<lambda>key.
     bnd (read_list key) (\<lambda>t. ret (RInt (case t of None \<Rightarrow> 0 | Some l \<Rightarrow> list_len l))))"

definition lrange_cmd :: "arg list \<Rightarrow> reply cmd" where
  "lrange_cmd args =
     bnd (lift (key_arg (args ! 0))) (\<lambda>key.
     bnd (lift (int_arg (args ! 1))) (\<lambda>start.
     bnd (lift (int_arg (args ! 2))) (\<lambda>stop.
     bnd (read_list key) (\<lambda>t. ret (bulks_reply (case t of None \<Rightarrow> [] | Some l \<Rightarrow> list_range start stop l))))))"

definition lindex_cmd :: "arg list \<Rightarrow> reply cmd" where
  "lindex_cmd args =
     bnd (lift (key_arg (args ! 0))) (\<lambda>key.
     bnd (lift (int_arg (args ! 1))) (\<lambda>index.
     bnd (read_list key) (\<lambda>t. ret (opt_bulk (case t of None \<Rightarrow> None | Some l \<Rightarrow> list_get index l)))))"

definition lset_cmd :: "arg list \<Rightarrow> reply cmd" where
  "lset_cmd args =
     bnd (lift (key_arg (args ! 0))) (\<lambda>key.
     bnd (lift (int_arg (args ! 1))) (\<lambda>index.
     bnd (lift (str_arg (args ! 2))) (\<lambda>v.
     bnd (read_list key) (\<lambda>t.
     case t of
       None \<Rightarrow> throw (invalid ''no such key'')
     | Some target \<Rightarrow>
         (case list_set index v target of (found, target') \<Rightarrow>
            if \<not> found then throw (invalid ''index out of range'')
            else bnd (store_do (put_value key (VList target'))) (\<lambda>_.
                 bnd (propagate ''LSET'' [SArg key, IArg index, SArg v]) (\<lambda>_. ret OK)))))))"

definition ltrim_cmd :: "arg list \<Rightarrow> reply cmd" where
  "ltrim_cmd args =
     bnd (lift (key_arg (args ! 0))) (\<lambda>key.
     bnd (lift (int_arg (args ! 1))) (\<lambda>start.
     bnd (lift (int_arg (args ! 2))) (\<lambda>stop.
     bnd (read_list key) (\<lambda>t.
     case t of
       None \<Rightarrow> ret OK
     | Some target \<Rightarrow>
         let target' = list_trim start stop target in
         bnd (store_do (put_value key (VList target'))) (\<lambda>_.
         bnd (if list_len target' \<noteq> list_len target then propagate ''LTRIM'' [SArg key, IArg start, IArg stop]
              else ret ()) (\<lambda>_. ret OK))))))"

definition lrem_cmd :: "arg list \<Rightarrow> reply cmd" where
  "lrem_cmd args =
     bnd (lift (key_arg (args ! 0))) (\<lambda>key.
     bnd (lift (int_arg (args ! 1))) (\<lambda>cnt.
     bnd (lift (str_arg (args ! 2))) (\<lambda>v.
     bnd (read_list key) (\<lambda>t.
     case t of
       None \<Rightarrow> ret (RInt 0)
     | Some target \<Rightarrow>
         (case list_remove cnt v target of (removed, target') \<Rightarrow>
            bnd (store_do (put_value key (VList target'))) (\<lambda>_.
            bnd (if removed \<noteq> 0 then propagate ''LREM'' [SArg key, IArg cnt, SArg v] else ret ()) (\<lambda>_.
            ret (RInt removed))))))))"

section \<open>Hashes\<close>

definition read_hash :: "str \<Rightarrow> hash_value option cmd" where
  "read_hash key = on_store_sum (store_read as_hash key)"

definition hash_target :: "str \<Rightarrow> hash_value cmd" where
  "hash_target key = on_store_sum (store_write_target as_hash VHash hash_init key)"

text \<open>\<open>sum(target.set(field, value) for field, value in pairs)\<close>.\<close>

fun hash_set_all :: "(str \<times> str) list \<Rightarrow> hash_value \<Rightarrow> int \<times> hash_value" where
  "hash_set_all [] h = (0, h)"
| "hash_set_all ((f, v) # ps) h =
     (case hash_set f v h of (new, h1) \<Rightarrow>
        (case hash_set_all ps h1 of (n, h2) \<Rightarrow> ((if new then 1 else 0) + n, h2)))"

definition hset_cmd :: "arg list \<Rightarrow> reply cmd" where
  "hset_cmd args =
     (if even (length args) then throw (wrong_arity (lit ''hset''))
      else bnd (lift (key_arg (args ! 0))) (\<lambda>key.
           bnd (lift (pair_args str_arg str_arg (drop 1 args))) (\<lambda>pairs.
           bnd (hash_target key) (\<lambda>target.
           case hash_set_all pairs target of (added, target') \<Rightarrow>
             bnd (store_do (put_value key (VHash target'))) (\<lambda>_.
             bnd (propagate ''HSET'' args) (\<lambda>_. ret (RInt added)))))))"

definition hsetnx_cmd :: "arg list \<Rightarrow> reply cmd" where
  "hsetnx_cmd args =
     bnd (lift (key_arg (args ! 0))) (\<lambda>key.
     bnd (lift (str_arg (args ! 1))) (\<lambda>field.
     bnd (lift (str_arg (args ! 2))) (\<lambda>v.
     bnd (read_hash key) (\<lambda>t.
     if (case t of None \<Rightarrow> False | Some h \<Rightarrow> hash_contains field h) then ret (RInt 0)
     else bnd (hash_target key) (\<lambda>target.
          bnd (store_do (put_value key (VHash (snd (hash_set field v target))))) (\<lambda>_.
          bnd (propagate ''HSET'' [SArg key, SArg field, SArg v]) (\<lambda>_. ret (RInt 1))))))))"

text \<open>In \<open>HGET\<close> and \<open>HEXISTS\<close> the field is parsed only when the key exists.\<close>

definition hget_cmd :: "arg list \<Rightarrow> reply cmd" where
  "hget_cmd args =
     bnd (lift (key_arg (args ! 0))) (\<lambda>key.
     bnd (read_hash key) (\<lambda>t.
     case t of
       None \<Rightarrow> ret RNil
     | Some h \<Rightarrow> bnd (lift (str_arg (args ! 1))) (\<lambda>f. ret (opt_bulk (hash_get f h)))))"

definition hmget_cmd :: "arg list \<Rightarrow> reply cmd" where
  "hmget_cmd args =
     bnd (lift (key_arg (args ! 0))) (\<lambda>key.
     bnd (read_hash key) (\<lambda>t.
     bnd (lift (str_args (drop 1 args))) (\<lambda>fs.
     ret (RArray (map (\<lambda>f. opt_bulk (case t of None \<Rightarrow> None | Some h \<Rightarrow> hash_get f h)) fs)))))"

text \<open>\<open>[x for x in xs if target.remove(x)]\<close>: the items removed, and the container after it.\<close>

fun remove_all :: "('a \<Rightarrow> 'c \<Rightarrow> bool \<times> 'c) \<Rightarrow> 'a list \<Rightarrow> 'c \<Rightarrow> 'a list \<times> 'c" where
  "remove_all rm [] c = ([], c)"
| "remove_all rm (x # xs) c =
     (case rm x c of (hit, c1) \<Rightarrow>
        (case remove_all rm xs c1 of (hits, c2) \<Rightarrow> (if hit then x # hits else hits, c2)))"

definition hdel_cmd :: "arg list \<Rightarrow> reply cmd" where
  "hdel_cmd args =
     bnd (lift (key_arg (args ! 0))) (\<lambda>key.
     bnd (lift (str_args (drop 1 args))) (\<lambda>fs.
     bnd (read_hash key) (\<lambda>t.
     case t of
       None \<Rightarrow> ret (RInt 0)
     | Some target \<Rightarrow>
         (case remove_all hash_delete fs target of (removed, target') \<Rightarrow>
            bnd (store_do (put_value key (VHash target'))) (\<lambda>_.
            bnd (if removed = [] then ret () else propagate ''HDEL'' (SArg key # map SArg removed)) (\<lambda>_.
            ret (RInt (int (length removed)))))))))"

definition hash_reply :: "(hash_value \<Rightarrow> str list) \<Rightarrow> arg list \<Rightarrow> reply cmd" where
  "hash_reply f args =
     bnd (lift (key_arg (args ! 0))) (\<lambda>key.
     bnd (read_hash key) (\<lambda>t. ret (bulks_reply (case t of None \<Rightarrow> [] | Some h \<Rightarrow> f h))))"

definition hgetall_cmd :: "arg list \<Rightarrow> reply cmd" where
  "hgetall_cmd args = hash_reply (\<lambda>h. concat (map (\<lambda>(f, v). [f, v]) (hash_items h))) args"

definition hkeys_cmd :: "arg list \<Rightarrow> reply cmd" where
  "hkeys_cmd args = hash_reply (\<lambda>h. map fst (hash_items h)) args"

definition hvals_cmd :: "arg list \<Rightarrow> reply cmd" where
  "hvals_cmd args = hash_reply (\<lambda>h. map snd (hash_items h)) args"

definition hlen_cmd :: "arg list \<Rightarrow> reply cmd" where
  "hlen_cmd args =
     bnd (lift (key_arg (args ! 0))) (\<lambda>key.
     bnd (read_hash key) (\<lambda>t. ret (RInt (case t of None \<Rightarrow> 0 | Some h \<Rightarrow> hash_len h))))"

definition hexists_cmd :: "arg list \<Rightarrow> reply cmd" where
  "hexists_cmd args =
     bnd (lift (key_arg (args ! 0))) (\<lambda>key.
     bnd (read_hash key) (\<lambda>t.
     case t of
       None \<Rightarrow> ret (RInt 0)
     | Some h \<Rightarrow> bnd (lift (str_arg (args ! 1))) (\<lambda>f. ret (RInt (if hash_contains f h then 1 else 0)))))"

definition hincrby_cmd :: "arg list \<Rightarrow> reply cmd" where
  "hincrby_cmd args =
     bnd (lift (key_arg (args ! 0))) (\<lambda>key.
     bnd (lift (str_arg (args ! 1))) (\<lambda>field.
     bnd (lift (int_arg (args ! 2))) (\<lambda>delta.
     bnd (read_hash key) (\<lambda>t.
     bnd (lift (case (case t of None \<Rightarrow> None | Some h \<Rightarrow> hash_get field h) of
                  None \<Rightarrow> Inr 0
                | Some c \<Rightarrow> (case py_int c of Some n \<Rightarrow> Inr n | None \<Rightarrow> Inl (invalid ''hash value is not an integer'')))) (\<lambda>number.
     bnd (lift (check_int64 (number + delta))) (\<lambda>result.
     bnd (hash_target key) (\<lambda>target.
     bnd (store_do (put_value key (VHash (snd (hash_set field (int_text result) target))))) (\<lambda>_.
     bnd (propagate ''HINCRBY'' [SArg key, SArg field, IArg delta]) (\<lambda>_. ret (RInt result))))))))))"

end
