(* ===== verification/Cmd_Sets.thy ===== *)
theory Cmd_Sets
  imports Cmd_Lists
begin

text \<open>\<open>engine/commands/sets.py\<close> and \<open>engine/commands/zsets.py\<close>.\<close>

section \<open>Sets\<close>

definition read_set :: "str \<Rightarrow> set_value option cmd" where
  "read_set key = on_store_sum (store_read as_set key)"

definition sadd_cmd :: "arg list \<Rightarrow> reply cmd" where
  "sadd_cmd args =
     bnd (lift (key_arg (args ! 0))) (\<lambda>key.
     bnd (lift (str_args (drop 1 args))) (\<lambda>members.
     bnd (on_store_sum (store_write_target as_set VSet set_init key)) (\<lambda>target.
     case remove_all set_add members target of (added, target') \<Rightarrow>
       bnd (store_do (put_value key (VSet target'))) (\<lambda>_.
       bnd (if added = [] then ret () else propagate ''SADD'' (SArg key # map SArg added)) (\<lambda>_.
       ret (RInt (int (length added))))))))"

definition srem_cmd :: "arg list \<Rightarrow> reply cmd" where
  "srem_cmd args =
     bnd (lift (key_arg (args ! 0))) (\<lambda>key.
     bnd (lift (str_args (drop 1 args))) (\<lambda>members.
     bnd (read_set key) (\<lambda>t.
     case t of
       None \<Rightarrow> ret (RInt 0)
     | Some target \<Rightarrow>
         (case remove_all set_remove members target of (removed, target') \<Rightarrow>
            bnd (store_do (put_value key (VSet target'))) (\<lambda>_.
            bnd (if removed = [] then ret () else propagate ''SREM'' (SArg key # map SArg removed)) (\<lambda>_.
            ret (RInt (int (length removed)))))))))"

definition smembers_cmd :: "arg list \<Rightarrow> reply cmd" where
  "smembers_cmd args =
     bnd (lift (key_arg (args ! 0))) (\<lambda>key.
     bnd (read_set key) (\<lambda>t. ret (bulks_reply (case t of None \<Rightarrow> [] | Some v \<Rightarrow> set_iter v))))"

definition sismember_cmd :: "arg list \<Rightarrow> reply cmd" where
  "sismember_cmd args =
     bnd (lift (key_arg (args ! 0))) (\<lambda>key.
     bnd (read_set key) (\<lambda>t.
     case t of
       None \<Rightarrow> ret (RInt 0)
     | Some v \<Rightarrow> bnd (lift (str_arg (args ! 1))) (\<lambda>m. ret (RInt (if set_contains m v then 1 else 0)))))"

definition scard_cmd :: "arg list \<Rightarrow> reply cmd" where
  "scard_cmd args =
     bnd (lift (key_arg (args ! 0))) (\<lambda>key.
     bnd (read_set key) (\<lambda>t. ret (RInt (case t of None \<Rightarrow> 0 | Some v \<Rightarrow> set_len v))))"

text \<open>\<open>_count\<close>.\<close>

definition count_arg :: "arg list \<Rightarrow> exn + int option" where
  "count_arg args =
     (if 1 < length args then (case int_arg (args ! 1) of Inl x \<Rightarrow> Inl x | Inr n \<Rightarrow> Inr (Some n)) else Inr None)"

text \<open>\<open>target.sample(n, ctx.store.rng)\<close>.\<close>

definition sample_set :: "nat \<Rightarrow> set_value \<Rightarrow> str list cmd" where
  "sample_set n v = on_store (\<lambda>s. case set_sample n v (st_rng s) of (xs, r) \<Rightarrow> (xs, s\<lparr>st_rng := r\<rparr>))"

definition spop_cmd :: "arg list \<Rightarrow> reply cmd" where
  "spop_cmd args =
     bnd (lift (key_arg (args ! 0))) (\<lambda>key.
     bnd (lift (count_arg args)) (\<lambda>cnt.
     if (case cnt of None \<Rightarrow> False | Some n \<Rightarrow> n < 0) then throw negative_count
     else bnd (read_set key) (\<lambda>t.
       case t of
         None \<Rightarrow> ret (if cnt = None then RNil else RArray [])
       | Some target \<Rightarrow>
           bnd (sample_set (case cnt of None \<Rightarrow> 1 | Some n \<Rightarrow> nat n) target) (\<lambda>popped.
           bnd (store_do (put_value key (VSet (snd (remove_all set_remove popped target))))) (\<lambda>_.
           bnd (if popped = [] then ret () else propagate ''SREM'' (SArg key # map SArg popped)) (\<lambda>_.
           ret (case cnt of
                  None \<Rightarrow> (case popped of [] \<Rightarrow> RNil | m # _ \<Rightarrow> RBulk m)
                | Some _ \<Rightarrow> bulks_reply popped)))))))"

primrec choices :: "nat \<Rightarrow> str list \<Rightarrow> str list cmd" where
  "choices 0 xs = ret []"
| "choices (Suc n) xs =
     (if xs = [] then throw (Uncaught ''IndexError'')
      else bnd (on_store (\<lambda>s. case rng_choice xs (st_rng s) of (x, r) \<Rightarrow> (x, s\<lparr>st_rng := r\<rparr>))) (\<lambda>x.
           bnd (choices n xs) (\<lambda>ys. ret (x # ys))))"

definition srandmember_cmd :: "arg list \<Rightarrow> reply cmd" where
  "srandmember_cmd args =
     bnd (lift (key_arg (args ! 0))) (\<lambda>key.
     bnd (lift (count_arg args)) (\<lambda>cnt.
     bnd (read_set key) (\<lambda>t.
     case t of
       None \<Rightarrow> ret (if cnt = None then RNil else RArray [])
     | Some target \<Rightarrow>
         (case cnt of
            None \<Rightarrow> bnd (sample_set 1 target) (\<lambda>xs.
                    case xs of [] \<Rightarrow> throw (Uncaught ''IndexError'') | x # _ \<Rightarrow> ret (RBulk x))
          | Some n \<Rightarrow>
              if 0 \<le> n then bnd (sample_set (nat n) target) (\<lambda>xs. ret (bulks_reply xs))
              else bnd (choices (nat (- n)) (set_iter target)) (\<lambda>xs. ret (bulks_reply xs))))))"

definition sets_of :: "arg list \<Rightarrow> str list list cmd" where
  "sets_of args =
     map_cmd (\<lambda>a. bnd (lift (key_arg a)) (\<lambda>key.
       bnd (read_set key) (\<lambda>t. ret (case t of None \<Rightarrow> [] | Some v \<Rightarrow> set_iter v)))) args"

text \<open>\<open>list(s)\<close> of a Python set.\<close>

definition listed :: "str list \<Rightarrow> reply cmd" where
  "listed xs = bnd (asks en_set_order) (\<lambda>ord. ret (bulks_reply (ord xs)))"

definition sinter_cmd :: "arg list \<Rightarrow> reply cmd" where
  "sinter_cmd args =
     bnd (sets_of args) (\<lambda>sets.
     case sort_key length sets of
       [] \<Rightarrow> throw (Uncaught ''TypeError'')
     | x # xs \<Rightarrow> listed (filter (\<lambda>m. \<forall>y \<in> set xs. m \<in> set y) x))"

definition sunion_cmd :: "arg list \<Rightarrow> reply cmd" where
  "sunion_cmd args =
     bnd (sets_of args) (\<lambda>sets.
     if sets = [] then throw (Uncaught ''TypeError'') else listed (remdups (concat sets)))"

definition sdiff_cmd :: "arg list \<Rightarrow> reply cmd" where
  "sdiff_cmd args =
     bnd (sets_of args) (\<lambda>sets.
     case sets of
       [] \<Rightarrow> throw (Uncaught ''ValueError'')
     | x # xs \<Rightarrow> listed (filter (\<lambda>m. \<forall>y \<in> set xs. m \<notin> set y) x))"

section \<open>Sorted sets\<close>

definition read_zset :: "str \<Rightarrow> zset option cmd" where
  "read_zset key = on_store_sum (store_read as_zset key)"

definition zset_target :: "str \<Rightarrow> zset cmd" where
  "zset_target key = on_store_sum (store_write_target as_zset VZset zset_init key)"

text \<open>\<open>_flatten\<close>, on the nodes' members and scores.\<close>

definition flatten :: "bool \<Rightarrow> (str \<times> pyfloat) list \<Rightarrow> str list" where
  "flatten with_scores ps =
     (if with_scores then concat (map (\<lambda>(m, x). [m, format_float x]) ps) else map fst ps)"

definition zadd_flags :: "str list" where
  "zadd_flags = [lit ''NX'', lit ''XX'', lit ''GT'', lit ''LT'', lit ''CH'', lit ''INCR'']"

fun zadd_options :: "arg list \<Rightarrow> str list \<times> arg list" where
  "zadd_options [] = ([], [])"
| "zadd_options (a # as) =
     (if upper_arg a \<in> set zadd_flags
      then (case zadd_options as of (opts, rest) \<Rightarrow> (upper_arg a # opts, rest))
      else ([], a # as))"

text \<open>What the loop of \<open>ZADD\<close> accumulates.\<close>

record zadd_acc =
  za_added :: int
  za_changed :: int
  za_effects :: "str list"
  za_result :: "pyfloat option"

fun zadd_loop ::
    "str list \<Rightarrow> (pyfloat \<times> str) list \<Rightarrow> zadd_acc \<Rightarrow> zset \<Rightarrow> rng \<Rightarrow> (exn + zadd_acc) \<times> zset \<times> rng" where
  "zadd_loop opts [] acc z r = (Inr acc, z, r)"
| "zadd_loop opts ((score, member) # ps) acc z r =
     (let old = zset_score member z;
          new = (case old of None \<Rightarrow> score | Some x \<Rightarrow> if lit ''INCR'' \<in> set opts then fadd x score else score)
      in if old = None \<and> lit ''XX'' \<in> set opts then zadd_loop opts ps acc z r
         else if old \<noteq> None \<and> lit ''NX'' \<in> set opts then zadd_loop opts ps acc z r
         else if new = NaN then (Inl (invalid ''resulting score is not a number (NaN)''), z, r)
         else if (case old of None \<Rightarrow> False
                  | Some x \<Rightarrow> lit ''GT'' \<in> set opts \<and> fle new x \<or> lit ''LT'' \<in> set opts \<and> fle x new)
         then zadd_loop opts ps acc z r
         else let acc1 = acc\<lparr>za_result := Some new\<rparr> in
              if (case old of None \<Rightarrow> False | Some x \<Rightarrow> feq new x) then zadd_loop opts ps acc1 z r
              else (case zset_add member new r z of (_, z', r') \<Rightarrow>
                      zadd_loop opts ps
                        (acc1\<lparr>za_added := za_added acc1 + (if old = None then 1 else 0),
                              za_changed := za_changed acc1 + (if old = None then 0 else 1),
                              za_effects := za_effects acc1 @ [format_float new, member]\<rparr>) z' r'))"

text \<open>Mutating a sorted set in place, with the generator of its skip list.\<close>

definition on_zset :: "str \<Rightarrow> zset \<Rightarrow> (rng \<Rightarrow> 'a \<times> zset \<times> rng) \<Rightarrow> 'a cmd" where
  "on_zset key z f =
     on_store (\<lambda>s. case f (st_sl_rng s) of (x, z', r) \<Rightarrow> (x, put_value key (VZset z') (s\<lparr>st_sl_rng := r\<rparr>)))"

definition zadd_check :: "str list \<Rightarrow> arg list \<Rightarrow> exn + (pyfloat \<times> str) list" where
  "zadd_check opts rest =
     (if rest = [] \<or> odd (length rest) then Inl syntax_error
      else if lit ''NX'' \<in> set opts \<and> lit ''XX'' \<in> set opts
      then Inl (invalid ''XX and NX options at the same time are not compatible'')
      else if 1 < card (set opts \<inter> {lit ''GT'', lit ''LT'', lit ''NX''})
      then Inl (invalid ''GT, LT, and/or NX options at the same time are not compatible'')
      else if lit ''INCR'' \<in> set opts \<and> length rest \<noteq> 2
      then Inl (invalid ''INCR option supports a single increment-element pair'')
      else pair_args float_arg str_arg rest)"

definition zadd_cmd :: "arg list \<Rightarrow> reply cmd" where
  "zadd_cmd args =
     bnd (lift (key_arg (args ! 0))) (\<lambda>key.
     case zadd_options (drop 1 args) of (opts, rest) \<Rightarrow>
       bnd (lift (zadd_check opts rest)) (\<lambda>pairs.
       bnd (read_zset key) (\<lambda>existing.
       if existing = None \<and> lit ''XX'' \<in> set opts
       then ret (if lit ''INCR'' \<in> set opts then RNil else RInt 0)
       else
         bnd (case existing of Some z \<Rightarrow> ret z | None \<Rightarrow> zset_target key) (\<lambda>target.
         bnd (on_zset key target
                (zadd_loop opts pairs \<lparr>za_added = 0, za_changed = 0, za_effects = [], za_result = None\<rparr> target)) (\<lambda>res.
         bnd (lift res) (\<lambda>acc.
         bnd (if za_effects acc = [] then ret () else propagate ''ZADD'' (SArg key # map SArg (za_effects acc))) (\<lambda>_.
         ret (if lit ''INCR'' \<in> set opts
              then (case za_result acc of None \<Rightarrow> RNil | Some x \<Rightarrow> RBulk (format_float x))
              else RInt (if lit ''CH'' \<in> set opts then za_added acc + za_changed acc else za_added acc)))))))))"

definition zincrby_cmd :: "arg list \<Rightarrow> reply cmd" where
  "zincrby_cmd args =
     bnd (lift (key_arg (args ! 0))) (\<lambda>key.
     bnd (lift (float_arg (args ! 1))) (\<lambda>delta.
     bnd (lift (str_arg (args ! 2))) (\<lambda>member.
     bnd (read_zset key) (\<lambda>_.
     bnd (zset_target key) (\<lambda>target.
     bnd (on_zset key target (\<lambda>r. zset_incr member delta r target)) (\<lambda>res.
     bnd (lift (map_sum Raised id res)) (\<lambda>score.
     bnd (propagate ''ZADD'' [SArg key, SArg (format_float score), SArg member]) (\<lambda>_.
     ret (RBulk (format_float score))))))))))"

definition zrem_cmd :: "arg list \<Rightarrow> reply cmd" where
  "zrem_cmd args =
     bnd (lift (key_arg (args ! 0))) (\<lambda>key.
     bnd (lift (str_args (drop 1 args))) (\<lambda>members.
     bnd (read_zset key) (\<lambda>t.
     case t of
       None \<Rightarrow> ret (RInt 0)
     | Some target \<Rightarrow>
         (case remove_all zset_remove members target of (removed, target') \<Rightarrow>
            bnd (store_do (put_value key (VZset target'))) (\<lambda>_.
            bnd (if removed = [] then ret () else propagate ''ZREM'' (SArg key # map SArg removed)) (\<lambda>_.
            ret (RInt (int (length removed)))))))))"

definition zscore_cmd :: "arg list \<Rightarrow> reply cmd" where
  "zscore_cmd args =
     bnd (lift (key_arg (args ! 0))) (\<lambda>key.
     bnd (read_zset key) (\<lambda>t.
     case t of
       None \<Rightarrow> ret RNil
     | Some z \<Rightarrow> bnd (lift (str_arg (args ! 1))) (\<lambda>m. ret (opt_bulk (map_option format_float (zset_score m z))))))"

definition zcard_cmd :: "arg list \<Rightarrow> reply cmd" where
  "zcard_cmd args =
     bnd (lift (key_arg (args ! 0))) (\<lambda>key.
     bnd (read_zset key) (\<lambda>t. ret (RInt (case t of None \<Rightarrow> 0 | Some z \<Rightarrow> zset_len z))))"

text \<open>An assertion of the data structure that fails.\<close>

definition asserted :: "'a option \<Rightarrow> 'a cmd" where
  "asserted v = lift (case v of Some x \<Rightarrow> Inr x | None \<Rightarrow> Inl (Uncaught ''AssertionError''))"

definition zcount_cmd :: "arg list \<Rightarrow> reply cmd" where
  "zcount_cmd args =
     bnd (lift (score_bound (args ! 1))) (\<lambda>(lo, lo_ex).
     bnd (lift (score_bound (args ! 2))) (\<lambda>(hi, hi_ex).
     bnd (lift (key_arg (args ! 0))) (\<lambda>key.
     bnd (read_zset key) (\<lambda>t.
     case t of
       None \<Rightarrow> ret (RInt 0)
     | Some z \<Rightarrow> bnd (asserted (zset_count_in_range lo hi lo_ex hi_ex z)) (\<lambda>n. ret (RInt n))))))"

definition rank_cmd :: "bool \<Rightarrow> arg list \<Rightarrow> reply cmd" where
  "rank_cmd reverse args =
     bnd (lift (key_arg (args ! 0))) (\<lambda>key.
     bnd (read_zset key) (\<lambda>t.
     case t of
       None \<Rightarrow> ret RNil
     | Some z \<Rightarrow> bnd (lift (str_arg (args ! 1))) (\<lambda>m.
         ret (case zset_rank m reverse z of None \<Rightarrow> RNil | Some n \<Rightarrow> RInt n))))"

definition zrank_cmd :: "arg list \<Rightarrow> reply cmd" where
  "zrank_cmd args = rank_cmd False args"

definition zrevrank_cmd :: "arg list \<Rightarrow> reply cmd" where
  "zrevrank_cmd args = rank_cmd True args"

text \<open>\<open>_range\<close>.\<close>

definition range_cmd :: "str \<Rightarrow> arg \<Rightarrow> arg \<Rightarrow> bool \<Rightarrow> bool \<Rightarrow> (int \<times> int) option \<Rightarrow> bool \<Rightarrow> reply cmd" where
  "range_cmd key start stop by_score reverse limit with_scores =
     (if by_score
      then
        bnd (lift (score_bound (if reverse then stop else start))) (\<lambda>(lo, lo_ex).
        bnd (lift (score_bound (if reverse then start else stop))) (\<lambda>(hi, hi_ex).
        case (case limit of None \<Rightarrow> (0, - 1) | Some l \<Rightarrow> l) of (offset, cnt) \<Rightarrow>
          if offset < 0 then ret (RArray [])
          else bnd (read_zset key) (\<lambda>t.
               ret (bulks_reply (case t of
                 None \<Rightarrow> []
               | Some z \<Rightarrow> flatten with_scores
                   (map (zset_pair z) (zset_range_by_score lo hi lo_ex hi_ex reverse offset cnt z)))))))
      else if limit \<noteq> None then throw syntax_error
      else
        bnd (lift (int_arg start)) (\<lambda>i.
        bnd (lift (int_arg stop)) (\<lambda>j.
        bnd (read_zset key) (\<lambda>t.
        ret (bulks_reply (case t of
          None \<Rightarrow> []
        | Some z \<Rightarrow> flatten with_scores (map (zset_pair z) (zset_range_by_rank i j reverse z))))))))"

record range_options =
  ro_by_score :: bool
  ro_reverse :: bool
  ro_limit :: "(int \<times> int) option"
  ro_with_scores :: bool

fun parse_range_options :: "arg list \<Rightarrow> range_options \<Rightarrow> exn + range_options" where
  "parse_range_options [] opts = Inr opts"
| "parse_range_options (a # as) opts =
     (let option = upper_arg a in
      if option = lit ''BYSCORE'' then parse_range_options as (opts\<lparr>ro_by_score := True\<rparr>)
      else if option = lit ''REV'' then parse_range_options as (opts\<lparr>ro_reverse := True\<rparr>)
      else if option = lit ''WITHSCORES'' then parse_range_options as (opts\<lparr>ro_with_scores := True\<rparr>)
      else if option = lit ''LIMIT''
      then (case as of
              b # c # cs \<Rightarrow>
                (case int_arg b of
                   Inl x \<Rightarrow> Inl x
                 | Inr m \<Rightarrow> (case int_arg c of
                     Inl x \<Rightarrow> Inl x
                   | Inr n \<Rightarrow> parse_range_options cs (opts\<lparr>ro_limit := Some (m, n)\<rparr>)))
            | _ \<Rightarrow> Inl syntax_error)
      else Inl syntax_error)"

definition range_defaults :: range_options where
  "range_defaults = \<lparr>ro_by_score = False, ro_reverse = False, ro_limit = None, ro_with_scores = False\<rparr>"

definition zrange_cmd :: "arg list \<Rightarrow> reply cmd" where
  "zrange_cmd args =
     bnd (lift (parse_range_options (drop 3 args) range_defaults)) (\<lambda>opts.
     bnd (lift (key_arg (args ! 0))) (\<lambda>key.
     range_cmd key (args ! 1) (args ! 2) (ro_by_score opts) (ro_reverse opts) (ro_limit opts) (ro_with_scores opts)))"

definition zrevrange_cmd :: "arg list \<Rightarrow> reply cmd" where
  "zrevrange_cmd args =
     bnd (lift (parse_range_options (drop 3 args) range_defaults)) (\<lambda>opts.
     bnd (lift (key_arg (args ! 0))) (\<lambda>key.
     range_cmd key (args ! 1) (args ! 2) False True None (ro_with_scores opts)))"

definition range_by_score_cmd :: "bool \<Rightarrow> arg list \<Rightarrow> reply cmd" where
  "range_by_score_cmd reverse args =
     bnd (lift (parse_range_options (drop 3 args) range_defaults)) (\<lambda>opts.
     if ro_by_score opts \<or> ro_reverse opts then throw syntax_error
     else bnd (lift (key_arg (args ! 0))) (\<lambda>key.
          range_cmd key (args ! 1) (args ! 2) True reverse (ro_limit opts) (ro_with_scores opts)))"

definition zrangebyscore_cmd :: "arg list \<Rightarrow> reply cmd" where
  "zrangebyscore_cmd args = range_by_score_cmd False args"

definition zrevrangebyscore_cmd :: "arg list \<Rightarrow> reply cmd" where
  "zrevrangebyscore_cmd args = range_by_score_cmd True args"

definition zpop_cmd :: "bool \<Rightarrow> arg list \<Rightarrow> reply cmd" where
  "zpop_cmd from_max args =
     bnd (lift (key_arg (args ! 0))) (\<lambda>key.
     bnd (if 1 < length args then lift (int_arg (args ! 1)) else ret 1) (\<lambda>cnt.
     if cnt < 0 then throw negative_count
     else bnd (read_zset key) (\<lambda>t.
       case t of
         None \<Rightarrow> ret (RArray [])
       | Some target \<Rightarrow>
           bnd (asserted (zset_pop (nat cnt) from_max target)) (\<lambda>(popped, target').
           bnd (store_do (put_value key (VZset target'))) (\<lambda>_.
           bnd (if popped = [] then ret () else propagate ''ZREM'' (SArg key # map (\<lambda>(m, _). SArg m) popped)) (\<lambda>_.
           ret (bulks_reply (flatten True popped))))))))"

definition zpopmin_cmd :: "arg list \<Rightarrow> reply cmd" where
  "zpopmin_cmd args = zpop_cmd False args"

definition zpopmax_cmd :: "arg list \<Rightarrow> reply cmd" where
  "zpopmax_cmd args = zpop_cmd True args"

end
