(* ===== verification/Cmd_Keyspace.thy ===== *)
theory Cmd_Keyspace
  imports Cmd_Sets
begin

text \<open>
  \<open>engine/commands/keyspace.py\<close>, with the shell patterns of \<open>fnmatch.fnmatchcase\<close> that \<open>KEYS\<close>
  and \<open>CONFIG GET\<close> match with.
\<close>

section \<open>Shell patterns\<close>

text \<open>
  What the regular expression of \<open>fnmatch.translate\<close> is made of.  A class is the chunks of its
  characters between hyphens: a hyphen between two chunks is the range from the last character of
  the first to the first of the second.
\<close>

datatype glob = Star | Any | Chr nat | Cls bool "str list" | Never

fun until_bracket :: "str \<Rightarrow> (str \<times> str) option" where
  "until_bracket [] = None"
| "until_bracket (c # cs) =
     (if c = 93 then Some ([], cs) else map_option (\<lambda>(a, b). (c # a, b)) (until_bracket cs))"

text \<open>The text between the brackets, and what follows: a leading \<open>!\<close> and then a \<open>]\<close> belong to it.\<close>

definition bracket :: "str \<Rightarrow> (str \<times> str) option" where
  "bracket cs =
     (let neg = (if take 1 cs = [33] then 1 else 0);
          lead = (if take 1 (drop neg cs) = [93] then neg + 1 else neg)
      in map_option (\<lambda>(a, b). (take lead cs @ a, b)) (until_bracket (drop lead cs)))"

text \<open>The chunks: a hyphen counts from the given offset on.\<close>

function hyphen_chunks :: "nat \<Rightarrow> str \<Rightarrow> str list" where
  "hyphen_chunks k cs =
     (let pre = takeWhile (\<lambda>c. c \<noteq> 45) (drop k cs)
      in if length pre = length (drop k cs) then [cs]
         else take (k + length pre) cs # hyphen_chunks 2 (drop (k + length pre + 1) cs))"
  by pat_completeness auto
termination
proof (relation "measure (\<lambda>(k, cs). length cs)", simp, goal_cases)
  case (1 k cs x)
  from 1 have "drop k cs \<noteq> []" by (metis takeWhile.simps(1))
  then show ?case by (cases cs) auto
qed

text \<open>An empty last chunk means that the last hyphen stands for itself.\<close>

fun close_chunks :: "str list \<Rightarrow> str list" where
  "close_chunks [c, d] = (if d = [] then [c @ [45]] else [c, d])"
| "close_chunks (c # cs) = c # close_chunks cs"
| "close_chunks [] = []"

text \<open>Empty ranges are removed, from the right.\<close>

fun merge_chunks :: "str list \<Rightarrow> str list" where
  "merge_chunks [] = []"
| "merge_chunks (c # cs) =
     (case merge_chunks cs of
        [] \<Rightarrow> [c]
      | d # ds \<Rightarrow> if hd d < last c then (butlast c @ tl d) # ds else c # d # ds)"

definition class_of :: "str \<Rightarrow> glob" where
  "class_of stuff =
     (case merge_chunks (close_chunks (hyphen_chunks (if take 1 stuff = [33] then 2 else 1) stuff)) of
        [] \<Rightarrow> Never
      | c # cs \<Rightarrow>
          if c = [] \<and> cs = [] then Never
          else if c = [33] \<and> cs = [] then Any
          else if take 1 c = [33] then Cls True (drop 1 c # cs)
          else Cls False (c # cs))"

lemma until_bracket_length: "until_bracket cs = Some (a, b) \<Longrightarrow> length b < length cs"
  by (induction cs arbitrary: a) (auto split: if_splits)

lemma bracket_length [termination_simp]: "bracket cs = Some (a, b) \<Longrightarrow> length b \<le> length cs"
  by (auto simp: bracket_def Let_def dest!: until_bracket_length split: if_splits)

fun translate :: "str \<Rightarrow> glob list" where
  "translate [] = []"
| "translate (c # cs) =
     (if c = 42 then Star # translate cs
      else if c = 63 then Any # translate cs
      else if c = 91
      then (case bracket cs of
              None \<Rightarrow> Chr 91 # translate cs
            | Some (stuff, rest) \<Rightarrow> class_of stuff # translate rest)
      else Chr c # translate cs)"

fun in_chunks :: "nat \<Rightarrow> str list \<Rightarrow> bool" where
  "in_chunks x (c # d # ds) \<longleftrightarrow> x \<in> set c \<or> last c \<le> x \<and> x \<le> hd d \<or> in_chunks x (d # ds)"
| "in_chunks x [c] \<longleftrightarrow> x \<in> set c"
| "in_chunks x [] \<longleftrightarrow> False"

fun glob_char :: "glob \<Rightarrow> nat \<Rightarrow> bool" where
  "glob_char Any x \<longleftrightarrow> True"
| "glob_char (Chr c) x \<longleftrightarrow> x = c"
| "glob_char (Cls neg chunks) x \<longleftrightarrow> in_chunks x chunks \<noteq> neg"
| "glob_char _ x \<longleftrightarrow> False"

fun glob_match :: "glob list \<Rightarrow> str \<Rightarrow> bool" where
  "glob_match [] s \<longleftrightarrow> s = []"
| "glob_match (Star # gs) [] \<longleftrightarrow> glob_match gs []"
| "glob_match (Star # gs) (x # xs) \<longleftrightarrow> glob_match gs (x # xs) \<or> glob_match (Star # gs) xs"
| "glob_match (g # gs) [] \<longleftrightarrow> False"
| "glob_match (g # gs) (x # xs) \<longleftrightarrow> glob_char g x \<and> glob_match gs xs"

definition fnmatchcase :: "str \<Rightarrow> str \<Rightarrow> bool" where
  "fnmatchcase name pat \<longleftrightarrow> glob_match (translate pat) name"

section \<open>Keys\<close>

text \<open>Reading a list of keys: the first bad one raises.\<close>

primrec key_args :: "arg list \<Rightarrow> exn + str list" where
  "key_args [] = Inr []"
| "key_args (a # as) =
     (case key_arg a of
        Inl x \<Rightarrow> Inl x
      | Inr k \<Rightarrow> (case key_args as of Inl x \<Rightarrow> Inl x | Inr ks \<Rightarrow> Inr (k # ks)))"

text \<open>\<open>[k for k in keys if m(k)]\<close> for a call \<open>m\<close> with effects.\<close>

primrec filter_cmd :: "('a \<Rightarrow> bool cmd) \<Rightarrow> 'a list \<Rightarrow> 'a list cmd" where
  "filter_cmd m [] = ret []"
| "filter_cmd m (x # xs) = bnd (m x) (\<lambda>b. bnd (filter_cmd m xs) (\<lambda>ys. ret (if b then x # ys else ys)))"

definition del_cmd :: "arg list \<Rightarrow> reply cmd" where
  "del_cmd args =
     bnd (lift (key_args args)) (\<lambda>keys.
     bnd (filter_cmd (\<lambda>k. on_store (store_delete k)) keys) (\<lambda>deleted.
     bnd (if deleted = [] then ret () else propagate ''DEL'' (map SArg deleted)) (\<lambda>_.
     ret (RInt (int (length deleted))))))"

definition unlink_cmd :: "arg list \<Rightarrow> reply cmd" where
  "unlink_cmd args = del_cmd args"

definition exists_cmd :: "arg list \<Rightarrow> reply cmd" where
  "exists_cmd args =
     bnd (lift (key_args args)) (\<lambda>keys.
     bnd (filter_cmd exists_key keys) (\<lambda>found. ret (RInt (int (length found)))))"

definition type_cmd :: "arg list \<Rightarrow> reply cmd" where
  "type_cmd args =
     bnd (lift (key_arg (args ! 0))) (\<lambda>key.
     bnd (peek key) (\<lambda>e. ret (RSimple (case e of None \<Rightarrow> lit ''none'' | Some en \<Rightarrow> type_name (e_value en)))))"

definition keys_cmd :: "arg list \<Rightarrow> reply cmd" where
  "keys_cmd args =
     bnd (on_store iter_keys) (\<lambda>keys.
     ret (bulks_reply (filter (\<lambda>k. fnmatchcase k (arg_str (args ! 0))) keys)))"

definition dbsize_cmd :: "arg list \<Rightarrow> reply cmd" where
  "dbsize_cmd args = bnd (asks (\<lambda>e. length (st_data (en_store e)))) (\<lambda>n. ret (RInt (int n)))"

definition flushall_cmd :: "arg list \<Rightarrow> reply cmd" where
  "flushall_cmd args =
     (if args \<noteq> [] \<and> upper_arg (args ! 0) \<noteq> lit ''ASYNC'' \<and> upper_arg (args ! 0) \<noteq> lit ''SYNC''
      then throw syntax_error
      else bnd (store_do store_clear) (\<lambda>_. bnd (propagate ''FLUSHALL'' []) (\<lambda>_. ret OK)))"

definition flushdb_cmd :: "arg list \<Rightarrow> reply cmd" where
  "flushdb_cmd args = flushall_cmd args"

section \<open>Expiration\<close>

definition expire_at_ms :: "str \<Rightarrow> int \<Rightarrow> reply cmd" where
  "expire_at_ms key at_ms =
     bnd (exists_key key) (\<lambda>exists.
     if \<not> exists then ret (RInt 0)
     else
       bnd now_ms (\<lambda>now.
       bnd (asks en_replaying) (\<lambda>loading.
       if at_ms \<le> now \<and> \<not> loading
       then bnd (on_store (store_delete key)) (\<lambda>_. bnd (propagate ''DEL'' [SArg key]) (\<lambda>_. ret (RInt 1)))
       else bnd (on_store (store_set_expiry key (int_div at_ms 1000))) (\<lambda>_.
            bnd (propagate ''PEXPIREAT'' [SArg key, IArg at_ms]) (\<lambda>_. ret (RInt 1))))))"

definition expire_cmd :: "arg list \<Rightarrow> reply cmd" where
  "expire_cmd args =
     bnd (lift (key_arg (args ! 0))) (\<lambda>key.
     bnd now_ms (\<lambda>now.
     bnd (lift (int_arg (args ! 1))) (\<lambda>n. expire_at_ms key (now + n * 1000))))"

definition pexpire_cmd :: "arg list \<Rightarrow> reply cmd" where
  "pexpire_cmd args =
     bnd (lift (key_arg (args ! 0))) (\<lambda>key.
     bnd now_ms (\<lambda>now.
     bnd (lift (int_arg (args ! 1))) (\<lambda>n. expire_at_ms key (now + n))))"

definition expireat_cmd :: "arg list \<Rightarrow> reply cmd" where
  "expireat_cmd args =
     bnd (lift (key_arg (args ! 0))) (\<lambda>key.
     bnd (lift (int_arg (args ! 1))) (\<lambda>n. expire_at_ms key (n * 1000)))"

definition pexpireat_cmd :: "arg list \<Rightarrow> reply cmd" where
  "pexpireat_cmd args =
     bnd (lift (key_arg (args ! 0))) (\<lambda>key.
     bnd (lift (int_arg (args ! 1))) (\<lambda>n. expire_at_ms key n))"

definition persist_cmd :: "arg list \<Rightarrow> reply cmd" where
  "persist_cmd args =
     bnd (lift (key_arg (args ! 0))) (\<lambda>key.
     bnd (on_store (store_persist key)) (\<lambda>b.
     if \<not> b then ret (RInt 0) else bnd (propagate ''PERSIST'' [SArg key]) (\<lambda>_. ret (RInt 1))))"

definition ttl_ms :: "arg list \<Rightarrow> int cmd" where
  "ttl_ms args =
     bnd (lift (key_arg (args ! 0))) (\<lambda>key.
     bnd (peek key) (\<lambda>e.
     case e of
       None \<Rightarrow> ret (- 2)
     | Some en \<Rightarrow>
         (case e_expires en of
            None \<Rightarrow> ret (- 1)
          | Some t \<Rightarrow>
              bnd (asks (\<lambda>e. st_now (en_store e))) (\<lambda>now.
              case fround (fscale (fadd t (fneg now)) 1000) of
                Some n \<Rightarrow> ret (max 0 n)
              | None \<Rightarrow> throw (Uncaught ''OverflowError'')))))"

definition pttl_cmd :: "arg list \<Rightarrow> reply cmd" where
  "pttl_cmd args = bnd (ttl_ms args) (\<lambda>ms. ret (RInt ms))"

definition ttl_cmd :: "arg list \<Rightarrow> reply cmd" where
  "ttl_cmd args = bnd (ttl_ms args) (\<lambda>ms. ret (RInt (if ms < 0 then ms else (ms + 500) div 1000)))"

section \<open>Dump and restore\<close>

text \<open>\<open>dump_value\<close> fails on text that has no bytes, and on lengths beyond 32 bits.\<close>

definition dump_cmd :: "arg list \<Rightarrow> reply cmd" where
  "dump_cmd args =
     bnd (lift (key_arg (args ! 0))) (\<lambda>key.
     bnd (on_store (store_record key)) (\<lambda>r.
     case r of
       None \<Rightarrow> ret RNil
     | Some (_, payload, _) \<Rightarrow>
         (case dump_value payload of
            Some bs \<Rightarrow> ret (RBulk (to_str bs))
          | None \<Rightarrow> throw (Uncaught ''UnicodeEncodeError''))))"

text \<open>
  The text of the \<open>UnicodeEncodeError\<close> for a surrogate that stands for no byte, which is a
  \<open>ValueError\<close>: it names the rest of the run of surrogates.
\<close>

definition surrogate_error :: "str \<Rightarrow> str" where
  "surrogate_error s =
     (let k = length (takeWhile (\<lambda>c. enc_char c \<noteq> None) s);
          run = takeWhile (\<lambda>c. 55296 \<le> c \<and> c \<le> 57343) (drop k s)
      in if length run = 1
         then [39] @ lit ''utf-8'' @ [39] @ lit '' codec can'' @ [39] @ lit ''t encode character '' @ [39, 92, 117]
              @ map hex_digit [s ! k div 4096, s ! k div 256 mod 16, s ! k div 16 mod 16, s ! k mod 16] @ [39]
              @ lit '' in position '' @ nat_text k @ lit '': surrogates not allowed''
         else [39] @ lit ''utf-8'' @ [39] @ lit '' codec can'' @ [39] @ lit ''t encode characters in position ''
              @ nat_text k @ lit ''-'' @ nat_text (k + length run - 1) @ lit '': surrogates not allowed'')"

definition restore_payload :: "arg \<Rightarrow> exn + payload" where
  "restore_payload raw =
     (case to_bytes (arg_str raw) of
        None \<Rightarrow> Inl (Raised (mk_error CommandError (surrogate_error (arg_str raw)) None))
      | Some bs \<Rightarrow>
          (case load_value bs of
             Inl msg \<Rightarrow> Inl (Raised (mk_error CommandError msg None))
           | Inr p \<Rightarrow> Inr p))"

definition deadline_ms :: "int \<Rightarrow> bool \<Rightarrow> int \<Rightarrow> int option" where
  "deadline_ms ttl absolute now = (if ttl = 0 then None else Some (if absolute then ttl else now + ttl))"

definition restore_cmd :: "arg list \<Rightarrow> reply cmd" where
  "restore_cmd args =
     bnd (lift (key_arg (args ! 0))) (\<lambda>key.
     bnd (lift (int_arg (args ! 1))) (\<lambda>ttl.
     let raw = args ! 2; opts = map upper_arg (drop 3 args) in
     if \<not> set opts \<subseteq> {lit ''REPLACE'', lit ''ABSTTL''} \<or> ttl < 0 then throw syntax_error
     else
       bnd (if lit ''REPLACE'' \<in> set opts then ret False else exists_key key) (\<lambda>busy.
       if busy then throw (Raised (mk_error CommandError (lit ''Target key name already exists.'') (Some (lit ''BUSYKEY''))))
       else
         bnd (lift (restore_payload raw)) (\<lambda>payload.
         bnd now_ms (\<lambda>now.
         bnd (asks en_replaying) (\<lambda>loading.
         let expires_ms = deadline_ms ttl (lit ''ABSTTL'' \<in> set opts) now in
         if (case expires_ms of None \<Rightarrow> False | Some t \<Rightarrow> t \<le> now) \<and> \<not> loading
         then bnd (on_store (store_delete key)) (\<lambda>_. bnd (propagate ''DEL'' [SArg key]) (\<lambda>_. ret OK))
         else
           bnd (on_store (store_delete key)) (\<lambda>_.
           bnd (store_do (load_record (key, payload, map_option (\<lambda>t. int_div t 1000) expires_ms))) (\<lambda>_.
           bnd (propagate ''RESTORE''
                  [SArg key, IArg (case expires_ms of None \<Rightarrow> 0 | Some t \<Rightarrow> t), raw,
                   SArg (lit ''REPLACE''), SArg (lit ''ABSTTL'')]) (\<lambda>_. ret OK)))))))))"

end
