(* ===== verification/Command_Table.thy ===== *)
theory Command_Table
  imports Registry
begin

text \<open>
  The metadata the \<open>@command\<close> decorators of \<open>engine/commands\<close> register, in the order of the imports
  of the package: \<open>COMMANDS\<close> without the handlers.
\<close>

definition hash_commands :: "(str \<times> command_spec) list" where
  "hash_commands =
     [mk_command ''HSET'' 3 None [WRITE, DENYOOM] (Some SINGLE_KEY),
      mk_command ''HSETNX'' 3 (Some 3) [WRITE, DENYOOM] (Some SINGLE_KEY),
      mk_command ''HGET'' 2 (Some 2) [] (Some SINGLE_KEY),
      mk_command ''HMGET'' 2 None [] (Some SINGLE_KEY),
      mk_command ''HDEL'' 2 None [WRITE] (Some SINGLE_KEY),
      mk_command ''HGETALL'' 1 (Some 1) [] (Some SINGLE_KEY),
      mk_command ''HKEYS'' 1 (Some 1) [] (Some SINGLE_KEY),
      mk_command ''HVALS'' 1 (Some 1) [] (Some SINGLE_KEY),
      mk_command ''HLEN'' 1 (Some 1) [] (Some SINGLE_KEY),
      mk_command ''HEXISTS'' 2 (Some 2) [] (Some SINGLE_KEY),
      mk_command ''HINCRBY'' 3 (Some 3) [WRITE, DENYOOM] (Some SINGLE_KEY)]"

definition keyspace_commands :: "(str \<times> command_spec) list" where
  "keyspace_commands =
     [mk_command ''DEL'' 1 None [WRITE] (Some ALL_KEYS),
      mk_command ''UNLINK'' 1 None [WRITE] (Some ALL_KEYS),
      mk_command ''EXISTS'' 1 None [] (Some ALL_KEYS),
      mk_command ''TYPE'' 1 (Some 1) [] (Some SINGLE_KEY),
      mk_command ''KEYS'' 1 (Some 1) [] None,
      mk_command ''DBSIZE'' 0 (Some 0) [] None,
      mk_command ''FLUSHALL'' 0 (Some 1) [WRITE] None,
      mk_command ''FLUSHDB'' 0 (Some 1) [WRITE] None,
      mk_command ''EXPIRE'' 2 (Some 2) [WRITE] (Some SINGLE_KEY),
      mk_command ''PEXPIRE'' 2 (Some 2) [WRITE] (Some SINGLE_KEY),
      mk_command ''EXPIREAT'' 2 (Some 2) [WRITE] (Some SINGLE_KEY),
      mk_command ''PEXPIREAT'' 2 (Some 2) [WRITE] (Some SINGLE_KEY),
      mk_command ''PERSIST'' 1 (Some 1) [WRITE] (Some SINGLE_KEY),
      mk_command ''PTTL'' 1 (Some 1) [] (Some SINGLE_KEY),
      mk_command ''TTL'' 1 (Some 1) [] (Some SINGLE_KEY),
      mk_command ''DUMP'' 1 (Some 1) [] (Some SINGLE_KEY),
      mk_command ''RESTORE'' 3 (Some 5) [WRITE, DENYOOM] (Some SINGLE_KEY)]"

definition list_commands :: "(str \<times> command_spec) list" where
  "list_commands =
     [mk_command ''LPUSH'' 2 None [WRITE, DENYOOM] (Some SINGLE_KEY),
      mk_command ''RPUSH'' 2 None [WRITE, DENYOOM] (Some SINGLE_KEY),
      mk_command ''LPOP'' 1 (Some 2) [WRITE] (Some SINGLE_KEY),
      mk_command ''RPOP'' 1 (Some 2) [WRITE] (Some SINGLE_KEY),
      mk_command ''LLEN'' 1 (Some 1) [] (Some SINGLE_KEY),
      mk_command ''LRANGE'' 3 (Some 3) [] (Some SINGLE_KEY),
      mk_command ''LINDEX'' 2 (Some 2) [] (Some SINGLE_KEY),
      mk_command ''LSET'' 3 (Some 3) [WRITE, DENYOOM] (Some SINGLE_KEY),
      mk_command ''LTRIM'' 3 (Some 3) [WRITE] (Some SINGLE_KEY),
      mk_command ''LREM'' 3 (Some 3) [WRITE] (Some SINGLE_KEY)]"

definition server_commands :: "(str \<times> command_spec) list" where
  "server_commands =
     [mk_command ''PING'' 0 (Some 1) [STATELESS] None,
      mk_command ''ECHO'' 1 (Some 1) [STATELESS] None,
      mk_command ''TIME'' 0 (Some 0) [STATELESS] None,
      mk_command ''SELECT'' 1 (Some 1) [STATELESS] None,
      mk_command ''HELLO'' 0 None [STATELESS] None,
      mk_command ''CLIENT'' 1 None [STATELESS] None,
      mk_command ''COMMAND'' 0 None [STATELESS] None,
      mk_command ''CONFIG'' 1 None [ADMIN] None,
      mk_command ''INFO'' 0 None [] None,
      mk_command ''SAVE'' 0 (Some 0) [ADMIN] None,
      mk_command ''BGSAVE'' 0 (Some 1) [ADMIN] None,
      mk_command ''BGREWRITEAOF'' 0 (Some 0) [ADMIN] None,
      mk_command ''LASTSAVE'' 0 (Some 0) [] None]"

definition set_commands :: "(str \<times> command_spec) list" where
  "set_commands =
     [mk_command ''SADD'' 2 None [WRITE, DENYOOM] (Some SINGLE_KEY),
      mk_command ''SREM'' 2 None [WRITE] (Some SINGLE_KEY),
      mk_command ''SMEMBERS'' 1 (Some 1) [] (Some SINGLE_KEY),
      mk_command ''SISMEMBER'' 2 (Some 2) [] (Some SINGLE_KEY),
      mk_command ''SCARD'' 1 (Some 1) [] (Some SINGLE_KEY),
      mk_command ''SPOP'' 1 (Some 2) [WRITE] (Some SINGLE_KEY),
      mk_command ''SRANDMEMBER'' 1 (Some 2) [] (Some SINGLE_KEY),
      mk_command ''SINTER'' 1 None [] (Some ALL_KEYS),
      mk_command ''SUNION'' 1 None [] (Some ALL_KEYS),
      mk_command ''SDIFF'' 1 None [] (Some ALL_KEYS)]"

definition string_commands :: "(str \<times> command_spec) list" where
  "string_commands =
     [mk_command ''GET'' 1 (Some 1) [] (Some SINGLE_KEY),
      mk_command ''SET'' 2 None [WRITE, DENYOOM] (Some SINGLE_KEY),
      mk_command ''SETNX'' 2 (Some 2) [WRITE, DENYOOM] (Some SINGLE_KEY),
      mk_command ''GETDEL'' 1 (Some 1) [WRITE] (Some SINGLE_KEY),
      mk_command ''MGET'' 1 None [] (Some ALL_KEYS),
      mk_command ''MSET'' 2 None [WRITE, DENYOOM] (Some EVERY_OTHER_KEY),
      mk_command ''INCR'' 1 (Some 1) [WRITE, DENYOOM] (Some SINGLE_KEY),
      mk_command ''DECR'' 1 (Some 1) [WRITE, DENYOOM] (Some SINGLE_KEY),
      mk_command ''INCRBY'' 2 (Some 2) [WRITE, DENYOOM] (Some SINGLE_KEY),
      mk_command ''DECRBY'' 2 (Some 2) [WRITE, DENYOOM] (Some SINGLE_KEY),
      mk_command ''INCRBYFLOAT'' 2 (Some 2) [WRITE, DENYOOM] (Some SINGLE_KEY),
      mk_command ''APPEND'' 2 (Some 2) [WRITE, DENYOOM] (Some SINGLE_KEY),
      mk_command ''STRLEN'' 1 (Some 1) [] (Some SINGLE_KEY)]"

definition zset_commands :: "(str \<times> command_spec) list" where
  "zset_commands =
     [mk_command ''ZADD'' 3 None [WRITE, DENYOOM] (Some SINGLE_KEY),
      mk_command ''ZINCRBY'' 3 (Some 3) [WRITE, DENYOOM] (Some SINGLE_KEY),
      mk_command ''ZREM'' 2 None [WRITE] (Some SINGLE_KEY),
      mk_command ''ZSCORE'' 2 (Some 2) [] (Some SINGLE_KEY),
      mk_command ''ZCARD'' 1 (Some 1) [] (Some SINGLE_KEY),
      mk_command ''ZCOUNT'' 3 (Some 3) [] (Some SINGLE_KEY),
      mk_command ''ZRANK'' 2 (Some 2) [] (Some SINGLE_KEY),
      mk_command ''ZREVRANK'' 2 (Some 2) [] (Some SINGLE_KEY),
      mk_command ''ZRANGE'' 3 None [] (Some SINGLE_KEY),
      mk_command ''ZREVRANGE'' 3 (Some 4) [] (Some SINGLE_KEY),
      mk_command ''ZRANGEBYSCORE'' 3 None [] (Some SINGLE_KEY),
      mk_command ''ZREVRANGEBYSCORE'' 3 None [] (Some SINGLE_KEY),
      mk_command ''ZPOPMIN'' 1 (Some 2) [WRITE] (Some SINGLE_KEY),
      mk_command ''ZPOPMAX'' 1 (Some 2) [WRITE] (Some SINGLE_KEY)]"

definition COMMANDS :: "(str \<times> command_spec) list" where
  "COMMANDS =
     hash_commands @ keyspace_commands @ list_commands @ server_commands @ set_commands @ string_commands
       @ zset_commands"

end
