(* ===== verification/Cmd_Server.thy ===== *)
theory Cmd_Server
  imports Cmd_Keyspace Command_Table
begin

text \<open>
  \<open>engine/commands/server.py\<close>, what it reports of the engine (\<open>info\<close> and \<open>info_sections\<close> of
  \<open>engine/engine.py\<close>), and the handlers of all commands.
\<close>

section \<open>Connection commands\<close>

fun arg_reply :: "arg \<Rightarrow> reply" where
  "arg_reply (SArg s) = RBulk s"
| "arg_reply (IArg n) = RInt n"
| "arg_reply (FArg x) = RFloat x"
| "arg_reply (BArg b) = RInt (if b then 1 else 0)"

definition ping_cmd :: "arg list \<Rightarrow> reply cmd" where
  "ping_cmd args = ret (case args of [] \<Rightarrow> PONG | a # _ \<Rightarrow> arg_reply a)"

definition echo_cmd :: "arg list \<Rightarrow> reply cmd" where
  "echo_cmd args = ret (arg_reply (args ! 0))"

definition time_cmd :: "arg list \<Rightarrow> reply cmd" where
  "time_cmd args =
     bnd (asks en_time_ns) (\<lambda>ns.
     let now_us = ns div 1000
     in ret (bulks_reply [int_text (now_us div 1000000), int_text (now_us mod 1000000)]))"

definition select_cmd :: "arg list \<Rightarrow> reply cmd" where
  "select_cmd args =
     (if arg_str (args ! 0) \<noteq> lit ''0'' then throw (Raised (err CommandError ''DB index is out of range'')) else ret OK)"

definition version :: str where "version = lit ''0.6.0''"

definition hello_cmd :: "arg list \<Rightarrow> reply cmd" where
  "hello_cmd args =
     (if args \<noteq> [] \<and> arg_str (args ! 0) \<noteq> lit ''2''
      then throw (Raised (mk_error CommandError (lit ''unsupported protocol version'') (Some (lit ''NOPROTO''))))
      else ret (RArray [RBulk (lit ''server''), RBulk (lit ''kvstore''), RBulk (lit ''version''), RBulk version,
                        RBulk (lit ''proto''), RInt 2, RBulk (lit ''id''), RInt 1, RBulk (lit ''mode''),
                        RBulk (lit ''standalone''), RBulk (lit ''role''), RBulk (lit ''master''),
                        RBulk (lit ''modules''), RArray []]))"

definition unknown_subcommand :: "arg \<Rightarrow> exn" where
  "unknown_subcommand a =
     Raised (mk_error CommandError (lit ''unknown subcommand '' @ [39] @ arg_str a @ [39]) None)"

definition client_cmd :: "arg list \<Rightarrow> reply cmd" where
  "client_cmd args =
     (let sub = upper_arg (args ! 0) in
      if sub = lit ''SETINFO'' \<or> sub = lit ''SETNAME'' then ret OK
      else if sub = lit ''GETNAME'' then ret RNil
      else if sub = lit ''ID'' then ret (RInt 1)
      else throw (unknown_subcommand (args ! 0)))"

definition command_info :: "str \<times> command_spec \<Rightarrow> reply" where
  "command_info c =
     (case c of (name, spec) \<Rightarrow>
        (case (case cs_key_spec spec of
                 None \<Rightarrow> (0, 0, 0)
               | Some k \<Rightarrow> (int (kp_first k) + 1, case kp_last k of None \<Rightarrow> - 1 | Some l \<Rightarrow> int l + 1, int (kp_step k)))
         of (first, final, step) \<Rightarrow>
           RArray [RBulk (lower_ascii name), RInt (arity spec),
                   RArray (map RSimple (sort (remdups (map flag_name (cs_flags spec))))),
                   RInt first, RInt final, RInt step]))"

definition info_of :: "str \<Rightarrow> reply" where
  "info_of name = (case dict_get COMMANDS name of None \<Rightarrow> RNil | Some spec \<Rightarrow> command_info (name, spec))"

definition command_cmd :: "arg list \<Rightarrow> reply cmd" where
  "command_cmd args =
     (let sub = (case args of [] \<Rightarrow> [] | a # _ \<Rightarrow> upper_arg a) in
      if sub = lit ''COUNT'' then ret (RInt (int (length COMMANDS)))
      else if sub = lit ''DOCS'' then ret (RArray [])
      else if sub = lit ''LIST'' then ret (bulks_reply (map lower_ascii (sort (dict_keys COMMANDS))))
      else if sub = lit ''INFO'' then ret (RArray (map (\<lambda>a. info_of (py_upper (arg_str a))) (drop 1 args)))
      else if sub = [] then ret (RArray (map info_of (sort (dict_keys COMMANDS))))
      else throw (unknown_subcommand (args ! 0)))"

section \<open>Configuration\<close>

text \<open>
  \<open>str.lower\<close> as far as a comparison with ASCII text can tell: the characters whose lower case has
  an ASCII character.
\<close>

definition lower_char :: "nat \<Rightarrow> str" where
  "lower_char c =
     (if 65 \<le> c \<and> c \<le> 90 then [c + 32] else if c = 8490 then [107] else if c = 304 then [105, 775] else [c])"

definition py_lower :: "str \<Rightarrow> str" where
  "py_lower s = concat (map lower_char s)"

definition config_cmd :: "arg list \<Rightarrow> reply cmd" where
  "config_cmd args =
     (let sub = upper_arg (args ! 0) in
      if sub = lit ''GET'' \<and> 2 \<le> length args
      then bnd (asks config_values) (\<lambda>values.
           let patterns = map (\<lambda>a. py_lower (arg_str a)) (drop 1 args)
           in ret (bulks_reply (concat (map (\<lambda>(name, v). if list_ex (fnmatchcase name) patterns then [name, v] else [])
                                            values))))
      else if sub = lit ''RESETSTAT'' then ret OK
      else throw (Raised (mk_error CommandError
             (lit ''unsupported CONFIG subcommand '' @ [39] @ arg_str (args ! 0) @ [39]
                @ lit '' (settings come from KV_* env)'') None)))"

section \<open>Information\<close>

text \<open>\<open>_human_bytes\<close>; \<open>None\<close> is the \<open>OverflowError\<close> of \<open>float(size)\<close>.\<close>

definition fixed2 :: "rat \<Rightarrow> str" where
  "fixed2 q =
     (let n = round_half_even (\<bar>q\<bar> * 100)
      in (if q < 0 then [45] else []) @ int_text (n div 100) @ [46, 48 + nat (n div 10 mod 10), 48 + nat (n mod 10)])"

fun human_units :: "str \<Rightarrow> pyfloat \<Rightarrow> str" where
  "human_units [] v = []"
| "human_units [u] v = (case v of Fin q \<Rightarrow> fixed2 q @ [u] | _ \<Rightarrow> float_text v @ [u])"
| "human_units (u # us) v =
     (if flt v (Fin 1024) then (case v of Fin q \<Rightarrow> fixed2 q @ [u] | _ \<Rightarrow> float_text v @ [u])
      else human_units us (fscale v (1 / 1024)))"

definition human_bytes :: "int \<Rightarrow> str option" where
  "human_bytes n =
     (case round64 (of_int n) of
        Fin q \<Rightarrow>
          Some (if q < 1024 then int_text n @ lit ''B'' else human_units (lit ''KMG'') (fscale (Fin q) (1 / 1024)))
      | _ \<Rightarrow> None)"

definition from_persist :: "'a \<Rightarrow> (persistence \<Rightarrow> 'a) \<Rightarrow> engine \<Rightarrow> 'a" where
  "from_persist dflt f e = (case en_persist e of None \<Rightarrow> dflt | Some p \<Rightarrow> f p)"

definition from_writer :: "(aof_writer \<Rightarrow> int) \<Rightarrow> persistence \<Rightarrow> int" where
  "from_writer f p = (case ps_writer p of None \<Rightarrow> 0 | Some w \<Rightarrow> f w)"

definition status :: "bool \<Rightarrow> info_field" where
  "status ok = FText (if ok then lit ''ok'' else lit ''err'')"

definition measured :: "str option \<Rightarrow> info_field" where
  "measured v = (case v of None \<Rightarrow> FNone | Some t \<Rightarrow> FText t)"

definition server_section :: "engine \<Rightarrow> (str \<times> info_field) list" where
  "server_section e =
     [(lit ''redis_version'', FText (lit ''7.2.0'')),
      (lit ''kvstore_version'', FText version),
      (lit ''redis_mode'', FText (lit ''standalone'')),
      (lit ''process_id'', FInt (fc_pid (en_facts e))),
      (lit ''uptime_in_seconds'', FInt (fc_uptime (en_facts e)))]"

definition memory_section :: "engine \<Rightarrow> (str \<times> info_field) list option" where
  "memory_section e =
     (let s = en_store e in
      case (human_bytes (st_used_memory s), human_bytes (st_maxmemory s)) of
        (Some used, Some limit) \<Rightarrow>
          Some [(lit ''used_memory'', FInt (st_used_memory s)),
                (lit ''used_memory_human'', FText used),
                (lit ''maxmemory'', FInt (st_maxmemory s)),
                (lit ''maxmemory_human'', FText limit),
                (lit ''maxmemory_policy'', FText (redis_policy_name (pol_name (st_policy s)))),
                (lit ''max_keys'', FInt (st_max_keys s))]
      | _ \<Rightarrow> None)"

definition persistence_section :: "engine \<Rightarrow> (str \<times> info_field) list" where
  "persistence_section e =
     [(lit ''loading'', FBool False),
      (lit ''aof_enabled'', FBool (en_persist e \<noteq> None)),
      (lit ''aof_rewrite_in_progress'', FBool (from_persist False rewrite_in_progress e)),
      (lit ''aof_last_bgrewrite_status'', status (from_persist True ps_last_rewrite_ok e)),
      (lit ''aof_last_write_status'',
         status (from_persist True (\<lambda>p. ps_write_error p = None \<or> ps_write_error p = Some []) e)),
      (lit ''aof_current_size'', FInt (from_persist 0 (\<lambda>p. from_writer (\<lambda>w. int (aw_size_bytes w (ps_disk p))) p) e)),
      (lit ''aof_base_size'', FInt (from_persist 0 (\<lambda>p. int (ps_base_size p)) e)),
      (lit ''aof_fsync'', FText (from_persist (lit ''no'') (\<lambda>p. fsync_name (ps_fsync p)) e)),
      (lit ''aof_fsyncs'', FInt (from_persist 0 (from_writer (\<lambda>w. int (aw_fsyncs w))) e)),
      (lit ''aof_rewrites'', FInt (from_persist 0 (\<lambda>p. int (ps_rewrites_completed p)) e)),
      (lit ''aof_last_rewrite_time_ms'', from_persist FNone (\<lambda>_. measured (fc_rewrite_ms (en_facts e))) e),
      (lit ''last_snapshot_pause_ms'', from_persist FNone (\<lambda>_. measured (fc_pause_ms (en_facts e))) e),
      (lit ''rdb_last_save_time'', FInt (engine_last_save_time e))]"

definition stats_section :: "engine \<Rightarrow> (str \<times> info_field) list" where
  "stats_section e =
     (let s = en_store e in
      [(lit ''total_commands_processed'', FInt (en_commands e)),
       (lit ''expired_keys'', FInt (st_expired_keys s)),
       (lit ''evicted_keys'', FInt (st_evicted_keys s)),
       (lit ''keyspace_hits'', FInt (st_hits s)),
       (lit ''keyspace_misses'', FInt (st_misses s))])"

definition keyspace_section :: "engine \<Rightarrow> (str \<times> info_field) list" where
  "keyspace_section e =
     (let s = en_store e in
      if st_data s = [] then []
      else [(lit ''db0'', FText (lit ''keys='' @ nat_text (length (st_data s)) @ lit '',expires=''
               @ nat_text (ks_len (st_volatile s)) @ lit '',avg_ttl=0''))])"

definition info_sections :: "engine \<Rightarrow> (str \<times> (str \<times> info_field) list) list option" where
  "info_sections e =
     (case memory_section e of
        None \<Rightarrow> None
      | Some memory \<Rightarrow>
          Some (fold (\<lambda>(k, v). dict_set k v) (fc_extra (en_facts e))
            [(lit ''server'', server_section e), (lit ''memory'', memory),
             (lit ''persistence'', persistence_section e), (lit ''stats'', stats_section e),
             (lit ''keyspace'', keyspace_section e)]))"

fun info_value :: "info_field \<Rightarrow> str" where
  "info_value (FBool b) = (if b then lit ''1'' else lit ''0'')"
| "info_value FNone = []"
| "info_value (FInt n) = int_text n"
| "info_value (FText t) = t"

text \<open>\<open>name.capitalize()\<close>: the names of the sections are ASCII.\<close>

fun capitalize :: "str \<Rightarrow> str" where
  "capitalize [] = []"
| "capitalize (c # cs) = py_upper [c] @ lower_ascii cs"

definition section_lines :: "str list \<Rightarrow> str \<times> (str \<times> info_field) list \<Rightarrow> str list" where
  "section_lines wanted sec =
     (case sec of (name, rows) \<Rightarrow>
        if wanted \<noteq> [] \<and> name \<notin> set wanted then []
        else [lit ''# '' @ capitalize name] @ map (\<lambda>(f, v). f @ [58] @ info_value v) rows @ [[]])"

fun join_lines :: "str list \<Rightarrow> str" where
  "join_lines [] = []"
| "join_lines [l] = l"
| "join_lines (l # ls) = l @ CRLF @ join_lines ls"

definition info_cmd :: "arg list \<Rightarrow> reply cmd" where
  "info_cmd args =
     bnd (asks info_sections) (\<lambda>secs.
     case secs of
       None \<Rightarrow> throw (Uncaught ''OverflowError'')
     | Some sections \<Rightarrow>
         let wanted = filter (\<lambda>w. w \<notin> {lit ''all'', lit ''everything'', lit ''default''})
                        (map (\<lambda>a. py_lower (arg_str a)) args)
         in ret (RBulk (join_lines (concat (map (section_lines wanted) sections)))))"

section \<open>Saving\<close>

definition save_cmd :: "arg list \<Rightarrow> reply cmd" where
  "save_cmd args = bnd engine_save (\<lambda>_. ret OK)"

definition bgsave_cmd :: "arg list \<Rightarrow> reply cmd" where
  "bgsave_cmd args =
     (if args \<noteq> [] \<and> upper_arg (args ! 0) \<noteq> lit ''SCHEDULE'' then throw syntax_error
      else bnd engine_start_rewrite (\<lambda>_. ret (RSimple (lit ''Background saving started''))))"

definition bgrewriteaof_cmd :: "arg list \<Rightarrow> reply cmd" where
  "bgrewriteaof_cmd args =
     bnd engine_start_rewrite (\<lambda>_. ret (RSimple (lit ''Background append only file rewriting started'')))"

definition lastsave_cmd :: "arg list \<Rightarrow> reply cmd" where
  "lastsave_cmd args = bnd (asks engine_last_save_time) (\<lambda>t. ret (RInt t))"

section \<open>The handlers\<close>

definition hash_handlers :: "(str \<times> (arg list \<Rightarrow> reply cmd)) list" where
  "hash_handlers =
     [(lit ''HSET'', hset_cmd),
      (lit ''HSETNX'', hsetnx_cmd),
      (lit ''HGET'', hget_cmd),
      (lit ''HMGET'', hmget_cmd),
      (lit ''HDEL'', hdel_cmd),
      (lit ''HGETALL'', hgetall_cmd),
      (lit ''HKEYS'', hkeys_cmd),
      (lit ''HVALS'', hvals_cmd),
      (lit ''HLEN'', hlen_cmd),
      (lit ''HEXISTS'', hexists_cmd),
      (lit ''HINCRBY'', hincrby_cmd)]"

definition keyspace_handlers :: "(str \<times> (arg list \<Rightarrow> reply cmd)) list" where
  "keyspace_handlers =
     [(lit ''DEL'', del_cmd),
      (lit ''UNLINK'', unlink_cmd),
      (lit ''EXISTS'', exists_cmd),
      (lit ''TYPE'', type_cmd),
      (lit ''KEYS'', keys_cmd),
      (lit ''DBSIZE'', dbsize_cmd),
      (lit ''FLUSHALL'', flushall_cmd),
      (lit ''FLUSHDB'', flushdb_cmd),
      (lit ''EXPIRE'', expire_cmd),
      (lit ''PEXPIRE'', pexpire_cmd),
      (lit ''EXPIREAT'', expireat_cmd),
      (lit ''PEXPIREAT'', pexpireat_cmd),
      (lit ''PERSIST'', persist_cmd),
      (lit ''PTTL'', pttl_cmd),
      (lit ''TTL'', ttl_cmd),
      (lit ''DUMP'', dump_cmd),
      (lit ''RESTORE'', restore_cmd)]"

definition list_handlers :: "(str \<times> (arg list \<Rightarrow> reply cmd)) list" where
  "list_handlers =
     [(lit ''LPUSH'', lpush_cmd),
      (lit ''RPUSH'', rpush_cmd),
      (lit ''LPOP'', lpop_cmd),
      (lit ''RPOP'', rpop_cmd),
      (lit ''LLEN'', llen_cmd),
      (lit ''LRANGE'', lrange_cmd),
      (lit ''LINDEX'', lindex_cmd),
      (lit ''LSET'', lset_cmd),
      (lit ''LTRIM'', ltrim_cmd),
      (lit ''LREM'', lrem_cmd)]"

definition server_handlers :: "(str \<times> (arg list \<Rightarrow> reply cmd)) list" where
  "server_handlers =
     [(lit ''PING'', ping_cmd),
      (lit ''ECHO'', echo_cmd),
      (lit ''TIME'', time_cmd),
      (lit ''SELECT'', select_cmd),
      (lit ''HELLO'', hello_cmd),
      (lit ''CLIENT'', client_cmd),
      (lit ''COMMAND'', command_cmd),
      (lit ''CONFIG'', config_cmd),
      (lit ''INFO'', info_cmd),
      (lit ''SAVE'', save_cmd),
      (lit ''BGSAVE'', bgsave_cmd),
      (lit ''BGREWRITEAOF'', bgrewriteaof_cmd),
      (lit ''LASTSAVE'', lastsave_cmd)]"

definition set_handlers :: "(str \<times> (arg list \<Rightarrow> reply cmd)) list" where
  "set_handlers =
     [(lit ''SADD'', sadd_cmd),
      (lit ''SREM'', srem_cmd),
      (lit ''SMEMBERS'', smembers_cmd),
      (lit ''SISMEMBER'', sismember_cmd),
      (lit ''SCARD'', scard_cmd),
      (lit ''SPOP'', spop_cmd),
      (lit ''SRANDMEMBER'', srandmember_cmd),
      (lit ''SINTER'', sinter_cmd),
      (lit ''SUNION'', sunion_cmd),
      (lit ''SDIFF'', sdiff_cmd)]"

definition string_handlers :: "(str \<times> (arg list \<Rightarrow> reply cmd)) list" where
  "string_handlers =
     [(lit ''GET'', get_cmd),
      (lit ''SET'', set_cmd),
      (lit ''SETNX'', setnx_cmd),
      (lit ''GETDEL'', getdel_cmd),
      (lit ''MGET'', mget_cmd),
      (lit ''MSET'', mset_cmd),
      (lit ''INCR'', incr_cmd),
      (lit ''DECR'', decr_cmd),
      (lit ''INCRBY'', incrby_cmd),
      (lit ''DECRBY'', decrby_cmd),
      (lit ''INCRBYFLOAT'', incrbyfloat_cmd),
      (lit ''APPEND'', append_cmd),
      (lit ''STRLEN'', strlen_cmd)]"

definition zset_handlers :: "(str \<times> (arg list \<Rightarrow> reply cmd)) list" where
  "zset_handlers =
     [(lit ''ZADD'', zadd_cmd),
      (lit ''ZINCRBY'', zincrby_cmd),
      (lit ''ZREM'', zrem_cmd),
      (lit ''ZSCORE'', zscore_cmd),
      (lit ''ZCARD'', zcard_cmd),
      (lit ''ZCOUNT'', zcount_cmd),
      (lit ''ZRANK'', zrank_cmd),
      (lit ''ZREVRANK'', zrevrank_cmd),
      (lit ''ZRANGE'', zrange_cmd),
      (lit ''ZREVRANGE'', zrevrange_cmd),
      (lit ''ZRANGEBYSCORE'', zrangebyscore_cmd),
      (lit ''ZREVRANGEBYSCORE'', zrevrangebyscore_cmd),
      (lit ''ZPOPMIN'', zpopmin_cmd),
      (lit ''ZPOPMAX'', zpopmax_cmd)]"

definition HANDLERS :: "(str \<times> (arg list \<Rightarrow> reply cmd)) list" where
  "HANDLERS =
     hash_handlers @ keyspace_handlers @ list_handlers @ server_handlers @ set_handlers @ string_handlers
       @ zset_handlers"

text \<open>\<open>spec.handler\<close>.\<close>

definition run_handler :: "command_spec \<Rightarrow> arg list \<Rightarrow> reply cmd" where
  "run_handler spec args =
     (case dict_get HANDLERS (cs_name spec) of
        None \<Rightarrow> throw (Uncaught ''KeyError'')
      | Some h \<Rightarrow> h args)"

end
