(* ===== verification/Engine.thy ===== *)
theory Engine
  imports Cmd_Server
begin

text \<open>
  \<open>engine/engine.py\<close>: running a command, replaying a record, applying what a primary sent, commits,
  and the periodic work.  The clock stands still while one of these operations runs.
\<close>

section \<open>Construction\<close>

definition engine_init :: "store \<Rightarrow> persistence option \<Rightarrow> (str list \<Rightarrow> str list) \<Rightarrow> facts \<Rightarrow> engine" where
  "engine_init s p ord fc =
     \<lparr>en_store = s, en_persist = p, en_replaying = False, en_incremental = False, en_slice_keys = 256,
      en_gc_held = False, en_gc_holds = 0, en_feed = None, en_target = ToCaller, en_delivered = [], en_sent = 0,
      en_commit_depth = 0, en_commands = 0, en_started_wall = clock_seconds (st_now s), en_set_order = ord,
      en_time_ns = 0, en_facts = fc\<rparr>"

section \<open>Commits\<close>

text \<open>\<open>try: m finally: h\<close>; an exception of \<open>h\<close> replaces that of \<open>m\<close>.\<close>

definition finally_do :: "'a cmd \<Rightarrow> unit cmd \<Rightarrow> 'a cmd" where
  "finally_do m h e =
     (case m e of (r, e1) \<Rightarrow> (case h e1 of (Inl x, e2) \<Rightarrow> (Inl x, e2) | (Inr _, e2) \<Rightarrow> (r, e2)))"

definition feed_flush :: "unit cmd" where
  "feed_flush = modify (\<lambda>e. e\<lparr>en_feed := map_option (\<lambda>f. f\<lparr>fd_calls := fd_calls f @ [Flushed]\<rparr>) (en_feed e)\<rparr>)"

definition persist_commit :: "unit cmd" where
  "persist_commit e =
     (case en_persist e of
        None \<Rightarrow> (Inr (), e)
      | Some p \<Rightarrow> (case ps_commit p of (r, p') \<Rightarrow> (r, e\<lparr>en_persist := Some p'\<rparr>)))"

definition engine_commit :: "unit cmd" where
  "engine_commit = finally_do persist_commit feed_flush"

definition hold_commit :: "unit cmd" where
  "hold_commit = modify (\<lambda>e. e\<lparr>en_commit_depth := en_commit_depth e + 1\<rparr>)"

text \<open>Commit unless one is deferred.\<close>

definition commit_now :: "unit cmd" where
  "commit_now = bnd (asks en_commit_depth) (\<lambda>d. if d = 0 then engine_commit else ret ())"

definition release_commit :: "unit cmd" where
  "release_commit = bnd (modify (\<lambda>e. e\<lparr>en_commit_depth := en_commit_depth e - 1\<rparr>)) (\<lambda>_. commit_now)"

definition deferred_commit :: "'a cmd \<Rightarrow> 'a cmd" where
  "deferred_commit m = bnd hold_commit (\<lambda>_. finally_do m release_commit)"

section \<open>Commands\<close>

definition refresh_keys :: "str list \<Rightarrow> unit cmd" where
  "refresh_keys keys = store_do (fold store_refresh keys)"

definition engine_run :: "command_spec \<Rightarrow> arg list \<Rightarrow> str list \<Rightarrow> reply cmd" where
  "engine_run spec args keys =
     (if \<not> is_write spec then run_handler spec args
      else finally_do (run_handler spec args) (refresh_keys keys))"

definition unknown_command :: "str \<Rightarrow> exn" where
  "unknown_command name =
     Raised (mk_error UnknownCommandError (lit ''unknown command '' @ [39] @ name @ [39]) None)"

definition find_command :: "str \<Rightarrow> arg list \<Rightarrow> exn + command_spec" where
  "find_command name args =
     (case dict_get COMMANDS (py_upper name) of
        None \<Rightarrow> Inl (unknown_command name)
      | Some spec \<Rightarrow> (case check_arity spec args of Inl x \<Rightarrow> Inl x | Inr _ \<Rightarrow> Inr spec))"

definition check_persistence :: "command_spec \<Rightarrow> unit cmd" where
  "check_persistence spec =
     bnd (asks en_persist) (\<lambda>po. lift (case po of
       Some p \<Rightarrow>
         if \<not> is_write spec then Inr ()
         else if \<not> is_open p then Inl (Raised (err PersistenceError ''engine is not open; call open() before writing''))
         else map_sum Raised id (check_writable p)
     | None \<Rightarrow> Inr ()))"

text \<open>Copy-on-write for the snapshot being taken.\<close>

definition barriers :: "str list \<Rightarrow> unit cmd" where
  "barriers keys =
     bnd (asks (\<lambda>e. st_job (en_store e) = None)) (\<lambda>idle.
     if idle then ret () else store_do (fold snapshot_barrier keys))"

definition check_memory :: "command_spec \<Rightarrow> str list \<Rightarrow> unit cmd" where
  "check_memory spec keys =
     bnd (asks (\<lambda>e. pol_evicts (st_policy (en_store e)))) (\<lambda>evicts.
     if DENYOOM \<notin> set (cs_flags spec) \<or> evicts then ret ()
     else
       bnd (asks en_set_order) (\<lambda>ord.
       bnd (filter_cmd (\<lambda>k. bnd (exists_key k) (\<lambda>b. ret (\<not> b))) (ord (remdups keys))) (\<lambda>fresh.
       bnd (asks (\<lambda>e. over_limit (int (length fresh)) (en_store e))) (\<lambda>over.
       if over then throw (Raised (err OutOfMemoryError [])) else ret ()))))"

text \<open>A command never evicts its own keys.\<close>

definition evict_and_log :: "str set \<Rightarrow> unit cmd" where
  "evict_and_log protect =
     bnd (on_store (evict_if_needed protect)) (\<lambda>victims.
     bnd (map_cmd (\<lambda>v. propagate ''DEL'' [SArg v]) victims) (\<lambda>_. ret ()))"

definition execute :: "str \<Rightarrow> arg list \<Rightarrow> reply cmd" where
  "execute command args =
     bnd (lift (find_command command args)) (\<lambda>spec.
     let keys = command_keys spec args in
     bnd (check_persistence spec) (\<lambda>_.
     bnd (if is_write spec then barriers keys else ret ()) (\<lambda>_.
     bnd (check_memory spec keys) (\<lambda>_.
     bnd (engine_run spec args keys) (\<lambda>result.
     bnd (if is_write spec then evict_and_log (set keys) else ret ()) (\<lambda>_.
     bnd (modify (\<lambda>e. e\<lparr>en_commands := en_commands e + 1\<rparr>)) (\<lambda>_.
     bnd commit_now (\<lambda>_. ret result))))))))"

text \<open>\<open>_apply\<close>: one record of the log.\<close>

definition engine_apply :: "engine apply_fn" where
  "engine_apply command args =
     bnd (lift (find_command command args)) (\<lambda>spec.
     bnd (engine_run spec args (command_keys spec args)) (\<lambda>_. ret ()))"

section \<open>Replicas\<close>

definition with_expiry :: "bool \<Rightarrow> engine \<Rightarrow> engine" where
  "with_expiry b e = e\<lparr>en_store := (en_store e)\<lparr>st_expiry_enabled := b\<rparr>\<rparr>"

definition without_expiry :: "'a cmd \<Rightarrow> 'a cmd" where
  "without_expiry m =
     bnd (asks (\<lambda>e. st_expiry_enabled (en_store e))) (\<lambda>expiry.
     bnd (modify (with_expiry False)) (\<lambda>_. finally_do m (modify (with_expiry expiry))))"

definition apply_replicated :: "str \<Rightarrow> arg list \<Rightarrow> unit cmd" where
  "apply_replicated command args =
     bnd (lift (find_command command args)) (\<lambda>spec.
     let keys = command_keys spec args in
     bnd (barriers keys) (\<lambda>_.
     bnd (without_expiry (engine_run spec args keys)) (\<lambda>_. commit_now)))"

text \<open>
  The records come from an iterator, which may fail after some of them (a snapshot is decoded while it
  is loaded).
\<close>

definition load_snapshot :: "snapshot_record list \<times> exn option \<Rightarrow> int cmd" where
  "load_snapshot records =
     bnd (store_do store_clear) (\<lambda>_.
     bnd (without_expiry (
       bnd (map_cmd (\<lambda>r. store_do (load_record r)) (fst records)) (\<lambda>_.
       case snd records of None \<Rightarrow> ret () | Some x \<Rightarrow> throw x))) (\<lambda>_.
     bnd (asks log_open) (\<lambda>b.
     bnd (if b then engine_save else ret ()) (\<lambda>_. ret (int (length (fst records)))))))"

section \<open>Lifecycle\<close>

definition loading_mode :: "bool \<Rightarrow> engine \<Rightarrow> engine" where
  "loading_mode b e =
     e\<lparr>en_replaying := b,
       en_store := (en_store e)\<lparr>st_eviction_enabled := \<not> b, st_expiry_enabled := \<not> b\<rparr>\<rparr>"

definition load_into :: "snapshot_record \<Rightarrow> engine \<Rightarrow> engine" where
  "load_into rec e = e\<lparr>en_store := load_record rec (en_store e)\<rparr>"

text \<open>
  The persistence layer is threaded beside the engine while it loads; a record of a log changes the
  keyspace only.
\<close>

definition load_files :: "json_decoders \<Rightarrow> unit cmd" where
  "load_files js e =
     (case en_persist e of
        None \<Rightarrow> (Inr (), e)
      | Some p \<Rightarrow> (case ps_load js load_into engine_apply p e of (r, p', e') \<Rightarrow> (r, e'\<lparr>en_persist := Some p'\<rparr>)))"

definition engine_open :: "json_decoders \<Rightarrow> unit cmd" where
  "engine_open js =
     bnd (asks (\<lambda>e. en_persist e = None \<or> log_open e)) (\<lambda>nothing.
     if nothing then ret ()
     else
       bnd (modify (loading_mode True)) (\<lambda>_.
       bnd (finally_do (load_files js) (modify (loading_mode False))) (\<lambda>_.
       bnd (on_store purge_expired) (\<lambda>_.
       bnd (evict_and_log {}) (\<lambda>_. engine_commit)))))"

definition engine_close :: "unit cmd" where
  "engine_close =
     bnd (on_store abandon_snapshot) (\<lambda>abandoned.
     bnd (if abandoned
          then modify (\<lambda>e. (gc_release e)\<lparr>en_persist := map_option abandon_copy (en_persist e)\<rparr>) else ret ()) (\<lambda>_.
     bnd (asks (\<lambda>e. st_now (en_store e))) (\<lambda>now.
     bnd (asks (\<lambda>e. en_persist e = None)) (\<lambda>none.
     bnd (if none then ret () else on_persist (ps_close now)) (\<lambda>_. modify release_gc)))))"

section \<open>Periodic work\<close>

definition engine_cron :: "nat \<Rightarrow> int cmd" where
  "engine_cron sample =
     bnd (on_store (expire_cycle sample)) (\<lambda>expired.
     bnd (if expired \<noteq> 0 then commit_now else ret ()) (\<lambda>_.
     bnd (asks log_open) (\<lambda>opened.
     bnd (if \<not> opened then ret ()
          else
            bnd (asks (\<lambda>e. st_now (en_store e))) (\<lambda>now.
            bnd (on_persist (\<lambda>p. case poll now p of (_, p') \<Rightarrow> (Inr (), p'))) (\<lambda>_.
            bnd (modify release_gc) (\<lambda>_.
            bnd (on_persist (\<lambda>p. (Inr (should_auto_rewrite p), p))) (\<lambda>auto.
            if auto then engine_start_rewrite else ret ()))))) (\<lambda>_.
     ret expired))))"

section \<open>The surroundings\<close>

text \<open>Time passes; the owner makes the node a primary or a replica; the thread of the log's writer runs.\<close>

definition set_now :: "pyfloat \<Rightarrow> engine \<Rightarrow> engine" where
  "set_now t e = e\<lparr>en_store := (en_store e)\<lparr>st_now := t\<rparr>\<rparr>"

text \<open>
  What a change of role does to the engine: a primary feeds its replicas and expires keys itself; a
  replica does neither, the primary's effects reach it in the stream.
\<close>

definition set_role :: "feed option \<Rightarrow> engine \<Rightarrow> engine" where
  "set_role primary e =
     e\<lparr>en_feed := map_option (\<lambda>f. f\<lparr>fd_active := True\<rparr>) primary,
       en_store := (en_store e)\<lparr>st_expiry_deletes := primary \<noteq> None\<rparr>\<rparr>"

definition on_writer :: "(aof_writer \<Rightarrow> disk \<Rightarrow> aof_writer \<times> disk) \<Rightarrow> persistence \<Rightarrow> persistence" where
  "on_writer f p =
     (case ps_writer p of
        None \<Rightarrow> p
      | Some w \<Rightarrow> (case f w (ps_disk p) of (w', d) \<Rightarrow> p\<lparr>ps_writer := Some w', ps_disk := d\<rparr>))"

end
