(* ===== verification/Store_Inv.thy ===== *)
theory Store_Inv
  imports Store
begin

text \<open>
  The invariants the docstring of \<open>Store\<close> promises, and that every method keeps them.
  \<open>store_wf\<close> holds at every moment, also between a handler's in-place mutation and the engine's
  \<open>refresh\<close>: the policy tracks exactly the keys, \<open>_volatile\<close> holds exactly the keys with a TTL,
  \<open>used_memory\<close> is the sum of the entry sizes, every value is well formed.  \<open>settled K\<close> adds what
  holds of the keys outside \<open>K\<close>: the size is the size of the value, and no collection is empty.
\<close>

section \<open>Definitions\<close>

fun value_ok :: "kvalue \<Rightarrow> bool" where
  "value_ok (VStr _) = True"
| "value_ok (VList v) = list_ok v"
| "value_ok (VHash v) = hash_ok v"
| "value_ok (VSet v) = set_ok v"
| "value_ok (VZset v) = zset_inv v"

abbreviation get_entry :: "store \<Rightarrow> str \<Rightarrow> entry option" where
  "get_entry s k \<equiv> dict_get (st_data s) k"

abbreviation keys_of :: "store \<Rightarrow> str set" where
  "keys_of s \<equiv> fst ` set (st_data s)"

definition store_wf :: "store \<Rightarrow> bool" where
  "store_wf s \<longleftrightarrow> dict_ok (st_data s) \<and> ks_inv (st_volatile s) \<and>
     (\<forall>k. ks_contains (st_volatile s) k \<longleftrightarrow> (\<exists>e. get_entry s k = Some e \<and> e_expires e \<noteq> None)) \<and>
     pol_tracks (st_policy s) (keys_of s) \<and>
     st_used_memory s = sum_list (map (\<lambda>p. e_size (snd p)) (st_data s)) \<and>
     (\<forall>k e. get_entry s k = Some e \<longrightarrow> value_ok (e_value e) \<and> e_copied e \<le> st_epoch s) \<and>
     (\<forall>j. st_job s = Some j \<longrightarrow> job_epoch j = st_epoch s)"

definition settled :: "str set \<Rightarrow> store \<Rightarrow> bool" where
  "settled K s \<longleftrightarrow> (\<forall>k e. k \<notin> K \<longrightarrow> get_entry s k = Some e \<longrightarrow>
     e_size e = entry_size k (e_value e) \<and> \<not> value_empty (e_value e))"

text \<open>
  A write meets an expired entry either deleted (a primary) or still there (expiry switched off,
  as while loading or applying the replication stream).
\<close>

definition mode_ok :: "store \<Rightarrow> bool" where
  "mode_ok s \<longleftrightarrow> st_expiry_deletes s \<or> \<not> st_expiry_enabled s"

definition visible :: "store \<Rightarrow> str \<Rightarrow> entry option" where
  "visible s k = (case get_entry s k of
     None \<Rightarrow> None
   | Some e \<Rightarrow> if st_expiry_enabled s \<and> is_expired e (st_now s) then None else Some e)"

section \<open>Replacing, adding and removing an entry\<close>

lemma keys_get: "k \<in> keys_of s \<longleftrightarrow> get_entry s k \<noteq> None"
  by (rule dict_keys_iff)

lemma wf_replace:
  assumes wf: "store_wf s" and e: "get_entry s k = Some e"
    and data: "st_data s' = dict_set k e' (st_data s)"
    and ok: "value_ok (e_value e')" "e_copied e' \<le> st_epoch s"
    and used: "st_used_memory s' = st_used_memory s - e_size e + e_size e'"
    and vol: "ks_inv (st_volatile s')"
      "\<And>x. ks_contains (st_volatile s') x \<longleftrightarrow> (if x = k then e_expires e' \<noteq> None else ks_contains (st_volatile s) x)"
    and pol: "pol_tracks (st_policy s') (keys_of s)"
    and epoch: "st_epoch s' = st_epoch s" "\<And>j. st_job s' = Some j \<Longrightarrow> job_epoch j = st_epoch s"
  shows "store_wf s'"
proof -
  have keys: "keys_of s' = keys_of s" using e by (auto simp: data keys_dict_set dict_keys_iff insert_absorb)
  have "sum_list (map (\<lambda>p. e_size (snd p)) (st_data s')) =
      sum_list (map (\<lambda>p. e_size (snd p)) (st_data s)) - e_size e + e_size e'"
    using wf e by (simp add: data store_wf_def sum_dict_set_old)
  then have "st_used_memory s' = sum_list (map (\<lambda>p. e_size (snd p)) (st_data s'))"
    using wf used by (simp add: store_wf_def)
  moreover have "ks_contains (st_volatile s') x \<longleftrightarrow> (\<exists>e. get_entry s' x = Some e \<and> e_expires e \<noteq> None)" for x
    using wf vol(2) [of x] by (simp add: store_wf_def data)
  ultimately show ?thesis
    using wf ok vol(1) pol epoch keys by (auto simp: store_wf_def data)
qed

lemma wf_add:
  assumes wf: "store_wf s" and k: "get_entry s k = None" and v: "value_ok v"
  shows "store_wf (store_insert k v s)"
proof -
  let ?s = "store_insert k v s"
  have nk: "k \<notin> keys_of s" using k by (simp add: dict_keys_iff)
  have "pol_tracks (st_policy ?s) (keys_of ?s)"
    using wf pol.track_insert [OF _ nk] by (simp add: store_wf_def store_insert_def Let_def keys_dict_set)
  moreover have "ks_contains (st_volatile s) k = False" using wf k by (simp add: store_wf_def)
  ultimately show ?thesis
    using wf k v by (auto simp: store_wf_def store_insert_def Let_def sum_dict_set_new new_entry_def)
qed

lemma wf_drop:
  assumes wf: "store_wf s" and e: "get_entry s k = Some e"
  shows "store_wf (s\<lparr>st_data := dict_pop k (st_data s), st_used_memory := st_used_memory s - e_size e,
    st_volatile := ks_discard k (st_volatile s), st_policy := pol_on_remove k (st_policy s)\<rparr>)"
proof -
  have "k \<in> keys_of s" using e by (simp add: dict_keys_iff)
  then have "pol_tracks (pol_on_remove k (st_policy s)) (fst ` set (dict_pop k (st_data s)))"
    using wf pol.track_remove by (simp add: store_wf_def keys_dict_pop)
  then show ?thesis
    using wf e by (auto simp: store_wf_def sum_dict_pop ks.inv_discard ks.contains_discard)
qed

section \<open>Frames\<close>

lemma barrier_frame [simp]:
  "st_now (snapshot_barrier k s) = st_now s" "st_expiry_enabled (snapshot_barrier k s) = st_expiry_enabled s"
  "st_expiry_deletes (snapshot_barrier k s) = st_expiry_deletes s"
  "st_eviction_enabled (snapshot_barrier k s) = st_eviction_enabled s"
  "st_policy (snapshot_barrier k s) = st_policy s" "st_volatile (snapshot_barrier k s) = st_volatile s"
  "st_used_memory (snapshot_barrier k s) = st_used_memory s" "st_epoch (snapshot_barrier k s) = st_epoch s"
  "st_out (snapshot_barrier k s) = st_out s" "st_rng (snapshot_barrier k s) = st_rng s"
  "st_sl_rng (snapshot_barrier k s) = st_sl_rng s" "st_max_keys (snapshot_barrier k s) = st_max_keys s"
  "st_maxmemory (snapshot_barrier k s) = st_maxmemory s" "st_finished (snapshot_barrier k s) = st_finished s"
  by (simp_all add: snapshot_barrier_def job_take_def split: option.split)

lemma remove_frame [simp]:
  "st_now (store_remove k s) = st_now s" "st_expiry_enabled (store_remove k s) = st_expiry_enabled s"
  "st_expiry_deletes (store_remove k s) = st_expiry_deletes s"
  "st_eviction_enabled (store_remove k s) = st_eviction_enabled s" "st_epoch (store_remove k s) = st_epoch s"
  "st_out (store_remove k s) = st_out s" "st_rng (store_remove k s) = st_rng s"
  "st_sl_rng (store_remove k s) = st_sl_rng s" "st_max_keys (store_remove k s) = st_max_keys s"
  "st_maxmemory (store_remove k s) = st_maxmemory s" "st_finished (store_remove k s) = st_finished s"
  "pol_evicts (st_policy (store_remove k s)) = pol_evicts (st_policy s)"
  by (simp_all add: store_remove_def Let_def pol.evicts_const split: option.split)

lemma get_barrier:
  "get_entry (snapshot_barrier k s) x =
    (if x = k then map_option (\<lambda>e. case st_job s of None \<Rightarrow> e | Some j \<Rightarrow>
       if e_copied e \<noteq> job_epoch j then e\<lparr>e_copied := job_epoch j\<rparr> else e) (get_entry s k)
     else get_entry s x)"
  by (auto simp: snapshot_barrier_def job_take_def option.map_ident split: option.split)

lemma get_remove: "get_entry (store_remove k s) x = (if x = k then None else get_entry s x)"
  by (auto simp: store_remove_def Let_def get_barrier split: option.split)

lemma wf_barrier [inv_intro]:
  assumes wf: "store_wf s"
  shows "store_wf (snapshot_barrier k s)"
proof (cases "st_job s")
  case None
  with wf show ?thesis by (simp add: snapshot_barrier_def)
next
  case (Some j)
  show ?thesis
  proof (cases "get_entry s k")
    case None
    with Some wf show ?thesis by (simp add: snapshot_barrier_def)
  next
    case e: (Some e)
    have epoch: "job_epoch j = st_epoch s" using wf Some by (simp add: store_wf_def)
    show ?thesis
    proof (cases "e_copied e = job_epoch j")
      case False
      then have s': "snapshot_barrier k s = job_take k e j s" using Some e by (simp add: snapshot_barrier_def)
      show ?thesis unfolding s'
        by (rule wf_replace [OF wf e, where e' = "e\<lparr>e_copied := job_epoch j\<rparr>"])
          (use wf e epoch Some in \<open>auto simp: job_take_def store_wf_def split: if_splits\<close>)
    qed (use Some e wf in \<open>simp add: snapshot_barrier_def\<close>)
  qed
qed

lemma wf_remove [inv_intro]:
  assumes "store_wf s"
  shows "store_wf (store_remove k s)"
  using wf_drop [OF wf_barrier [OF assms], of k k] wf_barrier [OF assms, of k]
  by (auto simp: store_remove_def Let_def split: option.split)

lemma wf_expire [inv_intro]: "store_wf s \<Longrightarrow> store_wf (store_expire k s)"
  using wf_remove [of s k] by (simp add: store_expire_def Let_def store_wf_def)

lemma wf_access [inv_intro]: "store_wf s \<Longrightarrow> store_wf (store_access k s)"
  using pol.track_access [of "st_policy s" "keys_of s" "st_now s" k "st_rng s"]
  by (auto simp: store_access_def store_wf_def split: prod.split)

lemma expire_frame [simp]:
  "st_now (store_expire k s) = st_now s" "st_expiry_enabled (store_expire k s) = st_expiry_enabled s"
  "st_expiry_deletes (store_expire k s) = st_expiry_deletes s"
  "st_eviction_enabled (store_expire k s) = st_eviction_enabled s" "st_epoch (store_expire k s) = st_epoch s"
  "st_rng (store_expire k s) = st_rng s" "st_sl_rng (store_expire k s) = st_sl_rng s"
  "st_max_keys (store_expire k s) = st_max_keys s" "st_maxmemory (store_expire k s) = st_maxmemory s"
  "st_finished (store_expire k s) = st_finished s"
  "pol_evicts (st_policy (store_expire k s)) = pol_evicts (st_policy s)"
  "st_data (store_expire k s) = st_data (store_remove k s)"
  by (simp_all add: store_expire_def Let_def)

lemma access_frame [simp]:
  "st_now (store_access k s) = st_now s" "st_expiry_enabled (store_access k s) = st_expiry_enabled s"
  "st_expiry_deletes (store_access k s) = st_expiry_deletes s" "st_data (store_access k s) = st_data s"
  "st_volatile (store_access k s) = st_volatile s" "st_used_memory (store_access k s) = st_used_memory s"
  "st_job (store_access k s) = st_job s" "st_epoch (store_access k s) = st_epoch s"
  "st_out (store_access k s) = st_out s" "st_sl_rng (store_access k s) = st_sl_rng s"
  "st_eviction_enabled (store_access k s) = st_eviction_enabled s"
  "st_max_keys (store_access k s) = st_max_keys s" "st_maxmemory (store_access k s) = st_maxmemory s"
  "st_finished (store_access k s) = st_finished s"
  "pol_evicts (st_policy (store_access k s)) = pol_evicts (st_policy s)"
  using pol.evicts_const(2) [of "st_now s" k "st_rng s" "st_policy s"]
  by (simp_all add: store_access_def split_beta)

section \<open>Reads\<close>

lemma lookup_visible: "fst (store_lookup k s) = visible s k"
  by (simp add: store_lookup_def visible_def split: option.split)

lemma wf_lookup [inv_intro]: "store_wf s \<Longrightarrow> store_wf (snd (store_lookup k s))"
  by (simp add: store_lookup_def wf_expire split: option.split)

lemma lookup_frame [simp]:
  "st_now (snd (store_lookup k s)) = st_now s" "st_expiry_enabled (snd (store_lookup k s)) = st_expiry_enabled s"
  "st_expiry_deletes (snd (store_lookup k s)) = st_expiry_deletes s"
  "st_eviction_enabled (snd (store_lookup k s)) = st_eviction_enabled s"
  "st_epoch (snd (store_lookup k s)) = st_epoch s" "st_rng (snd (store_lookup k s)) = st_rng s"
  "st_sl_rng (snd (store_lookup k s)) = st_sl_rng s" "st_max_keys (snd (store_lookup k s)) = st_max_keys s"
  "st_maxmemory (snd (store_lookup k s)) = st_maxmemory s" "st_finished (snd (store_lookup k s)) = st_finished s"
  "pol_evicts (st_policy (snd (store_lookup k s))) = pol_evicts (st_policy s)"
  by (simp_all add: store_lookup_def split: option.split)

lemma lookup_Some: "visible s k = Some e \<Longrightarrow> store_lookup k s = (Some e, s) \<and> get_entry s k = Some e"
  by (auto simp: store_lookup_def visible_def split: option.splits if_splits)

lemma lookup_None:
  "visible s k = None \<Longrightarrow> store_lookup k s = (None, snd (store_lookup k s))"
  by (auto simp: lookup_visible prod_eq_iff)

lemma get_lookup_other: "x \<noteq> k \<Longrightarrow> get_entry (snd (store_lookup k s)) x = get_entry s x"
  by (simp add: store_lookup_def get_remove split: option.split)

lemma get_lookup_None: "mode_ok s \<Longrightarrow> visible s k = None \<Longrightarrow> get_entry (snd (store_lookup k s)) k = None"
  by (auto simp: store_lookup_def visible_def mode_ok_def get_remove split: option.splits if_splits)

lemma lookup_cases:
  obtains (found) e where "store_lookup k s = (Some e, s)" "visible s k = Some e" "get_entry s k = Some e"
  | (missing) s1 where "store_lookup k s = (None, s1)" "visible s k = None" "mode_ok s \<longrightarrow> get_entry s1 k = None"
proof (cases "visible s k")
  case None
  then show thesis using missing [OF lookup_None] get_lookup_None by blast
next
  case (Some e)
  then show thesis using found lookup_Some by blast
qed

lemma visible_get: "visible s k = Some e \<Longrightarrow> get_entry s k = Some e"
  by (auto simp: visible_def split: option.splits if_splits)

lemma wf_value: "store_wf s \<Longrightarrow> get_entry s k = Some e \<Longrightarrow> value_ok (e_value e)"
  by (simp add: store_wf_def)

lemma wf_stats [simp]:
  "store_wf (s\<lparr>st_hits := h\<rparr>) = store_wf s" "store_wf (s\<lparr>st_misses := h\<rparr>) = store_wf s"
  "store_wf (s\<lparr>st_rng := r\<rparr>) = store_wf s" "store_wf (s\<lparr>st_sl_rng := r\<rparr>) = store_wf s"
  "store_wf (s\<lparr>st_evicted_keys := h\<rparr>) = store_wf s" "store_wf (s\<lparr>st_expired_keys := h\<rparr>) = store_wf s"
  "store_wf (s\<lparr>st_out := o'\<rparr>) = store_wf s" "store_wf (s\<lparr>st_now := t\<rparr>) = store_wf s"
  "store_wf (s\<lparr>st_expiry_enabled := b\<rparr>) = store_wf s" "store_wf (s\<lparr>st_eviction_enabled := b\<rparr>) = store_wf s"
  "store_wf (s\<lparr>st_expiry_deletes := b\<rparr>) = store_wf s" "store_wf (s\<lparr>st_finished := f\<rparr>) = store_wf s"
  by (simp_all add: store_wf_def)

lemma settled_stats [simp]:
  "settled K (s\<lparr>st_hits := h\<rparr>) = settled K s" "settled K (s\<lparr>st_misses := h\<rparr>) = settled K s"
  "settled K (s\<lparr>st_rng := r\<rparr>) = settled K s" "settled K (s\<lparr>st_sl_rng := r\<rparr>) = settled K s"
  "settled K (s\<lparr>st_evicted_keys := h\<rparr>) = settled K s" "settled K (s\<lparr>st_expired_keys := h\<rparr>) = settled K s"
  "settled K (s\<lparr>st_out := o'\<rparr>) = settled K s" "settled K (s\<lparr>st_now := t\<rparr>) = settled K s"
  "settled K (s\<lparr>st_expiry_enabled := b\<rparr>) = settled K s" "settled K (s\<lparr>st_eviction_enabled := b\<rparr>) = settled K s"
  "settled K (s\<lparr>st_job := jo\<rparr>) = settled K s" "settled K (s\<lparr>st_finished := f\<rparr>) = settled K s"
  "settled K (store_access k s) = settled K s" "settled K (s\<lparr>st_epoch := n\<rparr>) = settled K s"
  by (simp_all add: settled_def)

lemma wf_get [inv_intro]: "store_wf s \<Longrightarrow> store_wf (snd (store_get k s))"
  using wf_lookup [of s k] by (auto simp: store_get_def wf_access split: prod.split option.split)

lemma wf_read [inv_intro]: "store_wf s \<Longrightarrow> store_wf (snd (store_read kind k s))"
  using wf_get [of s k] by (auto simp: store_read_def split: prod.split option.split)

lemma get_barrier_Some:
  "get_entry (snapshot_barrier k s) x = Some e' \<Longrightarrow>
   \<exists>e. get_entry s x = Some e \<and> e_value e' = e_value e \<and> e_size e' = e_size e \<and> e_expires e' = e_expires e"
  by (auto simp: get_barrier split: option.splits if_splits)

lemma settled_barrier: "settled K s \<Longrightarrow> settled K (snapshot_barrier k s)"
  unfolding settled_def by (metis get_barrier_Some)

lemma settled_remove: "settled K s \<Longrightarrow> settled (K - {k}) (store_remove k s)"
  by (auto simp: settled_def get_remove)

lemma settled_mono: "settled K s \<Longrightarrow> K \<subseteq> K' \<Longrightarrow> settled K' s"
  by (auto simp: settled_def)

lemma settled_expire: "settled K s \<Longrightarrow> settled K (store_expire k s)"
  by (auto simp: settled_def get_remove split: if_splits)

lemma settled_lookup: "settled K s \<Longrightarrow> settled K (snd (store_lookup k s))"
  by (simp add: store_lookup_def settled_expire split: option.split)

lemma settled_get: "settled K s \<Longrightarrow> settled K (snd (store_get k s))"
  using settled_lookup [of K s k] by (auto simp: store_get_def split: prod.split option.split)

lemma settled_read: "settled K s \<Longrightarrow> settled K (snd (store_read kind k s))"
  using settled_get [of K s k] by (auto simp: store_read_def split: prod.split option.split)

section \<open>Writes\<close>

lemma settled_insert: "settled K s \<Longrightarrow> settled (if value_empty v then insert k K else K) (store_insert k v s)"
  by (auto simp: settled_def store_insert_def Let_def new_entry_def split: if_splits)

lemma settled_insert_key: "settled K s \<Longrightarrow> settled (insert k K) (store_insert k v s)"
  by (auto simp: settled_def store_insert_def Let_def)

lemma wf_write_target [inv_intro]:
  assumes "store_wf s" "mode_ok s" "value_ok (mk fresh)"
  shows "store_wf (snd (store_write_target kind mk fresh k s))"
  using wf_lookup [OF assms(1), of k] assms
  by (cases rule: lookup_cases [of k s]) (auto simp: store_write_target_def wf_access wf_add split: option.split)

lemma settled_write_target:
  "settled K s \<Longrightarrow> settled (insert k K) (snd (store_write_target kind mk fresh k s))"
  using settled_lookup [of K s k] settled_mono [of K s "insert k K", OF _ subset_insertI]
  by (cases rule: lookup_cases [of k s]) (auto simp: store_write_target_def settled_insert_key split: option.split)

lemma wf_put_value [inv_intro]:
  assumes wf: "store_wf s" and v: "value_ok v"
  shows "store_wf (put_value k v s)"
proof (cases "get_entry s k")
  case (Some e)
  show ?thesis
    by (rule wf_replace [OF wf Some, where e' = "e\<lparr>e_value := v\<rparr>"])
      (use wf Some v in \<open>auto simp: put_value_def store_wf_def\<close>)
qed (use wf in \<open>simp add: put_value_def\<close>)

lemma settled_put_value: "settled K s \<Longrightarrow> settled (insert k K) (put_value k v s)"
  by (auto simp: settled_def put_value_def split: option.splits)

lemma wf_set [inv_intro]:
  assumes wf: "store_wf s" and v: "value_ok v" and mode: "keep_ttl \<longrightarrow> mode_ok s"
  shows "store_wf (store_set k v keep_ttl s)"
proof -
  define s1 where "s1 = (if keep_ttl then snd (store_lookup k s) else s)"
  define old where "old = (if keep_ttl then visible s k else get_entry s k)"
  have eq: "(if keep_ttl then store_lookup k s else (get_entry s k, s)) = (old, s1)"
    by (cases keep_ttl) (simp_all add: old_def s1_def prod_eq_iff lookup_visible)
  have wf1: "store_wf s1" using wf wf_lookup by (simp add: s1_def)
  show ?thesis
  proof (cases old)
    case None
    then have "get_entry s1 k = None"
      using mode get_lookup_None by (auto simp: old_def s1_def split: if_splits)
    then show ?thesis using None wf_add [OF wf1 _ v] by (simp only: store_set_def eq prod.case option.case)
  next
    case (Some e)
    then have s1: "s1 = s" and e: "get_entry s k = Some e"
      using lookup_Some [of s k e] by (auto simp: old_def s1_def split: if_splits)
    show ?thesis
      unfolding store_set_def eq Some prod.case option.case Let_def s1
      by (rule wf_access, rule wf_replace [OF wf e, where e' =
            "(new_entry v (if keep_ttl then e_expires e else None))\<lparr>e_copied := st_epoch s, e_size := entry_size k v\<rparr>"])
        (use wf e v in \<open>auto simp: store_wf_def new_entry_def ks.inv_discard ks.contains_discard\<close>)
  qed
qed

lemma store_set_data:
  "st_data (store_set k v keep_ttl s) =
    dict_set k \<lparr>e_value = v,
        e_expires = (if keep_ttl then (case visible s k of None \<Rightarrow> None | Some e \<Rightarrow> e_expires e) else None),
        e_size = entry_size k v, e_copied = st_epoch s\<rparr>
      (st_data (if keep_ttl then snd (store_lookup k s) else s))"
proof (cases keep_ttl)
  case True
  then show ?thesis
    by (cases rule: lookup_cases [of k s])
      (simp_all add: store_set_def store_insert_def Let_def new_entry_def, metis lookup_frame(5) snd_conv)
next
  case False
  then show ?thesis
    by (cases "get_entry s k") (simp_all add: store_set_def store_insert_def Let_def new_entry_def)
qed

lemma settled_set:
  assumes "settled K s" "\<not> value_empty v"
  shows "settled (K - {k}) (store_set k v keep_ttl s)"
  using assms settled_lookup [OF assms(1), of k] by (auto simp: settled_def store_set_data)

lemma wf_delete [inv_intro]: "store_wf s \<Longrightarrow> store_wf (snd (store_delete k s))"
  using wf_lookup [of s k] by (auto simp: store_delete_def wf_remove split: prod.split option.split)

lemma settled_delete: "settled K s \<Longrightarrow> settled K (snd (store_delete k s))"
  using settled_lookup [of K s k] settled_mono [OF settled_remove [of K _ k], of _ K]
  by (auto simp: store_delete_def split: prod.split option.split)

lemma wf_set_expiry [inv_intro]:
  assumes wf: "store_wf s"
  shows "store_wf (snd (store_set_expiry k t s))"
proof (cases rule: lookup_cases [of k s])
  case (found e)
  show ?thesis
    by (rule wf_replace [OF wf found(3), where e' = "e\<lparr>e_expires := Some t\<rparr>"])
      (use wf found in \<open>auto simp: store_set_expiry_def store_wf_def ks.inv_add ks.contains_add\<close>)
next
  case (missing s1)
  then show ?thesis using wf_lookup [OF wf, of k] by (simp add: store_set_expiry_def)
qed

lemma wf_persist [inv_intro]:
  assumes wf: "store_wf s"
  shows "store_wf (snd (store_persist k s))"
proof (cases rule: lookup_cases [of k s])
  case (found e)
  show ?thesis
  proof (cases "e_expires e = None")
    case False
    show ?thesis
      by (rule wf_replace [OF wf found(3), where e' = "e\<lparr>e_expires := None\<rparr>"])
        (use wf found False in \<open>auto simp: store_persist_def store_wf_def ks.inv_discard ks.contains_discard\<close>)
  qed (use found wf in \<open>simp add: store_persist_def\<close>)
next
  case (missing s1)
  then show ?thesis using wf_lookup [OF wf, of k] by (simp add: store_persist_def)
qed

lemma settled_replace:
  "settled K s \<Longrightarrow> get_entry s k = Some e \<Longrightarrow> e_size e' = e_size e \<Longrightarrow> e_value e' = e_value e \<Longrightarrow>
   st_data s' = dict_set k e' (st_data s) \<Longrightarrow> settled K s'"
  unfolding settled_def by simp

lemma settled_set_expiry:
  assumes st: "settled K s"
  shows "settled K (snd (store_set_expiry k t s))"
proof (cases rule: lookup_cases [of k s])
  case (found e)
  then show ?thesis
    by (intro settled_replace [OF st found(3), where e' = "e\<lparr>e_expires := Some t\<rparr>"]) (simp_all add: store_set_expiry_def)
next
  case (missing s1)
  then show ?thesis using settled_lookup [OF st, of k] by (simp add: store_set_expiry_def)
qed

lemma settled_persist:
  assumes st: "settled K s"
  shows "settled K (snd (store_persist k s))"
proof (cases rule: lookup_cases [of k s])
  case (found e)
  show ?thesis
  proof (cases "e_expires e = None")
    case False
    with found show ?thesis
      by (intro settled_replace [OF st found(3), where e' = "e\<lparr>e_expires := None\<rparr>"]) (auto simp: store_persist_def)
  qed (use found st in \<open>simp add: store_persist_def\<close>)
next
  case (missing s1)
  then show ?thesis using settled_lookup [OF st, of k] by (simp add: store_persist_def)
qed

lemma wf_refresh [inv_intro]:
  assumes wf: "store_wf s"
  shows "store_wf (store_refresh k s)"
proof (cases "get_entry s k")
  case (Some e)
  show ?thesis
  proof (cases "value_empty (e_value e)")
    case False
    show ?thesis
      by (rule wf_replace [OF wf Some, where e' = "e\<lparr>e_size := entry_size k (e_value e)\<rparr>"])
        (use wf Some False in \<open>auto simp: store_refresh_def store_wf_def Let_def\<close>)
  qed (use Some wf_remove [OF wf] in \<open>simp add: store_refresh_def\<close>)
qed (use wf in \<open>simp add: store_refresh_def\<close>)

lemma settled_refresh:
  assumes st: "settled K s"
  shows "settled (K - {k}) (store_refresh k s)"
proof (cases "get_entry s k")
  case None
  then have "store_refresh k s = s" by (simp add: store_refresh_def)
  moreover have "settled (K - {k}) s"
    unfolding settled_def
  proof (intro allI impI)
    fix x e assume "x \<notin> K - {k}" "get_entry s x = Some e"
    moreover from this None have "x \<noteq> k" by auto
    ultimately show "e_size e = entry_size x (e_value e) \<and> \<not> value_empty (e_value e)"
      using st by (simp add: settled_def)
  qed
  ultimately show ?thesis by simp
next
  case (Some e)
  show ?thesis
  proof (cases "value_empty (e_value e)")
    case True
    then show ?thesis using settled_remove [OF st] Some by (simp add: store_refresh_def)
  next
    case False
    let ?e = "e\<lparr>e_size := entry_size k (e_value e)\<rparr>"
    have "st_data (store_refresh k s) = dict_set k ?e (st_data s)"
      using Some False by (simp add: store_refresh_def Let_def)
    then show ?thesis using st False unfolding settled_def by auto
  qed
qed

lemma refresh_frame [simp]:
  "st_now (store_refresh k s) = st_now s" "st_expiry_enabled (store_refresh k s) = st_expiry_enabled s"
  "st_expiry_deletes (store_refresh k s) = st_expiry_deletes s"
  "st_eviction_enabled (store_refresh k s) = st_eviction_enabled s" "st_out (store_refresh k s) = st_out s"
  "st_max_keys (store_refresh k s) = st_max_keys s" "st_maxmemory (store_refresh k s) = st_maxmemory s"
  "pol_evicts (st_policy (store_refresh k s)) = pol_evicts (st_policy s)"
  by (simp_all add: store_refresh_def Let_def split: option.split)

lemma fold_refresh:
  assumes "store_wf s" "settled K s" "K \<subseteq> set ks"
  shows "store_wf (fold store_refresh ks s) \<and> settled {} (fold store_refresh ks s)"
  using assms
proof (induction ks arbitrary: K s)
  case (Cons k ks)
  show ?case
    using Cons.IH [OF wf_refresh [OF Cons.prems(1)] settled_refresh [OF Cons.prems(2)], of k] Cons.prems(3) by auto
qed simp

lemma iter_loop_inv:
  "store_wf s \<Longrightarrow> settled K s \<Longrightarrow> store_wf (snd (iter_loop ks s)) \<and> settled K (snd (iter_loop ks s))"
proof (induction ks arbitrary: s)
  case (Cons k ks)
  show ?case
    using Cons.IH [OF wf_lookup [OF Cons.prems(1)] settled_lookup [OF Cons.prems(2)], of k]
    by (auto split: prod.split)
qed simp

section \<open>Eviction\<close>

text \<open>
  The loop ends below the limits or with every key protected; it removes only unprotected keys,
  each once, and lists them.
\<close>

lemma evict_loop_spec:
  assumes "store_wf s" "settled K s" "pol_evicts (st_policy s)"
  shows "case evict_loop protect s of (evicted, s') \<Rightarrow>
      store_wf s' \<and> settled K s' \<and> (\<not> over_limit 0 s' \<or> keys_of s' \<subseteq> protect)
    \<and> set evicted \<inter> protect = {} \<and> distinct evicted \<and> set evicted \<subseteq> keys_of s \<and> keys_of s' = keys_of s - set evicted
    \<and> (\<forall>x. x \<notin> set evicted \<longrightarrow> get_entry s' x = get_entry s x)"
  using assms
proof (induction protect s rule: evict_loop.induct)
  case (1 protect s)
  obtain v r where v: "pol_victim (st_now s) protect (st_rng s) (st_policy s) = (v, r)" by force
  have tr: "pol_tracks (st_policy s) (keys_of s)" using 1(2) by (simp add: store_wf_def)
  show ?case
  proof (cases "over_limit 0 s")
    case False
    then show ?thesis using 1 by (subst evict_loop.simps) simp
  next
    case over: True
    show ?thesis
    proof (cases v)
      case None
      have "keys_of s \<subseteq> protect"
        using pol.victim_complete [OF tr 1(4), of "st_now s" protect "st_rng s"] v None by simp
      then show ?thesis using None over v 1 by (subst evict_loop.simps) simp
    next
      case (Some k)
      have k: "k \<in> keys_of s" "k \<notin> protect"
        using pol.victim_sound [OF tr, of "st_now s" protect "st_rng s" k] v Some by simp_all
      then have kg: "get_entry s k \<noteq> None" by (simp add: dict_keys_iff)
      define s1 where "s1 = store_remove k (s\<lparr>st_rng := r\<rparr>)"
      define s2 where "s2 = s1\<lparr>st_evicted_keys := st_evicted_keys s1 + 1\<rparr>"
      have w: "store_wf s2" "settled K s2" "pol_evicts (st_policy s2)"
        using 1 wf_remove [of "s\<lparr>st_rng := r\<rparr>" k] settled_mono [OF settled_remove [of K "s\<lparr>st_rng := r\<rparr>" k], of K]
        by (auto simp: s1_def s2_def)
      have g: "get_entry s2 x = (if x = k then None else get_entry s x)" for x
        by (simp add: s1_def s2_def get_remove)
      then have ks: "keys_of s2 = keys_of s - {k}" by (auto simp: set_eq_iff dict_keys_iff split: if_splits)
      obtain ev s3 where ev: "evict_loop protect s2 = (ev, s3)" by force
      have eq: "evict_loop protect s = (k # ev, s3)"
        using over v Some kg ev by (subst evict_loop.simps) (simp add: s1_def s2_def Let_def)
      note IHc = 1(1) [OF not_not [THEN iffD2, OF over] v [symmetric] Some kg s1_def, folded s2_def,
        OF w, unfolded ev prod.case]
      have IH7: "keys_of s3 = keys_of s2 - set ev" and IH8: "\<And>x. x \<notin> set ev \<Longrightarrow> get_entry s3 x = get_entry s2 x"
        using IHc by blast+
      have IH: "store_wf s3" "settled K s3" "\<not> over_limit 0 s3 \<or> keys_of s3 \<subseteq> protect"
        "set ev \<inter> protect = {}" "distinct ev" "set ev \<subseteq> keys_of s2"
        using IHc by blast+
      have "distinct (k # ev)" using IH(5,6) ks by auto
      moreover have "keys_of s3 = keys_of s - set (k # ev)" using IH7 ks by auto
      moreover have "set (k # ev) \<subseteq> keys_of s" using IH(6) ks k by auto
      moreover have "get_entry s3 x = get_entry s x" if "x \<notin> set (k # ev)" for x
        using that IH8 [of x] g [of x] by simp
      moreover have "set (k # ev) \<inter> protect = {}" using IH(4) k by simp
      ultimately show ?thesis unfolding eq prod.case using IH(1,2,3)
        by (intro conjI allI impI) assumption+
    qed
  qed
qed

section \<open>Snapshots\<close>

lemma fold_barrier_inv:
  "store_wf s \<Longrightarrow> settled K s \<Longrightarrow>
   store_wf (fold snapshot_barrier ks s) \<and> settled K (fold snapshot_barrier ks s)"
  by (induction ks arbitrary: s) (auto intro: wf_barrier settled_barrier)

lemma wf_job:
  "store_wf s \<Longrightarrow> store_wf (s\<lparr>st_job := None\<rparr>)"
  "store_wf s \<Longrightarrow> job_epoch j = st_epoch s \<Longrightarrow> store_wf (s\<lparr>st_job := Some j\<rparr>)"
  by (simp_all add: store_wf_def)

lemma job_step_inv:
  assumes "store_wf s" "settled K s"
  shows "store_wf (snd (job_step n s))" "settled K (snd (job_step n s))"
proof -
  define g where "g ks = fold snapshot_barrier ks s" for ks
  have g: "store_wf (g ks)" "settled K (g ks)" for ks
    using fold_barrier_inv [OF assms, of ks] by (simp_all add: g_def)
  have epoch: "job_epoch j = st_epoch (g ks)" if "st_job (g ks) = Some j" for ks j
    using that g(1) [of ks] by (simp add: store_wf_def)
  show "store_wf (snd (job_step n s))"
    unfolding job_step_def Let_def g_def [symmetric]
    using g(1) assms(1) epoch by (auto simp: wf_job split: option.split)
  show "settled K (snd (job_step n s))"
    unfolding job_step_def Let_def g_def [symmetric]
    using g(2) assms(2) by (auto split: option.split)
qed

lemma begin_snapshot_inv:
  assumes "store_wf s" "settled K s" "begin_snapshot b s = Some s'"
  shows "store_wf s'" "settled K s'"
  using assms by (force simp: begin_snapshot_def store_wf_def Let_def split: option.splits)
    (use assms in \<open>auto simp: begin_snapshot_def Let_def split: option.splits\<close>)

lemma abandon_inv:
  "store_wf s \<Longrightarrow> store_wf (snd (abandon_snapshot s))" "settled K s \<Longrightarrow> settled K (snd (abandon_snapshot s))"
  by (simp_all add: abandon_snapshot_def wf_job)

lemma clear_inv:
  assumes "store_wf s"
  shows "store_wf (store_clear s)" "settled {} (store_clear s)"
proof -
  define s1 where "s1 = (case st_job s of None \<Rightarrow> s | Some j \<Rightarrow> snd (job_step (job_remaining j) s))"
  have "settled UNIV s" by (simp add: settled_def)
  then have "store_wf s1" using assms job_step_inv(1) by (auto simp: s1_def split: option.split)
  then show "store_wf (store_clear s)"
    using pol.track_clear [of "st_policy s1" "keys_of s1"] ks.inv_empty
    by (auto simp: store_clear_def s1_def [symmetric] Let_def store_wf_def ks.contains_list ks.list_empty)
  show "settled {} (store_clear s)" by (simp add: store_clear_def Let_def settled_def)
qed

section \<open>Expiration\<close>

text \<open>What a step of expiry may do to the keyspace: keep an entry, or drop an expired one.\<close>

definition expiry_only :: "pyfloat \<Rightarrow> store \<Rightarrow> store \<Rightarrow> bool" where
  "expiry_only now s s' \<longleftrightarrow> (\<forall>k. get_entry s' k = get_entry s k
     \<or> get_entry s' k = None \<and> (\<exists>e. get_entry s k = Some e \<and> is_expired e now))"

lemma expiry_only_refl [simp]: "expiry_only now s s"
  by (simp add: expiry_only_def)

lemma expiry_only_trans: "expiry_only now s s' \<Longrightarrow> expiry_only now s' s'' \<Longrightarrow> expiry_only now s s''"
  unfolding expiry_only_def by (metis option.distinct(1))

lemma expiry_only_remove:
  "get_entry s k = Some e \<Longrightarrow> is_expired e now \<Longrightarrow> expiry_only now s (store_remove k s)"
  by (simp add: expiry_only_def get_remove)

lemma expiry_only_data: "st_data s' = st_data s'' \<Longrightarrow> expiry_only now s s' = expiry_only now s s''"
  by (simp add: expiry_only_def)

lemma expire_sample_inv:
  "store_wf s \<Longrightarrow> settled K s \<Longrightarrow> store_wf (snd (expire_sample ks now s)) \<and>
   settled K (snd (expire_sample ks now s)) \<and> expiry_only now s (snd (expire_sample ks now s))"
proof (induction ks now s rule: expire_sample.induct)
  case (2 k ks now s)
  show ?case
  proof (cases "get_entry s k")
    case None
    then show ?thesis using 2 by simp
  next
    case (Some e)
    show ?thesis
    proof (cases "is_expired e now")
      case True
      have step: "expiry_only now s (store_expire k s)"
        using expiry_only_remove [OF Some True] expiry_only_data [of "store_expire k s" "store_remove k s"] by simp
      have "store_wf (snd (expire_sample ks now (store_expire k s))) \<and>
        settled K (snd (expire_sample ks now (store_expire k s))) \<and>
        expiry_only now (store_expire k s) (snd (expire_sample ks now (store_expire k s)))"
        using 2 Some True by (simp add: wf_expire settled_expire)
      then show ?thesis using Some True expiry_only_trans [OF step] by (auto split: prod.split)
    next
      case False
      then show ?thesis using 2 Some by simp
    qed
  qed
qed simp

lemma expire_rounds_inv:
  "store_wf s \<Longrightarrow> settled K s \<Longrightarrow> store_wf (snd (expire_rounds n sz now s)) \<and>
   settled K (snd (expire_rounds n sz now s)) \<and> expiry_only now s (snd (expire_rounds n sz now s))"
proof (induction n arbitrary: s)
  case (Suc n)
  obtain sample r where smp: "ks_sample sz (st_volatile s) (st_rng s) = (sample, r)" by force
  obtain x s1 where x: "expire_sample sample now (s\<lparr>st_rng := r\<rparr>) = (x, s1)" by force
  have e0: "expiry_only now s (s\<lparr>st_rng := r\<rparr>)" by (simp add: expiry_only_def)
  have inv: "store_wf s1" "settled K s1" "expiry_only now s s1"
    using expire_sample_inv [of "s\<lparr>st_rng := r\<rparr>" K sample now] Suc.prems x expiry_only_trans [OF e0] by simp_all
  show ?case
    using inv Suc.IH [OF inv(1,2)] Suc.prems expiry_only_trans [OF inv(3)] e0
    by (auto simp: smp x split: prod.split)
qed simp

lemma expire_cycle_inv:
  assumes "store_wf s" "settled K s"
  shows "store_wf (snd (expire_cycle n s))" "settled K (snd (expire_cycle n s))"
    "expiry_only (st_now s) s (snd (expire_cycle n s))"
  using expire_rounds_inv [OF assms, of MAX_EXPIRY_ROUNDS n "st_now s"] assms by (auto simp: expire_cycle_def)

lemma fold_remove:
  "store_wf s \<Longrightarrow> settled K s \<Longrightarrow> store_wf (fold store_remove ks s) \<and> settled K (fold store_remove ks s)
    \<and> (\<forall>k. get_entry (fold store_remove ks s) k = (if k \<in> set ks then None else get_entry s k))"
proof (induction ks arbitrary: s)
  case (Cons k ks)
  have "settled K (store_remove k s)" using settled_mono [OF settled_remove [OF Cons.prems(2)]] by blast
  then show ?case using Cons.IH [OF wf_remove [OF Cons.prems(1), of k]] by (simp add: get_remove)
qed simp

text \<open>After \<open>purge_expired\<close> the keyspace is the old one without the expired entries.\<close>

lemma purge_expired_spec:
  assumes wf: "store_wf s" and st: "settled K s"
  shows "store_wf (snd (purge_expired s))" "settled K (snd (purge_expired s))"
    "get_entry (snd (purge_expired s)) k = (case get_entry s k of None \<Rightarrow> None
       | Some e \<Rightarrow> if is_expired e (st_now s) then None else Some e)"
proof -
  define stale where "stale = filter (\<lambda>k. case get_entry s k of Some e \<Rightarrow> is_expired e (st_now s) | None \<Rightarrow> False)
    (ks_items (st_volatile s))"
  have eq: "snd (purge_expired s) = (let s1 = fold store_remove stale s in
      s1\<lparr>st_expired_keys := st_expired_keys s1 + int (length stale)\<rparr>)"
    by (simp add: purge_expired_def stale_def Let_def)
  have f: "store_wf (fold store_remove stale s)" "settled K (fold store_remove stale s)"
    "get_entry (fold store_remove stale s) k = (if k \<in> set stale then None else get_entry s k)"
    using fold_remove [OF wf st, of stale] by blast+
  then show "store_wf (snd (purge_expired s))" "settled K (snd (purge_expired s))"
    by (simp_all add: eq Let_def)
  have "k \<in> set stale \<longleftrightarrow> (\<exists>e. get_entry s k = Some e \<and> is_expired e (st_now s))"
  proof -
    have "k \<in> set (ks_items (st_volatile s)) \<longleftrightarrow> (\<exists>e. get_entry s k = Some e \<and> e_expires e \<noteq> None)"
      using wf ks.contains_list [of "st_volatile s" k] by (auto simp: store_wf_def)
    then show ?thesis by (auto simp: stale_def is_expired_def split: option.splits)
  qed
  then show "get_entry (snd (purge_expired s)) k = (case get_entry s k of None \<Rightarrow> None
       | Some e \<Rightarrow> if is_expired e (st_now s) then None else Some e)"
    using f(3) by (auto simp: eq Let_def split: option.split)
qed

end
