(* ===== verification/Store_Snapshot.thy ===== *)
theory Store_Snapshot
  imports Store_Inv
begin

text \<open>
  Incremental snapshots are point-in-time copies.  A job begun at some moment must deliver the
  keyspace of that moment, although commands go on changing it while slices are copied.  The
  argument of the source's docstring (every entry carries the epoch of the last snapshot it was
  accounted for in) becomes an invariant: what the job has recorded, together with the entries
  not yet accounted for, is the keyspace at the start.  Every method of the store keeps it, as
  long as the key a command changes in place was passed to the barrier first.
\<close>

section \<open>Pending entries\<close>

text \<open>The value and deadline of an entry a job of epoch \<open>n\<close> has still to copy.\<close>

definition pend :: "int \<Rightarrow> store \<Rightarrow> str \<Rightarrow> (kvalue \<times> pyfloat option) option" where
  "pend n s k = (case get_entry s k of
     None \<Rightarrow> None | Some e \<Rightarrow> if e_copied e = n then None else Some (e_value e, e_expires e))"

definition expired_at :: "pyfloat option \<Rightarrow> pyfloat \<Rightarrow> bool" where
  "expired_at x now = (case x of None \<Rightarrow> False | Some t \<Rightarrow> fle t now)"

definition pending_records :: "int \<Rightarrow> pyfloat \<Rightarrow> store \<Rightarrow> snapshot_record set" where
  "pending_records n t s = {(k, value_payload v, x) | k v x. pend n s k = Some (v, x) \<and> \<not> expired_at x t}"

definition accounted :: "str \<Rightarrow> store \<Rightarrow> bool" where
  "accounted k s \<longleftrightarrow> (\<forall>j e. st_job s = Some j \<longrightarrow> get_entry s k = Some e \<longrightarrow> e_copied e = job_epoch j)"

text \<open>
  A job of epoch \<open>n\<close> for the records \<open>R\<close>, running or completed; \<open>F\<close> is what earlier jobs had
  delivered.
\<close>

definition job_covers :: "int \<Rightarrow> snapshot_record set \<Rightarrow> store \<Rightarrow> snapshot_job \<Rightarrow> bool" where
  "job_covers n R s j \<longleftrightarrow> job_epoch j = n \<and> job_on_done j \<and> distinct (map fst (job_records j))
     \<and> set (job_records j) \<union> pending_records n (job_started_at j) s = R
     \<and> (\<forall>k. pend n s k \<noteq> None \<longrightarrow> k \<notin> fst ` set (job_records j) \<and> k \<in> set (drop (job_pos j) (job_keys j)))"

definition covers :: "int \<Rightarrow> snapshot_record set \<Rightarrow> snapshot_record list list \<Rightarrow> store \<Rightarrow> bool" where
  "covers n R F s \<longleftrightarrow>
     (\<exists>j. st_job s = Some j \<and> st_finished s = F \<and> job_covers n R s j)
   \<or> (\<exists>recs later. st_finished s = F @ recs # later \<and> set recs = R \<and> distinct (map fst recs))"

section \<open>Operations that leave pending entries alone\<close>

lemma job_covers_cong: "pend n s' = pend n s \<Longrightarrow> job_covers n R s' j = job_covers n R s j"
  by (simp add: job_covers_def pending_records_def)

lemma covers_frame:
  "covers n R F s \<Longrightarrow> st_job s' = st_job s \<Longrightarrow> st_finished s' = st_finished s \<Longrightarrow>
   (\<And>j. st_job s = Some j \<Longrightarrow> job_epoch j = n \<Longrightarrow> pend n s' = pend n s) \<Longrightarrow> covers n R F s'"
  unfolding covers_def using job_covers_cong by (metis job_covers_def)

lemma pend_data: "st_data s' = st_data s \<Longrightarrow> pend n s' = pend n s"
  by (simp add: pend_def fun_eq_iff)

lemma pend_set:
  "st_data s' = dict_set k e (st_data s) \<Longrightarrow> e_copied e = n \<Longrightarrow> pend n s k = None \<Longrightarrow> pend n s' = pend n s"
  by (auto simp: pend_def fun_eq_iff split: option.splits)

lemma pend_pop: "st_data s' = dict_pop k (st_data s) \<Longrightarrow> pend n s k = None \<Longrightarrow> pend n s' = pend n s"
  by (auto simp: pend_def fun_eq_iff split: option.splits)

lemma accounted_pend: "accounted k s \<Longrightarrow> st_job s = Some j \<Longrightarrow> pend (job_epoch j) s k = None"
  by (auto simp: accounted_def pend_def split: option.splits)

section \<open>The barrier\<close>

lemma expired_at_entry: "is_expired e t = expired_at (e_expires e) t"
  by (simp add: is_expired_def expired_at_def)

lemma pend_barrier:
  "st_job s = Some j \<Longrightarrow> pend (job_epoch j) (snapshot_barrier k s) = (pend (job_epoch j) s)(k := None)"
  by (auto simp: pend_def get_barrier fun_eq_iff split: option.splits)

lemma barrier_job:
  assumes "st_job s = Some j"
  shows "st_job (snapshot_barrier k s) = Some (case pend (job_epoch j) s k of
      Some (v, x) \<Rightarrow> if expired_at x (job_started_at j) then j
                     else j\<lparr>job_records := job_records j @ [(k, value_payload v, x)]\<rparr>
    | None \<Rightarrow> j)"
  using assms
  by (auto simp: snapshot_barrier_def job_take_def pend_def expired_at_entry entry_record_def split: option.splits)

lemma pending_records_mem:
  "(k, p, x) \<in> pending_records n t s \<longleftrightarrow> (\<exists>v. pend n s k = Some (v, x) \<and> p = value_payload v \<and> \<not> expired_at x t)"
  by (auto simp: pending_records_def)

lemma pending_records_drop:
  assumes "pend n s k = Some (v, x)" "pend n s' = (pend n s)(k := None)"
  shows "pending_records n t s = (if expired_at x t then {} else {(k, value_payload v, x)}) \<union> pending_records n t s'"
proof (rule set_eqI)
  fix r :: snapshot_record
  obtain k' p y where r: "r = (k', p, y)" by (cases r)
  show "r \<in> pending_records n t s \<longleftrightarrow>
    r \<in> (if expired_at x t then {} else {(k, value_payload v, x)}) \<union> pending_records n t s'"
    using assms by (cases "k' = k") (auto simp: r pending_records_mem)
qed

lemma job_covers_barrier:
  assumes j: "st_job s = Some j" and c: "job_covers n R s j"
  shows "\<exists>j'. st_job (snapshot_barrier k s) = Some j' \<and> job_covers n R (snapshot_barrier k s) j'
    \<and> job_keys j' = job_keys j \<and> job_pos j' = job_pos j"
proof -
  let ?s = "snapshot_barrier k s"
  have n: "job_epoch j = n" using c by (simp add: job_covers_def)
  note pd = pend_barrier [OF j, of k, unfolded n] and jb = barrier_job [OF j, of k, unfolded n]
  show ?thesis
  proof (cases "pend n s k")
    case None
    then have "pend n ?s = pend n s" using pd by auto
    from job_covers_cong [OF this, of R j] have "st_job ?s = Some j" "job_covers n R ?s j" using None jb c by simp_all
    then show ?thesis by blast
  next
    case (Some vx)
    obtain v x where vx: "vx = (v, x)" by force
    note dr = pending_records_drop [OF Some [unfolded vx] pd, of "job_started_at j"]
    have fresh: "k \<notin> fst ` set (job_records j)" using c Some by (simp add: job_covers_def)
    have keep: "pend n ?s k' \<noteq> None \<Longrightarrow> k' \<noteq> k \<and> k' \<notin> fst ` set (job_records j)
        \<and> k' \<in> set (drop (job_pos j) (job_keys j))" for k'
      using c pd by (cases "k' = k") (simp_all add: job_covers_def)
    have R: "set (job_records j) \<union> pending_records n (job_started_at j) s = R"
      and dist: "distinct (map fst (job_records j))" and od: "job_on_done j" using c by (simp_all add: job_covers_def)
    show ?thesis
    proof (cases "expired_at x (job_started_at j)")
      case True
      have "st_job ?s = Some j" using Some vx True jb by simp
      moreover have "job_covers n R ?s j"
        using R dr True dist od n keep by (simp add: job_covers_def)
      ultimately show ?thesis by blast
    next
      case False
      let ?j = "j\<lparr>job_records := job_records j @ [(k, value_payload v, x)]\<rparr>"
      have "st_job ?s = Some ?j" using Some vx False jb by simp
      moreover have "job_covers n R ?s ?j"
        using R dr False dist od n keep fresh by (simp add: job_covers_def)
      ultimately show ?thesis by (intro exI [of _ ?j]) simp
    qed
  qed
qed

lemma barrier_no_job: "st_job s = None \<Longrightarrow> snapshot_barrier k s = s"
  by (simp add: snapshot_barrier_def)

lemma covers_barrier:
  assumes "covers n R F s"
  shows "covers n R F (snapshot_barrier k s)"
proof (cases "\<exists>j. st_job s = Some j \<and> st_finished s = F \<and> job_covers n R s j")
  case True
  then obtain j where j: "st_job s = Some j" "st_finished s = F" "job_covers n R s j" by blast
  obtain j' where "st_job (snapshot_barrier k s) = Some j'" "job_covers n R (snapshot_barrier k s) j'"
    using job_covers_barrier [OF j(1,3), of k] by blast
  then show ?thesis unfolding covers_def using j(2) by (intro disjI1 exI [of _ j']) simp
next
  case False
  with assms have "\<exists>recs later. st_finished s = F @ recs # later \<and> set recs = R \<and> distinct (map fst recs)"
    unfolding covers_def by blast
  then show ?thesis unfolding covers_def by simp
qed

section \<open>Slices\<close>

lemma fold_barrier_covers:
  assumes "st_job s = Some j" "job_covers n R s j"
  shows "\<exists>j'. st_job (fold snapshot_barrier ks s) = Some j' \<and> job_covers n R (fold snapshot_barrier ks s) j'
    \<and> job_keys j' = job_keys j \<and> job_pos j' = job_pos j
    \<and> (\<forall>k \<in> set ks. pend n (fold snapshot_barrier ks s) k = None)
    \<and> (\<forall>k. pend n s k = None \<longrightarrow> pend n (fold snapshot_barrier ks s) k = None)"
  using assms
proof (induction ks arbitrary: s j)
  case (Cons k ks)
  obtain j1 where j1: "st_job (snapshot_barrier k s) = Some j1" "job_covers n R (snapshot_barrier k s) j1"
    "job_keys j1 = job_keys j" "job_pos j1 = job_pos j"
    using job_covers_barrier [OF Cons.prems, of k] by blast
  have pd: "pend n (snapshot_barrier k s) = (pend n s)(k := None)"
    using pend_barrier [OF Cons.prems(1), of k] Cons.prems(2) by (simp add: job_covers_def)
  from Cons.IH [OF j1(1,2)] obtain j2 where j2:
    "st_job (fold snapshot_barrier ks (snapshot_barrier k s)) = Some j2"
    "job_covers n R (fold snapshot_barrier ks (snapshot_barrier k s)) j2"
    "job_keys j2 = job_keys j" "job_pos j2 = job_pos j"
    "\<forall>x \<in> set ks. pend n (fold snapshot_barrier ks (snapshot_barrier k s)) x = None"
    "\<forall>x. pend n (snapshot_barrier k s) x = None \<longrightarrow> pend n (fold snapshot_barrier ks (snapshot_barrier k s)) x = None"
    using j1(3,4) by auto
  have "pend n (snapshot_barrier k s) k = None" "\<And>x. pend n s x = None \<Longrightarrow> pend n (snapshot_barrier k s) x = None"
    by (simp_all add: pd)
  then show ?case using j2 by (intro exI [of _ j2]) auto
qed auto

lemma job_covers_done:
  assumes "job_covers n R s j" "job_done j"
  shows "set (job_records j) = R" "distinct (map fst (job_records j))"
proof -
  have "pend n s k = None" for k
  proof (rule ccontr)
    assume "pend n s k \<noteq> None"
    then have "k \<in> set (drop (job_pos j) (job_keys j))" using assms(1) by (simp add: job_covers_def)
    then show False using assms(2) by (simp add: job_done_def)
  qed
  then have "pending_records n (job_started_at j) s = {}" by (simp add: pending_records_def)
  then show "set (job_records j) = R" "distinct (map fst (job_records j))"
    using assms(1) by (auto simp: job_covers_def)
qed

lemma covers_data:
  "covers n R F s \<Longrightarrow> st_job s' = st_job s \<Longrightarrow> st_finished s' = st_finished s \<Longrightarrow> st_data s' = st_data s \<Longrightarrow> covers n R F s'"
  by (rule covers_frame) (assumption | rule pend_data)+

text \<open>
  A slice of the job: it goes on covering, and when the last slice is copied exactly the records
  are delivered.
\<close>

lemma job_step_covers:
  assumes j: "st_job s = Some j" and c: "job_covers n R s j"
  shows "case job_step m s of (finished, s') \<Rightarrow>
    if finished then st_job s' = None \<and> (\<exists>recs. st_finished s' = st_finished s @ [recs] \<and> set recs = R \<and> distinct (map fst recs))
    else (\<exists>j'. st_job s' = Some j' \<and> job_covers n R s' j' \<and> st_finished s' = st_finished s
           \<and> job_pos j' = min (job_pos j + m) (length (job_keys j)) \<and> job_keys j' = job_keys j)"
proof -
  define stop where "stop = min (job_pos j + m) (length (job_keys j))"
  define slice where "slice = take (stop - job_pos j) (drop (job_pos j) (job_keys j))"
  define s1 where "s1 = fold snapshot_barrier slice s"
  have fin: "st_finished (fold snapshot_barrier ks s) = st_finished s" for ks
    by (induction ks arbitrary: s) simp_all
  obtain j1 where j1: "st_job s1 = Some j1" "job_covers n R s1 j1" "job_keys j1 = job_keys j" "job_pos j1 = job_pos j"
      "\<forall>k \<in> set slice. pend n s1 k = None"
    using fold_barrier_covers [OF j c, of slice] by (auto simp: s1_def)
  let ?j = "j1\<lparr>job_pos := stop\<rparr>"
  have split: "set (drop (job_pos j) (job_keys j)) \<subseteq> set slice \<union> set (drop stop (job_keys j))"
  proof -
    have "drop (job_pos j) (job_keys j) = slice @ drop (stop - job_pos j) (drop (job_pos j) (job_keys j))"
      unfolding slice_def by (rule append_take_drop_id [symmetric])
    moreover have "set (drop (stop - job_pos j) (drop (job_pos j) (job_keys j))) \<subseteq> set (drop stop (job_keys j))"
      by (simp add: set_drop_subset_set_drop stop_def)
    ultimately show ?thesis by (metis Un_mono order_refl set_append)
  qed
  have cov: "job_covers n R s1 ?j"
  proof -
    have "k \<in> set (drop stop (job_keys j)) \<and> k \<notin> fst ` set (job_records j1)" if "pend n s1 k \<noteq> None" for k
    proof -
      have "k \<notin> fst ` set (job_records j1)" "k \<in> set (drop (job_pos j) (job_keys j))"
        using that j1(2) by (simp_all add: job_covers_def j1(3,4))
      moreover have "k \<notin> set slice" using that j1(5) by metis
      ultimately show ?thesis using split by blast
    qed
    then show ?thesis using j1(2,3) by (simp add: job_covers_def)
  qed
  have eq: "job_step m s = (if job_done ?j
      then (True, s1\<lparr>st_job := None, st_finished := st_finished s1 @ (if job_on_done j1 then [job_records j1] else [])\<rparr>)
      else (False, s1\<lparr>st_job := Some ?j\<rparr>))"
    using j j1(1) by (simp add: job_step_def Let_def stop_def [symmetric] slice_def [symmetric] s1_def [symmetric])
  show ?thesis
  proof (cases "job_done ?j")
    case True
    have "job_on_done j1" using j1(2) by (simp add: job_covers_def)
    then show ?thesis using True eq job_covers_done [OF cov True] fin by (simp add: s1_def)
  next
    case False
    have "pend n (s1\<lparr>st_job := Some ?j\<rparr>) = pend n s1" by (rule pend_data) simp
    from job_covers_cong [OF this, of R ?j] have "job_covers n R (s1\<lparr>st_job := Some ?j\<rparr>) ?j" using cov by simp
    then show ?thesis using False eq fin j1(3) by (simp add: s1_def stop_def)
  qed
qed

section \<open>Every operation keeps the cover\<close>

text \<open>
  \<open>snapped n R F K s\<close>: the job is covered, and the keys \<open>K\<close> the running command may change were
  passed to the barrier.
\<close>

definition snapped :: "int \<Rightarrow> snapshot_record set \<Rightarrow> snapshot_record list list \<Rightarrow> str set \<Rightarrow> store \<Rightarrow> bool" where
  "snapped n R F K s \<longleftrightarrow> covers n R F s \<and> (\<forall>k \<in> K. accounted k s)"

lemma accounted_barrier: "accounted x s \<or> x = k \<Longrightarrow> accounted x (snapshot_barrier k s)"
proof (cases "st_job s")
  case (Some j)
  assume "accounted x s \<or> x = k"
  moreover have "\<exists>j'. st_job (snapshot_barrier k s) = Some j' \<and> job_epoch j' = job_epoch j"
    using barrier_job [OF Some, of k] by (auto split: option.split)
  ultimately show ?thesis using Some by (auto simp: accounted_def get_barrier dest: arg_cong [where f = e_copied] split: if_splits option.splits)
qed (auto simp: accounted_def barrier_no_job)

lemma snapped_barrier: "snapped n R F K s \<Longrightarrow> snapped n R F (insert k K) (snapshot_barrier k s)"
  by (auto simp: snapped_def intro: covers_barrier accounted_barrier)

lemma snapped_mono: "snapped n R F K s \<Longrightarrow> K' \<subseteq> K \<Longrightarrow> snapped n R F K' s"
  by (auto simp: snapped_def)

text \<open>Changing an accounted entry, or adding one stamped with the job's epoch.\<close>

lemma snapped_set:
  assumes sn: "snapped n R F K s" and k: "accounted k s" and wf: "store_wf s"
    and data: "st_data s' = dict_set k e (st_data s)"
    and frame: "st_job s' = st_job s" "st_finished s' = st_finished s"
    and stamp: "e_copied e = st_epoch s \<or> (\<exists>e0. get_entry s k = Some e0 \<and> e_copied e = e_copied e0)"
  shows "snapped n R F K s'"
proof -
  have epoch: "e_copied e = job_epoch j" if "st_job s = Some j" for j
    using stamp that wf k by (auto simp: store_wf_def accounted_def)
  have "covers n R F s'"
  proof (rule covers_frame [OF _ frame])
    fix j assume j: "st_job s = Some j" "job_epoch j = n"
    show "pend n s' = pend n s"
      using pend_set [OF data, of n] epoch [OF j(1)] j(2) accounted_pend [OF k j(1)] by simp
  qed (use sn in \<open>simp add: snapped_def\<close>)
  moreover have "accounted x s'" if "accounted x s" for x
    using that epoch by (auto simp: accounted_def frame data)
  ultimately show ?thesis using sn by (simp add: snapped_def)
qed

lemma snapped_pop:
  assumes sn: "snapped n R F K s" and k: "accounted k s"
    and data: "st_data s' = dict_pop k (st_data s)"
    and frame: "st_job s' = st_job s" "st_finished s' = st_finished s"
  shows "snapped n R F K s'"
proof -
  have "covers n R F s'"
  proof (rule covers_frame [OF _ frame])
    fix j assume j: "st_job s = Some j" "job_epoch j = n"
    show "pend n s' = pend n s"
      using pend_pop [OF data, of n] j(2) accounted_pend [OF k j(1)] by simp
  qed (use sn in \<open>simp add: snapped_def\<close>)
  then show ?thesis using sn by (simp add: snapped_def accounted_def frame data)
qed

lemma snapped_data:
  "snapped n R F K s \<Longrightarrow> st_job s' = st_job s \<Longrightarrow> st_finished s' = st_finished s \<Longrightarrow> st_data s' = st_data s \<Longrightarrow>
   snapped n R F K s'"
  unfolding snapped_def using covers_data [of n R F s s'] by (simp add: accounted_def)

lemma snapped_remove:
  assumes "snapped n R F K s"
  shows "snapped n R F K (store_remove k s)"
proof -
  have b: "snapped n R F K (snapshot_barrier k s)" "accounted k (snapshot_barrier k s)"
    using snapped_mono [OF snapped_barrier [OF assms, of k]] accounted_barrier by blast+
  show ?thesis
  proof (cases "get_entry (snapshot_barrier k s) k")
    case None
    then show ?thesis using b by (simp add: store_remove_def Let_def)
  next
    case (Some e)
    then show ?thesis by (intro snapped_pop [OF b]) (simp_all add: store_remove_def Let_def)
  qed
qed

lemma snapped_expire: "snapped n R F K s \<Longrightarrow> snapped n R F K (store_expire k s)"
  by (rule snapped_data [OF snapped_remove [of n R F K s k]]) (simp_all add: store_expire_def Let_def)

lemma snapped_lookup: "snapped n R F K s \<Longrightarrow> snapped n R F K (snd (store_lookup k s))"
  by (simp add: store_lookup_def snapped_expire split: option.split)

lemma snapped_access: "snapped n R F K s \<Longrightarrow> snapped n R F K (store_access k s)"
  by (erule snapped_data) simp_all

lemma snapped_get: "snapped n R F K s \<Longrightarrow> snapped n R F K (snd (store_get k s))"
  using snapped_lookup [of n R F K s k]
  by (auto simp: store_get_def split: prod.split option.split intro!: snapped_access intro: snapped_data)

lemma snapped_read: "snapped n R F K s \<Longrightarrow> snapped n R F K (snd (store_read kind k s))"
  using snapped_get [of n R F K s k] by (auto simp: store_read_def split: prod.split option.split)

lemma snapped_insert:
  assumes "snapped n R F K s" "get_entry s k = None" "store_wf s"
  shows "snapped n R F K (store_insert k v s)"
proof -
  have "accounted k s" using assms(2) by (simp add: accounted_def)
  from snapped_set [OF assms(1) this assms(3), where
      e = "(new_entry v None)\<lparr>e_copied := st_epoch s, e_size := entry_size k v\<rparr>"]
  show ?thesis by (simp add: store_insert_def Let_def)
qed

lemma snapped_write_target:
  assumes "snapped n R F K s" "store_wf s" "mode_ok s"
  shows "snapped n R F K (snd (store_write_target kind mk fresh k s))"
  using snapped_lookup [OF assms(1), of k] wf_lookup [OF assms(2), of k] assms(1,3)
  by (cases rule: lookup_cases [of k s])
    (auto simp: store_write_target_def intro: snapped_insert snapped_access split: option.split)

lemma snapped_put_value:
  assumes "snapped n R F K s" "k \<in> K" "store_wf s"
  shows "snapped n R F K (put_value k v s)"
proof (cases "get_entry s k")
  case (Some e)
  have "accounted k s" using assms by (simp add: snapped_def)
  from snapped_set [OF assms(1) this assms(3), where e = "e\<lparr>e_value := v\<rparr>"] Some
  show ?thesis by (simp add: put_value_def)
qed (use assms in \<open>simp add: put_value_def\<close>)

lemma store_set_frame:
  "st_job (store_set k v kt s) = st_job (if kt then snd (store_lookup k s) else s)"
  "st_finished (store_set k v kt s) = st_finished s"
  by (auto simp: store_set_def store_insert_def Let_def split: option.split prod.split)
    (metis lookup_frame(10) snd_conv)+

lemma snapped_store_set:
  assumes sn: "snapped n R F K s" and k: "k \<in> K" and wf: "store_wf s"
  shows "snapped n R F K (store_set k v kt s)"
proof -
  let ?s = "if kt then snd (store_lookup k s) else s"
  have s1: "snapped n R F K ?s" "store_wf ?s" using snapped_lookup [OF sn] wf_lookup [OF wf] sn wf by simp_all
  then have "accounted k ?s" using k by (simp add: snapped_def)
  from snapped_set [OF s1(1) this s1(2) store_set_data] show ?thesis
    by (simp add: store_set_frame)
qed

lemma snapped_delete: "snapped n R F K s \<Longrightarrow> snapped n R F K (snd (store_delete k s))"
  using snapped_lookup [of n R F K s k]
  by (auto simp: store_delete_def intro: snapped_remove split: prod.split option.split)

lemma snapped_set_expiry:
  assumes "snapped n R F K s" "k \<in> K" "store_wf s"
  shows "snapped n R F K (snd (store_set_expiry k t s))"
proof (cases rule: lookup_cases [of k s])
  case (found e)
  have "accounted k s" using assms by (simp add: snapped_def)
  from snapped_set [OF assms(1) this assms(3), where e = "e\<lparr>e_expires := Some t\<rparr>"] found
  show ?thesis by (simp add: store_set_expiry_def)
next
  case (missing s1)
  then show ?thesis using snapped_lookup [OF assms(1), of k] by (simp add: store_set_expiry_def)
qed

lemma snapped_persist:
  assumes "snapped n R F K s" "k \<in> K" "store_wf s"
  shows "snapped n R F K (snd (store_persist k s))"
proof (cases rule: lookup_cases [of k s])
  case (found e)
  have "accounted k s" using assms by (simp add: snapped_def)
  from snapped_set [OF assms(1) this assms(3), where e = "e\<lparr>e_expires := None\<rparr>"] found
  show ?thesis using assms(1) by (auto simp: store_persist_def)
next
  case (missing s1)
  then show ?thesis using snapped_lookup [OF assms(1), of k] by (simp add: store_persist_def)
qed

lemma snapped_refresh:
  assumes "snapped n R F K s" "k \<in> K" "store_wf s"
  shows "snapped n R F K (store_refresh k s)"
proof (cases "get_entry s k")
  case (Some e)
  have "accounted k s" using assms by (simp add: snapped_def)
  from snapped_set [OF assms(1) this assms(3), where e = "e\<lparr>e_size := entry_size k (e_value e)\<rparr>"] Some
    snapped_remove [OF assms(1), of k]
  show ?thesis by (simp add: store_refresh_def Let_def)
qed (use assms in \<open>simp add: store_refresh_def\<close>)

lemma snapped_iter: "snapped n R F K s \<Longrightarrow> snapped n R F K (snd (iter_loop ks s))"
proof (induction ks arbitrary: s)
  case (Cons k ks)
  then show ?case using Cons.IH [OF snapped_lookup [OF Cons.prems, of k]] by (auto split: prod.split)
qed simp

lemma snapped_evict: "snapped n R F K s \<Longrightarrow> snapped n R F K (snd (evict_loop protect s))"
proof (induction protect s rule: evict_loop.induct)
  case (1 protect s)
  have rng: "snapped n R F K (s\<lparr>st_rng := r\<rparr>)" for r
    by (rule snapped_data [OF "1.prems"]) simp_all
  have rm: "snapped n R F K (store_remove v (s\<lparr>st_rng := r\<rparr>)\<lparr>st_evicted_keys := m\<rparr>)" for v r m
    by (rule snapped_data [OF snapped_remove [OF rng]]) simp_all
  obtain v r where v: "pol_victim (st_now s) protect (st_rng s) (st_policy s) = (v, r)" by force
  show ?case
  proof (cases "over_limit 0 s \<and> (\<exists>k. v = Some k \<and> get_entry s k \<noteq> None)")
    case True
    then obtain k where k: "over_limit 0 s" "v = Some k" "get_entry s k \<noteq> None" by blast
    have "snd (evict_loop protect s) = snd (evict_loop protect (store_remove k (s\<lparr>st_rng := r\<rparr>)
        \<lparr>st_evicted_keys := st_evicted_keys (store_remove k (s\<lparr>st_rng := r\<rparr>)) + 1\<rparr>))"
      using k v by (subst evict_loop.simps) (auto simp: Let_def split: prod.split)
    then show ?thesis using 1(1) [OF _ v [symmetric] k(2,3) refl rm] k(1) by simp
  next
    case False
    then show ?thesis using v rng "1.prems" by (subst evict_loop.simps) (auto split: option.split)
  qed
qed

lemma snapped_expire_sample: "snapped n R F K s \<Longrightarrow> snapped n R F K (snd (expire_sample ks now s))"
proof (induction ks now s rule: expire_sample.induct)
  case (2 k ks now s)
  then show ?case using snapped_expire [OF "2.prems", of k] by (auto split: option.split prod.split)
qed simp

lemma snapped_expire_cycle:
  assumes "snapped n R F K s"
  shows "snapped n R F K (snd (expire_cycle m s))"
proof -
  have rng: "snapped n R F K s' \<Longrightarrow> snapped n R F K (s'\<lparr>st_rng := r\<rparr>)" for s' :: store and r
    by (erule snapped_data) simp_all
  have "snapped n R F K (snd (expire_rounds i m now s'))" if "snapped n R F K s'" for i now and s' :: store
    using that
  proof (induction i arbitrary: s')
    case (Suc i)
    obtain sample r where smp: "ks_sample m (st_volatile s') (st_rng s') = (sample, r)" by force
    obtain x s1 where x: "expire_sample sample now (s'\<lparr>st_rng := r\<rparr>) = (x, s1)" by force
    have "snapped n R F K s1" using snapped_expire_sample [OF rng [OF Suc.prems, of r], of sample now] x by simp
    then show ?case using Suc.IH [of s1] rng [OF Suc.prems] by (auto simp: smp x split: prod.split)
  qed simp
  then show ?thesis using assms by (simp add: expire_cycle_def)
qed

lemma job_step_finished: "\<exists>more. st_finished (snd (job_step m s)) = st_finished s @ more"
proof -
  have fin: "st_finished (fold snapshot_barrier ks s) = st_finished s" for ks
    by (induction ks arbitrary: s) simp_all
  show ?thesis by (auto simp: job_step_def Let_def fin split: option.split)
qed

lemma covers_job_step:
  assumes "covers n R F s"
  shows "covers n R F (snd (job_step m s))"
proof (cases "\<exists>j. st_job s = Some j \<and> st_finished s = F \<and> job_covers n R s j")
  case True
  then obtain j where j: "st_job s = Some j" "st_finished s = F" "job_covers n R s j" by blast
  obtain b s' where b: "job_step m s = (b, s')" by force
  from job_step_covers [OF j(1,3), of m] j(2) show ?thesis
    unfolding covers_def b prod.case snd_conv by (cases b) auto
next
  case False
  with assms obtain recs later where "st_finished s = F @ recs # later" "set recs = R" "distinct (map fst recs)"
    unfolding covers_def by blast
  moreover obtain more where "st_finished (snd (job_step m s)) = st_finished s @ more"
    using job_step_finished by blast
  ultimately show ?thesis unfolding covers_def by (intro disjI2 exI [of _ recs] exI [of _ "later @ more"]) simp
qed

lemma fold_barrier_keys:
  "st_job s = Some j \<Longrightarrow> \<exists>j'. st_job (fold snapshot_barrier ks s) = Some j' \<and> job_keys j' = job_keys j"
proof (induction ks arbitrary: s j)
  case (Cons k ks)
  obtain j1 where j1: "st_job (snapshot_barrier k s) = Some j1" "job_keys j1 = job_keys j"
    using barrier_job [OF Cons.prems, of k] by (auto split: option.split)
  show ?case using Cons.IH [OF j1(1)] j1(2) by simp
qed simp

lemma job_step_remaining:
  assumes j: "st_job s = Some j"
  shows "st_job (snd (job_step (job_remaining j) s)) = None"
proof -
  define stop where "stop = min (job_pos j + job_remaining j) (length (job_keys j))"
  define slice where "slice = take (stop - job_pos j) (drop (job_pos j) (job_keys j))"
  obtain j' where j': "st_job (fold snapshot_barrier slice s) = Some j'" "job_keys j' = job_keys j"
    using fold_barrier_keys [OF j] by blast
  have "job_done (j'\<lparr>job_pos := stop\<rparr>)" by (simp add: job_done_def j'(2) stop_def job_remaining_def)
  then show ?thesis
    using j j'(1) by (simp add: job_step_def Let_def stop_def [symmetric] slice_def [symmetric])
qed

lemma covers_clear:
  assumes "covers n R F s"
  shows "covers n R F (store_clear s)"
proof -
  define s1 where "s1 = (case st_job s of None \<Rightarrow> s | Some j \<Rightarrow> snd (job_step (job_remaining j) s))"
  have c: "covers n R F s1" using assms covers_job_step by (auto simp: s1_def split: option.split)
  have "st_job s1 = None" using job_step_remaining by (auto simp: s1_def split: option.split)
  with c have "\<exists>recs later. st_finished s1 = F @ recs # later \<and> set recs = R \<and> distinct (map fst recs)"
    by (simp add: covers_def)
  then show ?thesis by (simp add: store_clear_def s1_def [symmetric] Let_def covers_def)
qed

lemma snapped_load_record:
  assumes "snapped n R F K s" "k \<in> K" "store_wf s" "value_ok (fst (load_payload p (st_sl_rng s)))"
  shows "snapped n R F K (load_record (k, p, x) s)"
proof -
  obtain v r where v: "load_payload p (st_sl_rng s) = (v, r)" by force
  have s0: "snapped n R F K (s\<lparr>st_sl_rng := r\<rparr>)" by (rule snapped_data [OF assms(1)]) simp_all
  have "snapped n R F K (store_set k v False (s\<lparr>st_sl_rng := r\<rparr>))"
    using snapped_store_set [OF s0 assms(2)] assms(3) by simp
  moreover have "store_wf (store_set k v False (s\<lparr>st_sl_rng := r\<rparr>))" using assms v by (intro wf_set) simp_all
  ultimately show ?thesis
    using assms(2) v by (auto simp: load_record_def Let_def snapped_set_expiry split: option.split)
qed

section \<open>Starting a job\<close>

lemma covers_begin:
  assumes wf: "store_wf s" and b: "begin_snapshot True s = Some s'"
  shows "covers (st_epoch s') (set (store_snapshot s)) (st_finished s) s'"
proof -
  let ?n = "st_epoch s + 1"
  let ?j = "\<lparr>job_keys = dict_keys (st_data s), job_pos = 0, job_epoch = ?n, job_started_at = st_now s,
    job_on_done = True, job_records = []\<rparr>"
  have s': "s' = s\<lparr>st_epoch := ?n, st_job := Some ?j\<rparr>"
    using b by (auto simp: begin_snapshot_def Let_def split: option.splits)
  have pend: "pend ?n s' k = map_option (\<lambda>e. (e_value e, e_expires e)) (get_entry s k)" for k
  proof (cases "get_entry s k")
    case (Some e)
    then have "e_copied e \<noteq> ?n" using wf unfolding store_wf_def by fastforce
    then show ?thesis using Some by (simp add: pend_def s')
  qed (simp add: pend_def s')
  have d: "dict_ok (st_data s)" using wf by (simp add: store_wf_def)
  have "pending_records ?n (st_now s) s' = set (store_snapshot s)"
    unfolding pending_records_def pend store_snapshot_def entry_record_def
    by (auto simp: dict_mem_iff [OF d] expired_at_entry image_iff split_beta)
  then have "job_covers ?n (set (store_snapshot s)) s' ?j"
    by (auto simp: job_covers_def pend dict_keys_iff)
  then show ?thesis by (auto simp: covers_def s')
qed

lemma covers_finished:
  assumes "covers n R F s" "st_job s = None"
  shows "\<exists>recs later. st_finished s = F @ recs # later \<and> set recs = R \<and> distinct (map fst recs)"
  using assms by (simp add: covers_def)

end
