(* ===== verification/Store_Load.thy ===== *)
theory Store_Load
  imports Store_Inv
begin

text \<open>
  Loading snapshot records (\<open>Store.load_record\<close>): a record taken from an entry rebuilds a value
  with the same contents, and loading the records of a keyspace into an empty store rebuilds that
  keyspace.
\<close>

section \<open>Rebuilding a value\<close>

text \<open>What a record of a well-formed entry looks like.\<close>

fun payload_ok :: "payload \<Rightarrow> bool" where
  "payload_ok (PString _) = True"
| "payload_ok (PList _) = True"
| "payload_ok (PHash ps) = distinct (map fst ps)"
| "payload_ok (PSet ms) = distinct ms"
| "payload_ok (PZset ps) \<longleftrightarrow> distinct (map fst ps) \<and> NaN \<notin> snd ` set ps \<and> sorted (map prod.swap ps)"

text \<open>A payload from outside (\<open>RESTORE\<close>) may also repeat members; only NaN scores are excluded.\<close>

fun payload_scores :: "payload \<Rightarrow> bool" where
  "payload_scores (PZset ps) \<longleftrightarrow> NaN \<notin> snd ` set ps"
| "payload_scores _ = True"

fun payload_empty :: "payload \<Rightarrow> bool" where
  "payload_empty (PString _) = False"
| "payload_empty (PList xs) = (xs = [])"
| "payload_empty (PHash ps) = (ps = [])"
| "payload_empty (PSet ms) = (ms = [])"
| "payload_empty (PZset ps) = (ps = [])"

lemma hash_load_ok: "hash_ok h \<Longrightarrow> hash_ok (hash_load ps h)"
  by (induction ps h rule: hash_load.induct) (auto intro: hash_ok_set)

lemma hash_load_fields:
  "hash_ok h \<Longrightarrow> distinct (map fst (hv_fields h @ ps)) \<Longrightarrow> hv_fields (hash_load ps h) = hv_fields h @ ps"
proof (induction ps h rule: hash_load.induct)
  case (2 f v ps h)
  have "dict_get (hv_fields h) f = None" using "2.prems" by (auto simp: map_of_eq_None_iff)
  then have "hv_fields (snd (hash_set f v h)) = hv_fields h @ [(f, v)]"
    by (simp add: hash_set_def Let_def dict_set_new)
  then show ?case using 2 hash_ok_set [of h f v] by simp
qed simp

lemma set_load_ok: "set_ok v \<Longrightarrow> set_ok (set_load ms v)"
  by (induction ms v rule: set_load.induct) (auto intro: set_ok_add)

lemma set_load_iter:
  "set_ok v \<Longrightarrow> distinct (set_iter v @ ms) \<Longrightarrow> set_iter (set_load ms v) = set_iter v @ ms"
proof (induction ms v rule: set_load.induct)
  case (2 m ms v)
  have "set_iter (snd (set_add m v)) = set_iter v @ [m]"
    using "2.prems" by (auto simp: set_add_def set_iter_def set_ok_def ks.contains_list ks_items_add)
  then show ?case using 2 set_ok_add [of v m] by simp
qed simp

lemma zset_load_spec:
  "zset_inv z \<Longrightarrow> NaN \<notin> snd ` set ps \<Longrightarrow> case zset_load ps z r of (z', r') \<Rightarrow> zset_inv z' \<and>
     (distinct (map fst ps) \<longrightarrow> fst ` set ps \<inter> snd ` set (zs_elems z) = {} \<longrightarrow>
      set (zs_elems z') = set (zs_elems z) \<union> set (map prod.swap ps))"
proof (induction ps z r rule: zset_load.induct)
  case (2 m sc ps z r)
  obtain b z1 r1 where add: "zset_add m sc r z = (b, z1, r1)" by (cases "zset_add m sc r z")
  have sc: "sc \<noteq> NaN" using "2.prems" by auto
  have z1: "zset_inv z1" "zs_elems z1 = insort (sc, m) (filter (\<lambda>e. snd e \<noteq> m) (zs_elems z))"
    using zset_add_spec [OF "2.prems"(1) sc add] by auto
  obtain z2 r2 where ld: "zset_load ps z1 r1 = (z2, r2)" by force
  have IH: "zset_inv z2" "distinct (map fst ps) \<Longrightarrow> fst ` set ps \<inter> snd ` set (zs_elems z1) = {} \<Longrightarrow>
      set (zs_elems z2) = set (zs_elems z1) \<union> set (map prod.swap ps)"
    using "2.IH" [OF add [symmetric] refl z1(1)] "2.prems"(2) ld by auto
  have "set (zs_elems z2) = set (zs_elems z) \<union> set (map prod.swap ((m, sc) # ps))"
    if "distinct (map fst ((m, sc) # ps))" "fst ` set ((m, sc) # ps) \<inter> snd ` set (zs_elems z) = {}"
  proof -
    have "filter (\<lambda>e. snd e \<noteq> m) (zs_elems z) = zs_elems z" using that by (intro filter_member_absent) auto
    then have s1: "set (zs_elems z1) = insert (sc, m) (set (zs_elems z))" by (simp add: z1(2) set_insort_key)
    then have "fst ` set ps \<inter> snd ` set (zs_elems z1) = {}" using that by auto
    then show ?thesis using IH(2) that s1 by simp
  qed
  then show ?case using IH(1) add ld by simp
qed simp

lemma load_payload_value_ok: "payload_scores p \<Longrightarrow> value_ok (fst (load_payload p r))"
proof (cases p)
  case (PZset ps)
  assume "payload_scores p"
  then show ?thesis using zset_load_spec [OF zset_inv_init, of ps r] PZset by (auto split: prod.split)
qed (auto intro: list_ok_init hash_load_ok hash_ok_init set_load_ok set_ok_init)

lemma payload_ok_scores: "payload_ok p \<Longrightarrow> payload_scores p"
  by (cases p) auto

lemma zset_items_swap: "zset_items z = map prod.swap (zs_elems z)"
  by (auto simp: zset_items_elems)

lemma value_payload_ok: "value_ok v \<Longrightarrow> payload_ok (value_payload v)"
proof (cases v)
  case (VZset z)
  assume "value_ok v"
  then have z: "zset_inv z" using VZset by simp
  have "distinct (map fst (zset_items z))"
    using sl.members [OF zset_inv_list [OF z]] by (simp add: zset_items_swap comp_def)
  moreover have "NaN \<notin> snd ` set (zset_items z)"
    using sl.no_nan [OF zset_inv_list [OF z]] by (force simp: zset_items_swap)
  moreover have "sorted (map prod.swap (zset_items z))"
    using zset_elems_sorted [OF z] by (simp add: zset_items_swap comp_def)
  ultimately show ?thesis using VZset by simp
qed (auto simp: hash_ok_def dict_ok_def hash_items_def set_iter_distinct)

text \<open>Loading a payload and taking the payload of the result gives the same payload.\<close>

lemma load_payload_roundtrip:
  assumes "payload_ok p"
  shows "value_payload (fst (load_payload p r)) = p"
proof (cases p)
  case (PZset ps)
  obtain z r' where z: "zset_load ps zset_init r = (z, r')" by force
  have e0: "zs_elems zset_init = []" by (simp add: zset_init_def sl.empty)
  have zi: "zset_inv z" "set (zs_elems z) = set (map prod.swap ps)"
    using zset_load_spec [OF zset_inv_init, of ps r] assms PZset z e0 by auto
  have "sorted (zs_elems z)" "distinct (zs_elems z)" using zset_elems_sorted [OF zi(1)] by auto
  moreover have "sorted (map prod.swap ps)" "distinct (map prod.swap ps)"
    using assms PZset by (auto simp: distinct_map intro: inj_onI)
  ultimately have "zs_elems z = map prod.swap ps" using zi(2) by (intro sorted_distinct_set_unique) auto
  then show ?thesis using PZset z by (simp add: zset_items_swap)
next
  case (PHash ps)
  then show ?thesis using assms hash_load_fields [OF hash_ok_init, of ps] by (simp add: hash_items_def hash_init_def)
next
  case (PSet ms)
  then show ?thesis using assms set_load_iter [OF set_ok_init, of ms] by (simp add: set_init_def set_iter_def)
qed (simp_all add: hash_items_def)

lemma load_payload_empty: "value_empty (fst (load_payload p r)) \<longleftrightarrow> payload_empty p" if "payload_ok p"
proof -
  have "value_empty v \<longleftrightarrow> payload_empty (value_payload v)" if "value_ok v" for v
    using that by (cases v) (auto simp: list_len_def hash_len_def set_len_def hash_items_def set_iter_def ks_len_def
        zset_len_elems zset_items_swap)
  from this [OF load_payload_value_ok [OF payload_ok_scores [OF that]]]
  show ?thesis using load_payload_roundtrip [OF that] by simp
qed

section \<open>Loading records\<close>

lemma load_record_data:
  assumes "\<not> st_expiry_enabled s"
  shows "st_data (load_record (k, p, x) s) =
    dict_set k \<lparr>e_value = fst (load_payload p (st_sl_rng s)), e_expires = x,
        e_size = entry_size k (fst (load_payload p (st_sl_rng s))), e_copied = st_epoch s\<rparr> (st_data s)"
proof -
  obtain v r where v: "load_payload p (st_sl_rng s) = (v, r)" by force
  define s1 where "s1 = store_set k v False (s\<lparr>st_sl_rng := r\<rparr>)"
  have d: "st_data s1 = dict_set k \<lparr>e_value = v, e_expires = None, e_size = entry_size k v, e_copied = st_epoch s\<rparr> (st_data s)"
    by (simp add: s1_def store_set_data)
  have e: "st_expiry_enabled s1 = st_expiry_enabled s"
    by (auto simp: s1_def store_set_def store_insert_def Let_def split: option.split)
  have eq: "load_record (k, p, x) s = (case x of None \<Rightarrow> s1 | Some t \<Rightarrow> snd (store_set_expiry k t s1))"
    by (simp add: load_record_def v s1_def Let_def split: option.split)
  show ?thesis
  proof (cases x)
    case None
    then show ?thesis using d eq v by simp
  next
    case (Some t)
    have "store_lookup k s1 = (dict_get (st_data s1) k, s1)"
      using e assms by (simp add: store_lookup_def d)
    then show ?thesis using d eq v Some by (simp add: store_set_expiry_def)
  qed
qed

lemma load_record_frame:
  "st_expiry_enabled (load_record rec s) = st_expiry_enabled s" "st_epoch (load_record rec s) = st_epoch s"
proof -
  have set: "st_expiry_enabled (store_set k v False s') = st_expiry_enabled s'" "st_epoch (store_set k v False s') = st_epoch s'"
    for k v and s' :: store
    by (auto simp: store_set_def store_insert_def Let_def split: option.split)
  have exp: "st_expiry_enabled (snd (store_set_expiry k t s')) = st_expiry_enabled s'"
    "st_epoch (snd (store_set_expiry k t s')) = st_epoch s'" for k t and s' :: store
    by (simp_all add: store_set_expiry_def case_prod_beta split: option.split)
  show "st_expiry_enabled (load_record rec s) = st_expiry_enabled s" "st_epoch (load_record rec s) = st_epoch s"
    by (auto simp: load_record_def Let_def set exp split: prod.split option.split)
qed

lemma wf_load_record:
  assumes "store_wf s" "payload_scores p"
  shows "store_wf (load_record (k, p, x) s)"
proof -
  obtain v r where v: "load_payload p (st_sl_rng s) = (v, r)" by force
  have "value_ok v" using load_payload_value_ok [OF assms(2), of "st_sl_rng s"] v by simp
  then have "store_wf (store_set k v False (s\<lparr>st_sl_rng := r\<rparr>))" using assms(1) by (intro wf_set) simp_all
  then show ?thesis using v by (auto simp: load_record_def Let_def wf_set_expiry split: option.split)
qed

lemma settled_load_record:
  assumes "\<not> st_expiry_enabled s" "settled K s"
  shows "settled (insert k K) (load_record (k, p, x) s)"
    and "payload_ok p \<Longrightarrow> \<not> payload_empty p \<Longrightarrow> settled K (load_record (k, p, x) s)"
  using assms(2) load_payload_empty by (auto simp: settled_def load_record_data [OF assms(1)])

text \<open>
  Loading records with different keys into an empty store that does not expire: the store then
  holds exactly these records, in this order.
\<close>

definition records_ok :: "snapshot_record list \<Rightarrow> bool" where
  "records_ok recs \<longleftrightarrow> distinct (map fst recs) \<and> (\<forall>(k, p, x) \<in> set recs. payload_ok p \<and> \<not> payload_empty p)"

lemma fold_load_records:
  assumes "\<not> st_expiry_enabled s" "store_wf s" "settled {} s"
    "records_ok (map (\<lambda>(k, e). entry_record k e) (st_data s) @ recs)"
  shows "store_wf (fold load_record recs s) \<and> settled {} (fold load_record recs s)
    \<and> map (\<lambda>(k, e). entry_record k e) (st_data (fold load_record recs s)) =
        map (\<lambda>(k, e). entry_record k e) (st_data s) @ recs"
  using assms
proof (induction recs arbitrary: s)
  case (Cons rec recs)
  obtain k p x where rec: "rec = (k, p, x)" by (cases rec)
  let ?s = "load_record rec s"
  have p: "payload_ok p" "\<not> payload_empty p" using Cons.prems(4) by (auto simp: rec records_ok_def)
  have "k \<notin> fst ` set (st_data s)"
    using Cons.prems(4) by (auto simp: rec records_ok_def entry_record_def image_iff)
  then have "dict_get (st_data s) k = None" by (simp add: map_of_eq_None_iff)
  then have d: "map (\<lambda>(k, e). entry_record k e) (st_data ?s) = map (\<lambda>(k, e). entry_record k e) (st_data s) @ [rec]"
    using load_payload_roundtrip [OF p(1)]
    by (simp add: rec load_record_data [OF Cons.prems(1)] dict_set_new entry_record_def)
  have "store_wf ?s" "settled {} ?s" "\<not> st_expiry_enabled ?s"
    using Cons.prems wf_load_record [OF _ payload_ok_scores [OF p(1)]] settled_load_record(2) [OF Cons.prems(1) _ p]
    by (simp_all add: rec load_record_frame)
  then show ?case using Cons.IH [of ?s] Cons.prems(4) d by simp
qed simp

lemma snapshot_records_ok:
  assumes "store_wf s" "settled {} s"
  shows "records_ok (store_snapshot s)"
proof -
  have ok: "payload_ok (value_payload (e_value e)) \<and> \<not> payload_empty (value_payload (e_value e))"
    if "get_entry s k = Some e" for k e
  proof -
    have v: "value_ok (e_value e)" "\<not> value_empty (e_value e)"
      using that assms by (auto simp: store_wf_def settled_def)
    have "payload_empty (value_payload v) \<longleftrightarrow> value_empty v" if "value_ok v" for v
      using load_payload_empty [OF value_payload_ok [OF that]] that
      by (cases v) (auto simp: list_len_def hash_len_def set_len_def hash_items_def set_iter_def ks_len_def
        zset_len_elems zset_items_swap)
    then show ?thesis using v value_payload_ok by simp
  qed
  have d: "dict_ok (st_data s)" using assms by (simp add: store_wf_def)
  have "distinct (map fst (store_snapshot s))"
  proof -
    have "map fst (store_snapshot s) = map fst (filter (\<lambda>(k, e). \<not> is_expired e (st_now s)) (st_data s))"
      by (auto simp: store_snapshot_def entry_record_def)
    then show ?thesis using d by (simp add: dict_ok_def distinct_map_filter)
  qed
  then show ?thesis using ok dict_mem_iff [OF d]
    by (auto simp: records_ok_def store_snapshot_def entry_record_def)
qed

end
