(* ===== verification/Handlers.thy ===== *)
theory Handlers
  imports Cmd_Server Store_Snapshot Store_Load
begin

text \<open>
  What a handler may do to the keyspace.  The interface between the handlers and the store is a
  contract: a property of the store that every method keeps.  From it alone it follows that every
  handler keeps the property, whatever the arguments are and also when the handler raises halfway.
\<close>

section \<open>The store under the monad\<close>

lemma send_effects_store [simp]: "en_store (snd (send_effects ws e)) = en_store e"
proof (induction ws arbitrary: e)
  case (Cons w ws)
  have "en_store (snd (send_effect w e)) = en_store e" for w e
    by (auto simp: send_effect_def Let_def bnd_def log_append_def feed_append_def split: option.split sum.split prod.split)
  then show ?case using Cons by (auto simp: bnd_def split: sum.split prod.split) (metis snd_conv)+
qed (simp add: ret_def)

lemma hand_over_store [simp]: "en_store (snd (hand_over e)) = en_store e"
  by (simp add: hand_over_def Let_def)

lemma deliver_store [simp]: "en_store (snd (deliver rs e)) = en_store e"
proof (induction rs arbitrary: e)
  case (Cons r rs)
  have "en_store (snd (deliver_one r e)) = en_store e" for r e
    by (auto simp: deliver_one_def Let_def gc_release_def split: option.split prod.split snapshot_target.split)
  then show ?case using Cons by (auto simp: bnd_def split: sum.split prod.split) (metis snd_conv)+
qed (simp add: ret_def)

lemma on_store_store [simp]: "en_store (snd (on_store f e)) = snd (f (en_store e))"
  by (auto simp: on_store_def bnd_def ret_def split: sum.split prod.split)
    (metis deliver_store hand_over_store engine.select_convs(1) engine.surjective engine.update_convs(1) snd_conv)+

lemma on_store_result: "fst (on_store f e) = Inr x \<Longrightarrow> x = fst (f (en_store e))"
  by (auto simp: on_store_def bnd_def ret_def split: sum.splits prod.splits)

lemma on_store_eq:
  assumes "on_store f e = (r, e')"
  shows "en_store e' = snd (f (en_store e))" "r = Inr x \<Longrightarrow> x = fst (f (en_store e))"
  using on_store_store [of f e] on_store_result [of f e x] assms by simp_all

lemma on_store_sum_eq:
  assumes "on_store_sum f e = (r, e')"
  shows "en_store e' = snd (f (en_store e))" "r = Inr x \<Longrightarrow> fst (f (en_store e)) = Inr x"
proof -
  obtain r1 e1 where 1: "on_store f e = (r1, e1)" by force
  with assms have r: "e' = e1" "r = (case r1 of Inl y \<Rightarrow> Inl y | Inr v \<Rightarrow> map_sum Raised id v)"
    by (auto simp: on_store_sum_def bnd_def lift_def split: sum.splits)
  then show "en_store e' = snd (f (en_store e))" using on_store_eq(1) [OF 1] by simp
  assume "r = Inr x"
  then have "r1 = Inr (Inr x)" using r(2) by (cases r1; simp; cases "projr r1"; auto split: sum.splits)
  then show "fst (f (en_store e)) = Inr x" using on_store_eq(2) [OF 1] by simp
qed

section \<open>Keeping a property\<close>

definition keeps :: "(store \<Rightarrow> bool) \<Rightarrow> 'a cmd \<Rightarrow> bool" where
  "keeps P m \<longleftrightarrow> (\<forall>e. P (en_store e) \<longrightarrow> P (en_store (snd (m e))))"

named_theorems keeps_intro

lemma keepsI: "(\<And>e. P (en_store e) \<Longrightarrow> P (en_store (snd (m e)))) \<Longrightarrow> keeps P m"
  by (simp add: keeps_def)

lemma keepsD: "keeps P m \<Longrightarrow> P (en_store e) \<Longrightarrow> m e = (r, e') \<Longrightarrow> P (en_store e')"
  by (metis keeps_def snd_conv)

lemma keeps_bnd:
  assumes "keeps P m" "\<And>e x e'. P (en_store e) \<Longrightarrow> m e = (Inr x, e') \<Longrightarrow> keeps P (f x)"
  shows "keeps P (bnd m f)"
proof (rule keepsI)
  fix e :: engine assume P: "P (en_store e)"
  obtain r e' where m: "m e = (r, e')" by force
  have "P (en_store e')" by (rule keepsD [OF assms(1) P m])
  then show "P (en_store (snd (bnd m f e)))"
    using assms(2) [OF P, of _ e'] m by (auto simp: bnd_def keeps_def split: sum.split)
qed

lemma keeps_pure [keeps_intro]: "keeps P (ret x)" "keeps P (throw y)" "keeps P (lift r)" "keeps P (asks g)"
  by (simp_all add: keeps_def ret_def throw_def lift_def asks_def)

lemma keeps_bnd_lift [keeps_intro]: "(\<And>x. r = Inr x \<Longrightarrow> keeps P (f x)) \<Longrightarrow> keeps P (bnd (lift r) f)"
  by (rule keeps_bnd) (auto simp: lift_def keeps_def)

lemma keeps_bnd_ret [keeps_intro]: "keeps P (f x) \<Longrightarrow> keeps P (bnd (ret x) f)"
  by (simp add: keeps_def bnd_def ret_def)

lemma keeps_bnd_throw [keeps_intro]: "keeps P (bnd (throw x) f)"
  by (simp add: keeps_def bnd_def throw_def)

lemma keeps_bnd_asks [keeps_intro]: "(\<And>x. keeps P (f x)) \<Longrightarrow> keeps P (bnd (asks g) f)"
  by (simp add: keeps_def bnd_def asks_def)

lemma keeps_bnd_assoc [keeps_intro]: "keeps P (bnd m (\<lambda>x. bnd (f x) g)) \<Longrightarrow> keeps P (bnd (bnd m f) g)"
proof -
  have "bnd (bnd m f) g = bnd m (\<lambda>x. bnd (f x) g)"
    by (rule ext) (auto simp: bnd_def split: sum.split prod.split)
  then show "keeps P (bnd m (\<lambda>x. bnd (f x) g)) \<Longrightarrow> keeps P (bnd (bnd m f) g)" by simp
qed

lemma keeps_if [keeps_intro]: "(b \<Longrightarrow> keeps P m) \<Longrightarrow> (\<not> b \<Longrightarrow> keeps P n) \<Longrightarrow> keeps P (if b then m else n)"
  by simp

lemma keeps_bnd_if [keeps_intro]:
  "(b \<Longrightarrow> keeps P (bnd m f)) \<Longrightarrow> (\<not> b \<Longrightarrow> keeps P (bnd n f)) \<Longrightarrow> keeps P (bnd (if b then m else n) f)"
  by simp

lemma keeps_option [keeps_intro]:
  "(v = None \<Longrightarrow> keeps P m) \<Longrightarrow> (\<And>x. v = Some x \<Longrightarrow> keeps P (n x)) \<Longrightarrow> keeps P (case v of None \<Rightarrow> m | Some x \<Rightarrow> n x)"
  by (simp split: option.split)

lemma keeps_bnd_option [keeps_intro]:
  "(v = None \<Longrightarrow> keeps P (bnd m f)) \<Longrightarrow> (\<And>x. v = Some x \<Longrightarrow> keeps P (bnd (n x) f)) \<Longrightarrow>
   keeps P (bnd (case v of None \<Rightarrow> m | Some x \<Rightarrow> n x) f)"
  by (simp split: option.split)

lemma keeps_prod [keeps_intro]: "(\<And>a b. p = (a, b) \<Longrightarrow> keeps P (g a b)) \<Longrightarrow> keeps P (case p of (a, b) \<Rightarrow> g a b)"
  by (cases p) simp

lemma keeps_list [keeps_intro]:
  "(xs = [] \<Longrightarrow> keeps P m) \<Longrightarrow> (\<And>y ys. xs = y # ys \<Longrightarrow> keeps P (n y ys)) \<Longrightarrow>
   keeps P (case xs of [] \<Rightarrow> m | y # ys \<Rightarrow> n y ys)"
  by (simp split: list.split)

lemma keeps_on_store [keeps_intro]: "(\<And>s. P s \<Longrightarrow> P (snd (f s))) \<Longrightarrow> keeps P (on_store f)"
  by (rule keepsI) simp

lemma keeps_bnd_on_store [keeps_intro]:
  "(\<And>s. P s \<Longrightarrow> P (snd (f s))) \<Longrightarrow> (\<And>s. P s \<Longrightarrow> keeps P (g (fst (f s)))) \<Longrightarrow> keeps P (bnd (on_store f) g)"
  by (rule keeps_bnd [OF keeps_on_store]) (auto dest: on_store_eq(2))

lemma keeps_store_do [keeps_intro]: "(\<And>s. P s \<Longrightarrow> P (f s)) \<Longrightarrow> keeps P (store_do f)"
  unfolding store_do_def by (rule keeps_on_store) simp

lemma keeps_bnd_store_do [keeps_intro]:
  "(\<And>s. P s \<Longrightarrow> P (f s)) \<Longrightarrow> keeps P (g ()) \<Longrightarrow> keeps P (bnd (store_do f) g)"
  unfolding store_do_def by (rule keeps_bnd_on_store) simp_all

lemma keeps_on_store_sum:
  "(\<And>s. P s \<Longrightarrow> P (snd (f s))) \<Longrightarrow> keeps P (on_store_sum f)"
  by (rule keepsI) (metis on_store_sum_eq(1) prod.collapse)

lemma keeps_bnd_on_store_sum:
  assumes "\<And>s. P s \<Longrightarrow> P (snd (f s))" "\<And>s x. P s \<Longrightarrow> fst (f s) = Inr x \<Longrightarrow> keeps P (g x)"
  shows "keeps P (bnd (on_store_sum f) g)"
  by (rule keeps_bnd [OF keeps_on_store_sum]) (auto intro: assms dest: on_store_sum_eq(2))

lemma keeps_map_cmd: "(\<And>x. x \<in> set xs \<Longrightarrow> keeps P (f x)) \<Longrightarrow> keeps P (map_cmd f xs)"
proof (induction xs)
  case (Cons x xs)
  then show ?case by (auto intro!: keeps_bnd keeps_pure)
qed (simp add: keeps_pure)

lemma keeps_bnd_map_cmd [keeps_intro]:
  "(\<And>x. x \<in> set xs \<Longrightarrow> keeps P (f x)) \<Longrightarrow> (\<And>ys. keeps P (g ys)) \<Longrightarrow> keeps P (bnd (map_cmd f xs) g)"
  by (rule keeps_bnd [OF keeps_map_cmd])

lemma keeps_filter_cmd: "(\<And>x. x \<in> set xs \<Longrightarrow> keeps P (f x)) \<Longrightarrow> keeps P (filter_cmd f xs)"
proof (induction xs)
  case (Cons x xs)
  then show ?case by (auto intro!: keeps_bnd keeps_pure)
qed (simp add: keeps_pure)

lemma keeps_bnd_filter_cmd [keeps_intro]:
  "(\<And>x. x \<in> set xs \<Longrightarrow> keeps P (f x)) \<Longrightarrow> (\<And>ys. keeps P (g ys)) \<Longrightarrow> keeps P (bnd (filter_cmd f xs) g)"
  by (rule keeps_bnd [OF keeps_filter_cmd])

lemma key_arg_Inr: "key_arg a = Inr k \<longleftrightarrow> a = SArg k"
  by (auto simp: key_arg_def split: arg.split)

section \<open>Reading handlers\<close>

text \<open>The part of the contract that reading needs: a lookup may expire the key, an access informs the policy.\<close>

locale keyspace =
  fixes I :: "store \<Rightarrow> bool"
  assumes lookup: "I s \<Longrightarrow> I (snd (store_lookup k s))"
    and access: "I s \<Longrightarrow> I (store_access k s)"
    and hits: "I s \<Longrightarrow> I (s\<lparr>st_hits := n\<rparr>)"
    and misses: "I s \<Longrightarrow> I (s\<lparr>st_misses := n\<rparr>)"
    and draws: "I s \<Longrightarrow> I (s\<lparr>st_rng := r\<rparr>)"
    and effects: "I s \<Longrightarrow> I (s\<lparr>st_out := ws\<rparr>)"
    and wf: "I s \<Longrightarrow> store_wf s"
begin

lemma get: "I s \<Longrightarrow> I (snd (store_get k s))"
  using lookup [of s k] by (auto simp: store_get_def intro!: access hits misses split: prod.split option.split)

lemma read: "I s \<Longrightarrow> I (snd (store_read kind k s))"
  using get [of s k] by (auto simp: store_read_def split: prod.split option.split)

lemma read_value:
  assumes "I s" "fst (store_read kind k s) = Inr (Some x)"
  shows "\<exists>v. value_ok v \<and> kind v = Some x"
proof -
  obtain eo s1 where g: "store_get k s = (eo, s1)" by force
  with assms(2) obtain e where e: "eo = Some e" "kind (e_value e) = Some x"
    by (auto simp: store_read_def split: option.splits)
  have "get_entry s k = Some e"
    using g e(1) by (cases rule: lookup_cases [of k s]) (auto simp: store_get_def)
  then have "value_ok (e_value e)" using wf [OF assms(1)] wf_value by blast
  with e(2) show ?thesis by blast
qed

lemma keeps_propagate [keeps_intro]: "keeps I (propagate c args)"
  by (rule keepsI) (auto simp: propagate_def intro: effects)

lemma keeps_bnd_propagate [keeps_intro]: "keeps I (g ()) \<Longrightarrow> keeps I (bnd (propagate c args) g)"
  by (rule keeps_bnd [OF keeps_propagate]) simp

lemma keeps_bnd_peek [keeps_intro]: "(\<And>x. keeps I (g x)) \<Longrightarrow> keeps I (bnd (peek k) g)"
  unfolding peek_def store_peek_def by (intro keeps_intro lookup)

lemma keeps_exists [keeps_intro]: "keeps I (exists_key k)"
  unfolding exists_key_def by (intro keeps_intro)

lemma keeps_bnd_exists [keeps_intro]: "(\<And>x. keeps I (g x)) \<Longrightarrow> keeps I (bnd (exists_key k) g)"
  unfolding exists_key_def by (intro keeps_intro)

lemma keeps_bnd_now_ms [keeps_intro]: "(\<And>x. keeps I (g x)) \<Longrightarrow> keeps I (bnd now_ms g)"
  unfolding now_ms_def by (intro keeps_intro)

lemma keeps_bnd_read:
  assumes "\<And>v. (\<And>x. v = Some x \<Longrightarrow> \<exists>u. value_ok u \<and> kind u = Some x) \<Longrightarrow> keeps I (g v)"
  shows "keeps I (bnd (on_store_sum (store_read kind k)) g)"
  by (rule keeps_bnd_on_store_sum) (auto intro: read assms dest: read_value)

lemma keeps_bnd_get_str [keeps_intro]: "(\<And>v. keeps I (g v)) \<Longrightarrow> keeps I (bnd (get_str k) g)"
  unfolding get_str_def by (rule keeps_bnd_read)

lemma keeps_bnd_read_list [keeps_intro]:
  "(\<And>v. (\<And>x. v = Some x \<Longrightarrow> list_ok x) \<Longrightarrow> keeps I (g v)) \<Longrightarrow> keeps I (bnd (read_list k) g)"
  unfolding read_list_def by (rule keeps_bnd_read) (metis as_list.elims option.distinct(1) option.inject value_ok.simps(2))

lemma keeps_bnd_read_hash [keeps_intro]:
  "(\<And>v. (\<And>x. v = Some x \<Longrightarrow> hash_ok x) \<Longrightarrow> keeps I (g v)) \<Longrightarrow> keeps I (bnd (read_hash k) g)"
  unfolding read_hash_def by (rule keeps_bnd_read) (metis as_hash.elims option.distinct(1) option.inject value_ok.simps(3))

lemma keeps_bnd_read_set [keeps_intro]:
  "(\<And>v. (\<And>x. v = Some x \<Longrightarrow> set_ok x) \<Longrightarrow> keeps I (g v)) \<Longrightarrow> keeps I (bnd (read_set k) g)"
  unfolding read_set_def by (rule keeps_bnd_read) (metis as_set.elims option.distinct(1) option.inject value_ok.simps(4))

lemma keeps_bnd_read_zset [keeps_intro]:
  "(\<And>v. (\<And>x. v = Some x \<Longrightarrow> zset_inv x) \<Longrightarrow> keeps I (g v)) \<Longrightarrow> keeps I (bnd (read_zset k) g)"
  unfolding read_zset_def by (rule keeps_bnd_read) (metis as_zset.elims option.distinct(1) option.inject value_ok.simps(5))

lemma keeps_bnd_sample [keeps_intro]: "(\<And>x. keeps I (g x)) \<Longrightarrow> keeps I (bnd (sample_set n v) g)"
  unfolding sample_set_def by (intro keeps_intro) (auto intro: draws split: prod.split)

lemma keeps_choices: "keeps I (choices n xs)"
  by (induction n) (auto intro!: keeps_intro keeps_bnd draws split: prod.split)

lemma keeps_bnd_choices [keeps_intro]: "(\<And>x. keeps I (g x)) \<Longrightarrow> keeps I (bnd (choices n xs) g)"
  by (rule keeps_bnd [OF keeps_choices])

lemma iter: "I s \<Longrightarrow> I (snd (iter_loop ks s))"
proof (induction ks arbitrary: s)
  case (Cons k ks)
  then show ?case using Cons.IH [OF lookup [OF Cons.prems, of k]] by (auto split: prod.split)
qed simp

lemma keeps_bnd_iter [keeps_intro]: "(\<And>x. keeps I (g x)) \<Longrightarrow> keeps I (bnd (on_store iter_keys) g)"
  by (intro keeps_intro) (simp_all add: iter_keys_def iter)

lemma keeps_bnd_record [keeps_intro]: "(\<And>x. keeps I (g x)) \<Longrightarrow> keeps I (bnd (on_store (store_record k)) g)"
proof (rule keeps_bnd_on_store)
  show "I (snd (store_record k s))" if "I s" for s
    using lookup [OF that, of k] by (auto simp: store_record_def split: prod.split option.split)
qed

lemma keeps_mget [keeps_intro]: "keeps I (mget_cmd args)"
  unfolding mget_cmd_def mget_one_def by (intro keeps_intro get)

lemma keeps_sets_of [keeps_intro]: "(\<And>x. keeps I (g x)) \<Longrightarrow> keeps I (bnd (sets_of args) g)"
  unfolding sets_of_def by (intro keeps_intro)

lemma keeps_range [keeps_intro]: "keeps I (range_cmd k a b c d l w)"
  unfolding range_cmd_def by (intro keeps_intro)

lemma keeps_bnd_ttl [keeps_intro]: "(\<And>x. keeps I (g x)) \<Longrightarrow> keeps I (bnd (ttl_ms args) g)"
  unfolding ttl_ms_def by (intro keeps_intro)

lemmas string_reads = get_cmd_def strlen_cmd_def byte_length_def

lemma keeps_string_reads: "keeps I (get_cmd args)" "keeps I (strlen_cmd args)"
  unfolding string_reads by (intro keeps_intro)+

lemma keeps_list_reads: "keeps I (llen_cmd args)" "keeps I (lrange_cmd args)" "keeps I (lindex_cmd args)"
  unfolding llen_cmd_def lrange_cmd_def lindex_cmd_def by (intro keeps_intro)+

lemma keeps_hash_reads:
  "keeps I (hget_cmd args)" "keeps I (hmget_cmd args)" "keeps I (hgetall_cmd args)" "keeps I (hkeys_cmd args)"
  "keeps I (hvals_cmd args)" "keeps I (hlen_cmd args)" "keeps I (hexists_cmd args)"
  unfolding hget_cmd_def hmget_cmd_def hgetall_cmd_def hkeys_cmd_def hvals_cmd_def hlen_cmd_def hexists_cmd_def hash_reply_def
  by (intro keeps_intro)+

lemma keeps_set_reads:
  "keeps I (smembers_cmd args)" "keeps I (sismember_cmd args)" "keeps I (scard_cmd args)"
  "keeps I (srandmember_cmd args)" "keeps I (sinter_cmd args)" "keeps I (sunion_cmd args)" "keeps I (sdiff_cmd args)"
  unfolding smembers_cmd_def sismember_cmd_def scard_cmd_def srandmember_cmd_def sinter_cmd_def sunion_cmd_def
    sdiff_cmd_def listed_def
  by (intro keeps_intro)+

lemma keeps_zset_reads:
  "keeps I (zscore_cmd args)" "keeps I (zcard_cmd args)" "keeps I (zcount_cmd args)" "keeps I (zrank_cmd args)"
  "keeps I (zrevrank_cmd args)" "keeps I (zrange_cmd args)" "keeps I (zrevrange_cmd args)"
  "keeps I (zrangebyscore_cmd args)" "keeps I (zrevrangebyscore_cmd args)"
  unfolding zscore_cmd_def zcard_cmd_def zcount_cmd_def zrank_cmd_def zrevrank_cmd_def rank_cmd_def zrange_cmd_def
    zrevrange_cmd_def zrangebyscore_cmd_def zrevrangebyscore_cmd_def range_by_score_cmd_def asserted_def
  by (intro keeps_intro)+

lemma keeps_keyspace_reads:
  "keeps I (exists_cmd args)" "keeps I (type_cmd args)" "keeps I (keys_cmd args)" "keeps I (dbsize_cmd args)"
  "keeps I (pttl_cmd args)" "keeps I (ttl_cmd args)" "keeps I (dump_cmd args)"
  unfolding exists_cmd_def type_cmd_def keys_cmd_def dbsize_cmd_def pttl_cmd_def ttl_cmd_def dump_cmd_def
  by (intro keeps_intro)+

lemma keeps_server_reads:
  "keeps I (ping_cmd args)" "keeps I (echo_cmd args)" "keeps I (time_cmd args)" "keeps I (select_cmd args)"
  "keeps I (hello_cmd args)" "keeps I (client_cmd args)" "keeps I (command_cmd args)" "keeps I (config_cmd args)"
  "keeps I (info_cmd args)" "keeps I (lastsave_cmd args)"
  unfolding ping_cmd_def echo_cmd_def time_cmd_def select_cmd_def hello_cmd_def client_cmd_def command_cmd_def
    config_cmd_def info_cmd_def lastsave_cmd_def Let_def
  by (intro keeps_intro)+

end

section \<open>Well-formed results\<close>

lemma pair_keys: "pair_args key_arg str_arg as = Inr ps \<Longrightarrow> (k, v) \<in> set ps \<Longrightarrow> SArg k \<in> set (every_nth 2 as)"
proof (induction as arbitrary: ps rule: induct_list012)
  case (3 a b as)
  then show ?case by (auto simp: key_arg_Inr split: sum.splits)
qed auto

lemma remove_all_ok:
  assumes "P c" "\<And>x c. P c \<Longrightarrow> P (snd (rm x c))"
  shows "P (snd (remove_all rm xs c))"
  using assms(1)
proof (induction xs arbitrary: c)
  case (Cons x xs)
  then show ?case using Cons.IH [OF assms(2) [OF Cons.prems, of x]] by (auto split: prod.split)
qed simp

lemma remove_all_ok_eq:
  "remove_all rm xs c = (hits, c') \<Longrightarrow> P c \<Longrightarrow> (\<And>x c. P c \<Longrightarrow> P (snd (rm x c))) \<Longrightarrow> P c'"
  using remove_all_ok [of P c rm xs] by simp

lemmas removals_ok =
  remove_all_ok [of hash_ok _ hash_delete, OF _ hash_ok_delete] remove_all_ok_eq [of hash_delete _ _ _ _ hash_ok, OF _ _ hash_ok_delete]
  remove_all_ok [of set_ok _ set_add, OF _ set_ok_add] remove_all_ok_eq [of set_add _ _ _ _ set_ok, OF _ _ set_ok_add]
  remove_all_ok [of set_ok _ set_remove, OF _ set_ok_remove] remove_all_ok_eq [of set_remove _ _ _ _ set_ok, OF _ _ set_ok_remove]
  remove_all_ok_eq [of zset_remove _ _ _ _ zset_inv, OF _ _ zset_inv_remove]

lemma list_set_ok: "list_set i x v = (found, w) \<Longrightarrow> list_ok v \<Longrightarrow> list_ok w"
  using list_ok_set [of v i x] by simp

lemma zset_incr_ok: "zset_inv z \<Longrightarrow> zset_inv (fst (snd (zset_incr m d r z)))"
  by (cases "zset_incr m d r z") (auto dest: zset_incr_spec(1))

lemma zset_pop_ok: "zset_pop n from_max z = Some (popped, z') \<Longrightarrow> zset_inv z \<Longrightarrow> zset_inv z'"
  using zset_pop_spec [of z n from_max] by auto

lemma hash_set_all_ok: "hash_set_all ps h = (n, h') \<Longrightarrow> hash_ok h \<Longrightarrow> hash_ok h'"
proof (induction ps arbitrary: h n)
  case (Cons p ps)
  obtain x y where p: "p = (x, y)" by force
  show ?case using Cons.IH [OF _ hash_ok_set [OF Cons.prems(2), of x y]] Cons.prems by (auto simp: p split: prod.splits)
qed simp

lemma zadd_loop_ok: "zset_inv z \<Longrightarrow> zset_inv (fst (snd (zadd_loop opts ps acc z r)))"
proof (induction ps arbitrary: acc z r)
  case (Cons p ps)
  obtain x m where p: "p = (x, m)" by force
  show ?case
    using Cons.IH Cons.prems by (auto simp: p Let_def dest: zset_inv_add split: prod.split option.split)
qed simp

section \<open>Writing handlers\<close>

text \<open>
  A writing handler gets the keys \<open>K\<close> of its command.  It may change the entries of these keys in
  place, replace them and set their deadlines; the values it writes are well formed.
\<close>

locale keyspace_writes = keyspace +
  fixes K :: "str set"
  assumes levels: "I s \<Longrightarrow> I (s\<lparr>st_sl_rng := r\<rparr>)"
    and mode: "I s \<Longrightarrow> mode_ok s"
    and insert: "I s \<Longrightarrow> k \<in> K \<Longrightarrow> get_entry s k = None \<Longrightarrow> value_ok v \<Longrightarrow> I (store_insert k v s)"
    and put: "I s \<Longrightarrow> k \<in> K \<Longrightarrow> value_ok v \<Longrightarrow> I (put_value k v s)"
    and set: "I s \<Longrightarrow> k \<in> K \<Longrightarrow> value_ok v \<Longrightarrow> I (store_set k v kt s)"
    and delete: "I s \<Longrightarrow> I (snd (store_delete k s))"
    and deadline: "I s \<Longrightarrow> k \<in> K \<Longrightarrow> I (snd (store_set_expiry k t s))"
    and forget_deadline: "I s \<Longrightarrow> k \<in> K \<Longrightarrow> I (snd (store_persist k s))"
    and load: "I s \<Longrightarrow> k \<in> K \<Longrightarrow> payload_scores p \<Longrightarrow> I (load_record (k, p, x) s)"
    and clear: "I s \<Longrightarrow> I (store_clear s)"
begin

lemma target:
  assumes "I s" "k \<in> K" "value_ok (mk fresh)"
  shows "I (snd (store_write_target kind mk fresh k s))"
proof (cases rule: lookup_cases [of k s])
  case (found e)
  then show ?thesis using assms(1) access by (auto simp: store_write_target_def split: option.split)
next
  case (missing s1)
  have "I s1" using lookup [OF assms(1), of k] missing(1) by simp
  moreover have "get_entry s1 k = None" using missing(3) mode [OF assms(1)] by simp
  ultimately show ?thesis
    using missing(1) insert [OF _ assms(2) _ assms(3)] by (auto simp: store_write_target_def)
qed

lemma target_value:
  assumes "I s" "fst (store_write_target kind mk fresh k s) = Inr x" "value_ok (mk fresh)" "kind (mk fresh) = Some fresh"
  shows "\<exists>v. value_ok v \<and> kind v = Some x"
proof (cases rule: lookup_cases [of k s])
  case (found e)
  with assms(2) have "kind (e_value e) = Some x"
    by (auto simp: store_write_target_def split: option.splits)
  moreover have "value_ok (e_value e)" using wf [OF assms(1)] found(3) wf_value by blast
  ultimately show ?thesis by blast
next
  case (missing s1)
  with assms show ?thesis by (auto simp: store_write_target_def)
qed

lemma keeps_bnd_target:
  assumes "k \<in> K" "value_ok (mk fresh)" "kind (mk fresh) = Some fresh"
    and "\<And>x. (\<exists>u. value_ok u \<and> kind u = Some x) \<Longrightarrow> keeps I (g x)"
  shows "keeps I (bnd (on_store_sum (store_write_target kind mk fresh k)) g)"
proof (rule keeps_bnd_on_store_sum)
  show "I (snd (store_write_target kind mk fresh k s))" if "I s" for s
    by (rule target [of s k mk fresh kind, OF that assms(1,2)])
  show "keeps I (g x)" if "I s" "fst (store_write_target kind mk fresh k s) = Inr x" for s x
    by (rule assms(4), rule target_value [OF that assms(2,3)])
qed

lemma keeps_bnd_list_target [keeps_intro]:
  "k \<in> K \<Longrightarrow> (\<And>x. list_ok x \<Longrightarrow> keeps I (g x)) \<Longrightarrow>
   keeps I (bnd (on_store_sum (store_write_target as_list VList (list_init []) k)) g)"
  by (rule keeps_bnd_target) (auto simp: list_ok_init elim: as_list.elims)

lemma keeps_bnd_set_target [keeps_intro]:
  "k \<in> K \<Longrightarrow> (\<And>x. set_ok x \<Longrightarrow> keeps I (g x)) \<Longrightarrow>
   keeps I (bnd (on_store_sum (store_write_target as_set VSet set_init k)) g)"
  by (rule keeps_bnd_target) (auto simp: set_ok_init elim: as_set.elims)

lemma keeps_bnd_hash_target [keeps_intro]:
  "k \<in> K \<Longrightarrow> (\<And>x. hash_ok x \<Longrightarrow> keeps I (g x)) \<Longrightarrow> keeps I (bnd (hash_target k) g)"
  unfolding hash_target_def by (rule keeps_bnd_target) (auto simp: hash_ok_init elim: as_hash.elims)

lemma keeps_bnd_zset_target [keeps_intro]:
  "k \<in> K \<Longrightarrow> (\<And>x. zset_inv x \<Longrightarrow> keeps I (g x)) \<Longrightarrow> keeps I (bnd (zset_target k) g)"
  unfolding zset_target_def by (rule keeps_bnd_target) (auto simp: zset_inv_init elim: as_zset.elims)

lemma keeps_bnd_on_zset [keeps_intro]:
  assumes "k \<in> K" "\<And>r. zset_inv (fst (snd (f r)))" "\<And>x. keeps I (g x)"
  shows "keeps I (bnd (on_zset k z f) g)"
  unfolding on_zset_def
proof (intro keeps_intro)
  show "I (snd (case f (st_sl_rng s) of (x, z', r) \<Rightarrow> (x, put_value k (VZset z') (s\<lparr>st_sl_rng := r\<rparr>))))" if "I s" for s
    using assms(2) [of "st_sl_rng s"] put [OF levels [OF that] assms(1)] by (auto split: prod.split)
qed (rule assms(3))

text \<open>Writes of strings.\<close>

lemma keeps_incr [keeps_intro]: "k \<in> K \<Longrightarrow> (\<And>x. keeps I (g x)) \<Longrightarrow> keeps I (bnd (incr_by k d) g)"
  unfolding incr_by_def by (intro keeps_intro set) simp_all

lemma keeps_set_cmd: "(\<And>k. args ! 0 = SArg k \<Longrightarrow> k \<in> K) \<Longrightarrow> keeps I (set_cmd args)"
  unfolding set_cmd_def set_deadline_def by (intro keeps_intro set deadline) (simp_all add: key_arg_Inr)

lemma keeps_mset: "(\<And>k. SArg k \<in> set (every_nth 2 args) \<Longrightarrow> k \<in> K) \<Longrightarrow> keeps I (mset_cmd args)"
  unfolding mset_cmd_def by (intro keeps_intro set) (auto dest: pair_keys)

lemma keeps_string_writes:
  assumes "\<And>k. args ! 0 = SArg k \<Longrightarrow> k \<in> K"
  shows "keeps I (set_cmd args)" "keeps I (setnx_cmd args)" "keeps I (getdel_cmd args)" "keeps I (incr_cmd args)"
    "keeps I (decr_cmd args)" "keeps I (incrby_cmd args)" "keeps I (decrby_cmd args)" "keeps I (incrbyfloat_cmd args)"
    "keeps I (append_cmd args)"
proof -
  show "keeps I (set_cmd args)" by (rule keeps_set_cmd [OF assms])
  show "keeps I (setnx_cmd args)"
    unfolding setnx_cmd_def by (rule keeps_bnd [OF keeps_set_cmd]) (auto intro: assms keeps_intro)
  show "keeps I (getdel_cmd args)" unfolding getdel_cmd_def by (intro keeps_intro delete)
  show "keeps I (incr_cmd args)" "keeps I (decr_cmd args)" "keeps I (incrby_cmd args)" "keeps I (decrby_cmd args)"
    unfolding incr_cmd_def decr_cmd_def incrby_cmd_def decrby_cmd_def by (intro keeps_intro; simp add: key_arg_Inr assms)+
  show "keeps I (incrbyfloat_cmd args)" "keeps I (append_cmd args)"
    unfolding incrbyfloat_cmd_def append_cmd_def byte_length_def Let_def
    by (intro keeps_intro set; simp add: key_arg_Inr assms)+
qed

text \<open>Writes of lists and hashes.\<close>

lemma keeps_push:
  "(\<And>k. args ! 0 = SArg k \<Longrightarrow> k \<in> K) \<Longrightarrow> keeps I (push_cmd left args)"
  unfolding push_cmd_def Let_def
  by (intro keeps_intro put) (auto simp: key_arg_Inr list_ok_push_left list_ok_push_right)

lemma keeps_pop:
  "(\<And>k. args ! 0 = SArg k \<Longrightarrow> k \<in> K) \<Longrightarrow> keeps I (pop_cmd left args)"
  unfolding pop_cmd_def by (intro keeps_intro put) (auto simp: key_arg_Inr dest: list_pop_spec(1))

lemma keeps_list_writes:
  assumes "\<And>k. args ! 0 = SArg k \<Longrightarrow> k \<in> K"
  shows "keeps I (lpush_cmd args)" "keeps I (rpush_cmd args)" "keeps I (lpop_cmd args)" "keeps I (rpop_cmd args)"
    "keeps I (lset_cmd args)" "keeps I (ltrim_cmd args)" "keeps I (lrem_cmd args)"
proof -
  show "keeps I (lpush_cmd args)" "keeps I (rpush_cmd args)" "keeps I (lpop_cmd args)" "keeps I (rpop_cmd args)"
    unfolding lpush_cmd_def rpush_cmd_def lpop_cmd_def rpop_cmd_def by (auto intro: keeps_push keeps_pop assms)
  show "keeps I (lset_cmd args)"
    unfolding lset_cmd_def by (intro keeps_intro put) (auto simp: key_arg_Inr assms intro: list_set_ok)
  show "keeps I (ltrim_cmd args)"
    unfolding ltrim_cmd_def Let_def by (intro keeps_intro put) (auto simp: key_arg_Inr assms list_ok_trim)
  show "keeps I (lrem_cmd args)"
    unfolding lrem_cmd_def by (intro keeps_intro put) (auto simp: key_arg_Inr assms dest: list_ok_remove)
qed

lemma keeps_hash_writes:
  assumes "\<And>k. args ! 0 = SArg k \<Longrightarrow> k \<in> K"
  shows "keeps I (hset_cmd args)" "keeps I (hsetnx_cmd args)" "keeps I (hdel_cmd args)" "keeps I (hincrby_cmd args)"
proof -
  show "keeps I (hset_cmd args)"
    unfolding hset_cmd_def
    by (intro keeps_intro put) (auto simp: key_arg_Inr assms intro: hash_set_all_ok)
  show "keeps I (hsetnx_cmd args)" "keeps I (hincrby_cmd args)"
    unfolding hsetnx_cmd_def hincrby_cmd_def by (intro keeps_intro put; auto simp: key_arg_Inr assms hash_ok_set)+
  show "keeps I (hdel_cmd args)"
    unfolding hdel_cmd_def
    by (intro keeps_intro put) (auto simp: key_arg_Inr assms intro: removals_ok)
qed

text \<open>Writes of sets and sorted sets.\<close>

lemma keeps_set_writes:
  assumes "\<And>k. args ! 0 = SArg k \<Longrightarrow> k \<in> K"
  shows "keeps I (sadd_cmd args)" "keeps I (srem_cmd args)" "keeps I (spop_cmd args)"
proof -
  show "keeps I (sadd_cmd args)"
    unfolding sadd_cmd_def
    by (intro keeps_intro put) (auto simp: key_arg_Inr assms intro: removals_ok)
  show "keeps I (srem_cmd args)" "keeps I (spop_cmd args)"
    unfolding srem_cmd_def spop_cmd_def
    by (intro keeps_intro put; auto simp: key_arg_Inr assms intro: removals_ok)+
qed

lemma keeps_zpop: "(\<And>k. args ! 0 = SArg k \<Longrightarrow> k \<in> K) \<Longrightarrow> keeps I (zpop_cmd from_max args)"
  unfolding zpop_cmd_def asserted_def
  by (intro keeps_intro put) (auto simp: key_arg_Inr simp del: zset_pop.simps intro: zset_pop_ok split: option.splits)

lemma keeps_zset_writes:
  assumes "\<And>k. args ! 0 = SArg k \<Longrightarrow> k \<in> K"
  shows "keeps I (zadd_cmd args)" "keeps I (zincrby_cmd args)" "keeps I (zrem_cmd args)" "keeps I (zpopmin_cmd args)"
    "keeps I (zpopmax_cmd args)"
proof -
  show "keeps I (zadd_cmd args)"
    unfolding zadd_cmd_def by (intro keeps_intro) (auto simp: key_arg_Inr assms zadd_loop_ok)
  show "keeps I (zincrby_cmd args)"
    unfolding zincrby_cmd_def
    by (intro keeps_intro) (auto simp: key_arg_Inr assms intro: zset_incr_ok)
  show "keeps I (zrem_cmd args)"
    unfolding zrem_cmd_def
    by (intro keeps_intro put) (auto simp: key_arg_Inr assms intro: removals_ok)
  show "keeps I (zpopmin_cmd args)" "keeps I (zpopmax_cmd args)"
    unfolding zpopmin_cmd_def zpopmax_cmd_def by (auto intro: keeps_zpop assms)
qed

text \<open>Writes of any type.  The payload of \<open>RESTORE\<close> must not hold a score that is not a number.\<close>

lemma keeps_expire_at [keeps_intro]: "k \<in> K \<Longrightarrow> keeps I (expire_at_ms k t)"
  unfolding expire_at_ms_def by (intro keeps_intro delete deadline)

lemma keeps_deletes: "keeps I (del_cmd args)" "keeps I (unlink_cmd args)" "keeps I (flushall_cmd args)" "keeps I (flushdb_cmd args)"
  unfolding unlink_cmd_def del_cmd_def flushdb_cmd_def flushall_cmd_def by (intro keeps_intro delete clear; assumption)+

lemma keeps_expiry_writes:
  assumes "\<And>k. args ! 0 = SArg k \<Longrightarrow> k \<in> K"
  shows "keeps I (expire_cmd args)" "keeps I (pexpire_cmd args)" "keeps I (expireat_cmd args)"
    "keeps I (pexpireat_cmd args)" "keeps I (persist_cmd args)"
  unfolding expire_cmd_def pexpire_cmd_def expireat_cmd_def pexpireat_cmd_def persist_cmd_def
  by (intro keeps_intro forget_deadline; simp add: key_arg_Inr assms)+

lemma keeps_restore:
  assumes "\<And>k. args ! 0 = SArg k \<Longrightarrow> k \<in> K" "\<And>p. restore_payload (args ! 2) = Inr p \<Longrightarrow> payload_scores p"
  shows "keeps I (restore_cmd args)"
  unfolding restore_cmd_def Let_def by (intro keeps_intro delete load; simp add: key_arg_Inr assms)

end

section \<open>Saving handlers\<close>

locale keyspace_saves = keyspace +
  assumes slice: "I s \<Longrightarrow> I (snd (job_step n s))"
    and start: "I s \<Longrightarrow> begin_snapshot b s = Some s' \<Longrightarrow> I s'"
begin

lemma keeps_on_persist: "keeps I (on_persist f)"
  by (rule keepsI) (auto simp: on_persist_def split: option.split prod.split)

lemma keeps_bnd_on_persist [keeps_intro]: "(\<And>x. keeps I (g x)) \<Longrightarrow> keeps I (bnd (on_persist f) g)"
  by (rule keeps_bnd [OF keeps_on_persist])

lemma keeps_modify [keeps_intro]: "(\<And>e. en_store (f e) = en_store e) \<Longrightarrow> keeps I (modify f)"
  by (simp add: keeps_def modify_def)

lemma keeps_bnd_modify [keeps_intro]:
  "(\<And>e. en_store (f e) = en_store e) \<Longrightarrow> keeps I (g ()) \<Longrightarrow> keeps I (bnd (modify f) g)"
  by (rule keeps_bnd [OF keeps_modify]) simp_all

lemma gc_store [simp]: "en_store (gc_hold e) = en_store e" "en_store (gc_release e) = en_store e"
  "en_store (release_gc e) = en_store e"
  by (simp_all add: gc_hold_def gc_release_def release_gc_def)

lemma keeps_on_error [keeps_intro]: "keeps I m \<Longrightarrow> (\<And>e. en_store (h e) = en_store e) \<Longrightarrow> keeps I (on_error m h)"
  by (auto simp: keeps_def on_error_def split: prod.split sum.split)

lemma keeps_begin [keeps_intro]: "keeps I (engine_begin_snapshot t)"
  by (rule keepsI) (auto simp: engine_begin_snapshot_def Let_def intro: start split: option.split)

lemma keeps_start_rewrite: "keeps I engine_start_rewrite"
  unfolding engine_start_rewrite_def by (intro keeps_intro keeps_on_persist; simp add: gc_hold_def)

lemma keeps_step_chunks: "keeps I (step_chunks c)"
  by (induction c) (auto intro!: keeps_intro slice)

lemma keeps_step_snapshot: "keeps I (step_snapshot c)"
  unfolding step_snapshot_def by (intro keeps_intro keeps_bnd [OF keeps_step_chunks])

lemma keeps_finish_snapshot: "keeps I (finish_snapshot n)"
  by (induction n) (auto intro!: keeps_intro keeps_bnd [OF keeps_step_snapshot])

lemma keeps_wait_rewrite: "keeps I engine_wait_rewrite"
  unfolding engine_wait_rewrite_def by (intro keeps_intro keeps_bnd [OF keeps_finish_snapshot]) simp

lemma keeps_save: "keeps I engine_save"
  unfolding engine_save_def
  by (intro keeps_intro keeps_bnd [OF keeps_start_rewrite] keeps_bnd [OF keeps_wait_rewrite])

lemma keeps_saves: "keeps I (save_cmd args)" "keeps I (bgsave_cmd args)" "keeps I (bgrewriteaof_cmd args)"
  unfolding save_cmd_def bgsave_cmd_def bgrewriteaof_cmd_def
  by (intro keeps_intro keeps_bnd [OF keeps_save] keeps_bnd [OF keeps_start_rewrite])+

end

end
