(* ===== verification/Engine_Inv.thy ===== *)
theory Engine_Inv
  imports Engine Handlers
begin

text \<open>
  The invariants of the keyspace at the level of the engine.  Between two operations the store is
  well formed, every size is the size of its value and no collection is empty; and every snapshot
  that was begun is still, or was delivered as, the copy of the keyspace at the moment it was begun.
\<close>

section \<open>The switches of expiry\<close>

text \<open>With the limits and what the policy is: only the engine and its owner set them, no method of the store does.\<close>

declare pol.evicts_const [simp]

type_synonym modes = "bool \<times> bool \<times> bool \<times> bool \<times> int \<times> int"

definition modes :: "store \<Rightarrow> modes" where
  "modes s = (st_expiry_enabled s, st_expiry_deletes s, st_eviction_enabled s, pol_evicts (st_policy s),
     st_max_keys s, st_maxmemory s)"

lemma modes_simps [simp]:
  "modes (snd (store_lookup k s)) = modes s" "modes (store_access k s) = modes s" "modes (store_insert k v s) = modes s"
  "modes (store_remove k s) = modes s" "modes (put_value k v s) = modes s"
  "modes (s\<lparr>st_hits := n\<rparr>) = modes s" "modes (s\<lparr>st_misses := n\<rparr>) = modes s" "modes (s\<lparr>st_rng := r\<rparr>) = modes s"
  "modes (s\<lparr>st_sl_rng := r\<rparr>) = modes s" "modes (s\<lparr>st_out := ws\<rparr>) = modes s"
  by (simp_all add: modes_def store_insert_def Let_def put_value_def split: option.split)

lemma modes_set [simp]: "modes (store_set k v kt s) = modes s"
proof -
  have "modes (store_set k v False s') = modes s'" for s'
    by (auto simp: store_set_def modes_def store_insert_def Let_def split: option.split)
  then show ?thesis
    by (cases kt) (auto simp: store_set_def modes_def store_insert_def Let_def prod_eq_iff split: option.split prod.split)
qed

lemma modes_lookup_eq: "store_lookup k s = (r, s') \<Longrightarrow> modes s' = modes s"
  using modes_simps(1) [of k s] by simp

lemma modes_writes [simp]:
  "modes (snd (store_delete k s)) = modes s" "modes (snd (store_set_expiry k t s)) = modes s"
  "modes (snd (store_persist k s)) = modes s" "modes (load_record rec s) = modes s"
proof -
  show "modes (snd (store_delete k s)) = modes s" for k and s :: store
    by (auto simp: store_delete_def modes_lookup_eq split: option.split prod.split)
  have e: "modes (snd (store_set_expiry k t s)) = modes s" for k t and s :: store
    by (auto simp: store_set_expiry_def modes_lookup_eq split: option.split prod.split) (auto simp: modes_def dest: modes_lookup_eq)
  then show "modes (snd (store_set_expiry k t s)) = modes s" .
  show "modes (snd (store_persist k s)) = modes s"
    by (auto simp: store_persist_def modes_lookup_eq split: option.split prod.split) (auto simp: modes_def dest: modes_lookup_eq)
  show "modes (load_record rec s) = modes s"
    by (auto simp: load_record_def Let_def e split: prod.split option.split)
qed

lemma modes_barriers [simp]: "modes (fold snapshot_barrier ks s) = modes s"
  by (induction ks arbitrary: s) (auto simp: modes_def)

lemma modes_refresh [simp]: "modes (fold store_refresh ks s) = modes s"
  by (induction ks arbitrary: s) (auto simp: modes_def)

lemma modes_job_step [simp]: "modes (snd (job_step n s)) = modes s"
  using modes_barriers by (auto simp: job_step_def Let_def modes_def split: option.split)

lemma modes_clear [simp]: "modes (store_clear s) = modes s"
proof -
  have "modes (case st_job s of None \<Rightarrow> s | Some j \<Rightarrow> snd (job_step (job_remaining j) s)) = modes s"
    by (simp split: option.split)
  then show ?thesis by (simp add: store_clear_def Let_def modes_def)
qed

lemma modes_begin: "begin_snapshot b s = Some s' \<Longrightarrow> modes s' = modes s"
  by (auto simp: begin_snapshot_def modes_def Let_def split: option.splits)

lemma clear_data: "st_data (store_clear s) = []"
  by (simp add: store_clear_def Let_def)

lemma mode_ok_modes: "mode_ok s \<longleftrightarrow> fst (snd (modes s)) \<or> \<not> fst (modes s)"
  by (simp add: mode_ok_def modes_def)

lemma settled_set_in: "settled K s \<Longrightarrow> k \<in> K \<Longrightarrow> settled K (store_set k v kt s)"
  using settled_lookup [of K s k] by (auto simp: settled_def store_set_data)

lemma settled_in_K: "settled (insert k K) s \<Longrightarrow> k \<in> K \<Longrightarrow> settled K s"
  by (simp add: insert_absorb)

lemma settled_load_in: "settled K s \<Longrightarrow> k \<in> K \<Longrightarrow> settled K (load_record (k, p, x) s)"
  by (auto simp: load_record_def Let_def intro!: settled_set_expiry settled_set_in split: prod.split option.split)

section \<open>The contract of the store\<close>

text \<open>
  \<open>S\<close>: the snapshots begun, each by its epoch, its records and what had been delivered before it;
  \<open>M\<close>: the switches.
\<close>

type_synonym snapshots = "(int \<times> snapshot_record set \<times> snapshot_record list list) set"

definition kept :: "modes \<Rightarrow> snapshots \<Rightarrow> str set \<Rightarrow> store \<Rightarrow> bool" where
  "kept M S K s \<longleftrightarrow> store_wf s \<and> settled K s \<and> modes s = M \<and> (\<forall>(n, R, F) \<in> S. snapped n R F K s)"

lemma keptD_modes: "kept M S K s \<Longrightarrow> modes s = M"
  by (simp add: kept_def)

lemma keptD:
  "kept M S K s \<Longrightarrow> store_wf s" "kept M S K s \<Longrightarrow> settled K s" "kept M S K s \<Longrightarrow> (n, R, F) \<in> S \<Longrightarrow> snapped n R F K s"
  by (auto simp: kept_def)

lemma keptI:
  "store_wf s \<Longrightarrow> settled K s \<Longrightarrow> modes s = M \<Longrightarrow> (\<And>n R F. (n, R, F) \<in> S \<Longrightarrow> snapped n R F K s) \<Longrightarrow> kept M S K s"
  by (auto simp: kept_def)

lemma kept_map:
  assumes "kept M S K s" "modes s' = modes s" "store_wf s \<Longrightarrow> settled K s \<Longrightarrow> store_wf s' \<and> settled K s'"
    "\<And>n R F. store_wf s \<Longrightarrow> snapped n R F K s \<Longrightarrow> snapped n R F K s'"
  shows "kept M S K s'"
  using assms by (auto simp: kept_def)

lemma kept_data:
  assumes "kept M S K s" "store_wf s' = store_wf s" "settled K s' = settled K s" "st_job s' = st_job s"
    "st_finished s' = st_finished s" "st_data s' = st_data s" "modes s' = modes s"
  shows "kept M S K s'"
  by (rule kept_map [OF assms(1)]) (use assms in \<open>auto intro: snapped_data\<close>)

interpretation rd: keyspace "kept M S K" for M S K
proof
  fix s k n r ws
  assume s: "kept M S K s"
  show "kept M S K (snd (store_lookup k s))"
    by (rule kept_map [OF s]) (auto intro: wf_lookup settled_lookup snapped_lookup)
  show "kept M S K (store_access k s)"
  proof (rule kept_map [OF s])
    show "store_wf (store_access k s) \<and> settled K (store_access k s)" if "store_wf s" "settled K s"
      using that wf_access [of s k] by (auto simp: settled_def)
  qed (auto intro: snapped_access)
  show "kept M S K (s\<lparr>st_hits := n\<rparr>)" "kept M S K (s\<lparr>st_misses := n\<rparr>)" "kept M S K (s\<lparr>st_rng := r\<rparr>)" "kept M S K (s\<lparr>st_out := ws\<rparr>)"
    by (rule kept_data [OF s]; simp)+
  show "store_wf s" by (rule keptD(1) [OF s])
qed

lemma covers_begin_other: "covers n R F s \<Longrightarrow> begin_snapshot b s = Some s' \<Longrightarrow> covers n R F s'"
  by (auto simp: covers_def begin_snapshot_def Let_def split: option.splits)

interpretation sv: keyspace_saves "kept M S {}" for M S
proof
  fix s n b s'
  assume s: "kept M S {} s"
  show "kept M S {} (snd (job_step n s))"
    by (rule kept_map [OF s]) (auto intro: job_step_inv covers_job_step simp: snapped_def)
  show "kept M S {} s'" if b: "begin_snapshot b s = Some s'"
    by (rule kept_map [OF s]) (auto intro: begin_snapshot_inv [OF _ _ b] modes_begin [OF b] covers_begin_other [OF _ b] simp: snapped_def)
qed

definition writable :: "modes \<Rightarrow> snapshots \<Rightarrow> str set \<Rightarrow> store \<Rightarrow> bool" where
  "writable M S K s \<longleftrightarrow> kept M S K s \<and> mode_ok s"

lemma writable_map:
  assumes "writable M S K s" "modes s' = modes s"
    "store_wf s \<Longrightarrow> settled K s \<Longrightarrow> mode_ok s \<Longrightarrow> store_wf s' \<and> settled K s'"
    "\<And>n R F. store_wf s \<Longrightarrow> mode_ok s \<Longrightarrow> snapped n R F K s \<Longrightarrow> snapped n R F K s'"
  shows "writable M S K s'"
  using assms by (auto simp: writable_def mode_ok_modes kept_def)

interpretation wr: keyspace_writes "writable M S K" K for M S K
proof
  fix s k n r ws v kt t p x
  assume s: "writable M S K s"
  have kept: "kept M S K s" using s by (simp add: writable_def)
  have w: "writable M S K s'" if "kept M S K s'" "modes s' = modes s" for s'
    using that s by (simp add: writable_def mode_ok_modes)
  show "writable M S K (snd (store_lookup k s))" by (intro w rd.lookup kept modes_simps)
  show "writable M S K (store_access k s)" by (intro w rd.access kept modes_simps)
  show "writable M S K (s\<lparr>st_hits := n\<rparr>)" by (intro w rd.hits kept modes_simps)
  show "writable M S K (s\<lparr>st_misses := n\<rparr>)" by (intro w rd.misses kept modes_simps)
  show "writable M S K (s\<lparr>st_rng := r\<rparr>)" by (intro w rd.draws kept modes_simps)
  show "writable M S K (s\<lparr>st_out := ws\<rparr>)" by (intro w rd.effects kept modes_simps)
  show "store_wf s" by (rule keptD(1) [OF kept])
  show "mode_ok s" using s by (simp add: writable_def)
  show "writable M S K (s\<lparr>st_sl_rng := r\<rparr>)" by (intro w modes_simps kept_data [OF kept]) simp_all
  show "writable M S K (snd (store_delete k s))"
    by (rule writable_map [OF s]) (simp_all add: wf_delete settled_delete snapped_delete)
  show "writable M S K (store_clear s)"
    by (rule writable_map [OF s])
      (auto simp: clear_inv snapped_def covers_clear accounted_def clear_data intro: settled_mono [OF clear_inv(2)])
  assume k: "k \<in> K"
  show "writable M S K (snd (store_set_expiry k t s))"
    by (rule writable_map [OF s]) (simp_all add: wf_set_expiry settled_set_expiry snapped_set_expiry k)
  show "writable M S K (snd (store_persist k s))"
    by (rule writable_map [OF s]) (simp_all add: wf_persist settled_persist snapped_persist k)
  show "writable M S K (load_record (k, p, x) s)" if "payload_scores p"
    by (rule writable_map [OF s])
      (simp_all add: wf_load_record settled_load_in snapped_load_record load_payload_value_ok k that)
  assume v: "value_ok v"
  show "writable M S K (put_value k v s)"
    by (rule writable_map [OF s])
      (auto simp: wf_put_value snapped_put_value k v intro: settled_in_K [OF settled_put_value k])
  show "writable M S K (store_set k v kt s)"
    by (rule writable_map [OF s]) (simp_all add: wf_set settled_set_in snapped_store_set k v)
  show "writable M S K (store_insert k v s)" if "get_entry s k = None"
    by (rule writable_map [OF s])
      (auto simp: wf_add snapped_insert k v that intro: settled_in_K [OF settled_insert_key k])
qed

section \<open>The handlers of the table\<close>

text \<open>
  The keys of a command are those its handler writes.  The one way to store a malformed value is a
  \<open>RESTORE\<close> of a sorted set with a score that is not a number.
\<close>

definition restores_numbers :: "str \<Rightarrow> arg list \<Rightarrow> bool" where
  "restores_numbers name args \<longleftrightarrow>
     (name = lit ''RESTORE'' \<longrightarrow> (\<forall>p. restore_payload (args ! 2) = Inr p \<longrightarrow> payload_scores p))"

lemma single_key:
  assumes "args ! 0 = SArg k" "m \<le> length args" "0 < m"
  shows "k \<in> set (str_keys (every_nth (Suc 0) (take (Suc 0) args)))"
  using assms by (cases args) simp_all

lemma every_first: "every_nth (Suc 0) xs = xs"
  by (induction xs) simp_all

lemma every_key: "SArg k \<in> set as \<Longrightarrow> k \<in> set (str_keys as)"
  by (induction as) (auto split: arg.split)

definition handler_ok :: "str \<times> command_spec \<Rightarrow> str \<times> (arg list \<Rightarrow> reply cmd) \<Rightarrow> bool" where
  "handler_ok c h \<longleftrightarrow> fst c = cs_name (snd c) \<and> fst h = fst c \<and>
     (\<forall>args M S. cs_min_args (snd c) \<le> length args \<longrightarrow>
        (if is_write (snd c)
         then restores_numbers (fst c) args \<longrightarrow>
              keeps (writable M S (set (command_keys (snd c) args))) (snd h args)
         else keeps (kept M S {}) (snd h args)))"

lemma ok_read:
  "(\<And>M S args. keeps (kept M S {}) (h args)) \<Longrightarrow> WRITE \<notin> set fl \<Longrightarrow> handler_ok (mk_command n m M fl ks) (lit n, h)"
  by (simp add: handler_ok_def mk_command_def is_write_def)

lemma ok_any:
  "(\<And>M S K args. keeps (writable M S K) (h args)) \<Longrightarrow> WRITE \<in> set fl \<Longrightarrow> handler_ok (mk_command n m M fl ks) (lit n, h)"
  by (simp add: handler_ok_def mk_command_def is_write_def)

lemma ok_single:
  "(\<And>args K M S. (\<And>k. args ! 0 = SArg k \<Longrightarrow> k \<in> K) \<Longrightarrow> keeps (writable M S K) (h args)) \<Longrightarrow> 0 < m \<Longrightarrow> WRITE \<in> set fl \<Longrightarrow>
   handler_ok (mk_command n m M fl (Some SINGLE_KEY)) (lit n, h)"
  by (simp add: handler_ok_def mk_command_def is_write_def command_keys_def spec_keys_def SINGLE_KEY_def single_key)

lemma ok_mset: "handler_ok (mk_command n m M [WRITE, DENYOOM] (Some EVERY_OTHER_KEY)) (lit n, mset_cmd)"
  by (auto simp: handler_ok_def mk_command_def is_write_def command_keys_def spec_keys_def EVERY_OTHER_KEY_def
      intro!: wr.keeps_mset every_key)

lemma ok_restore: "handler_ok (mk_command ''RESTORE'' 3 M [WRITE, DENYOOM] (Some SINGLE_KEY)) (lit ''RESTORE'', restore_cmd)"
  by (auto simp: handler_ok_def mk_command_def is_write_def command_keys_def spec_keys_def SINGLE_KEY_def
      restores_numbers_def intro!: wr.keeps_restore single_key [of _ _ 3])

lemmas reads_ok =
  rd.keeps_string_reads [THEN ok_read] rd.keeps_mget [THEN ok_read] rd.keeps_list_reads [THEN ok_read]
  rd.keeps_hash_reads [THEN ok_read] rd.keeps_set_reads [THEN ok_read] rd.keeps_zset_reads [THEN ok_read]
  rd.keeps_keyspace_reads [THEN ok_read] rd.keeps_server_reads [THEN ok_read] sv.keeps_saves [THEN ok_read]

lemmas writes_ok =
  ok_single [OF wr.keeps_string_writes(1)] ok_single [OF wr.keeps_string_writes(2)] ok_single [OF wr.keeps_string_writes(3)]
  ok_single [OF wr.keeps_string_writes(4)] ok_single [OF wr.keeps_string_writes(5)] ok_single [OF wr.keeps_string_writes(6)]
  ok_single [OF wr.keeps_string_writes(7)] ok_single [OF wr.keeps_string_writes(8)] ok_single [OF wr.keeps_string_writes(9)]
  ok_single [OF wr.keeps_list_writes(1)] ok_single [OF wr.keeps_list_writes(2)] ok_single [OF wr.keeps_list_writes(3)]
  ok_single [OF wr.keeps_list_writes(4)] ok_single [OF wr.keeps_list_writes(5)] ok_single [OF wr.keeps_list_writes(6)]
  ok_single [OF wr.keeps_list_writes(7)]
  ok_single [OF wr.keeps_hash_writes(1)] ok_single [OF wr.keeps_hash_writes(2)] ok_single [OF wr.keeps_hash_writes(3)]
  ok_single [OF wr.keeps_hash_writes(4)]
  ok_single [OF wr.keeps_set_writes(1)] ok_single [OF wr.keeps_set_writes(2)] ok_single [OF wr.keeps_set_writes(3)]
  ok_single [OF wr.keeps_zset_writes(1)] ok_single [OF wr.keeps_zset_writes(2)] ok_single [OF wr.keeps_zset_writes(3)]
  ok_single [OF wr.keeps_zset_writes(4)] ok_single [OF wr.keeps_zset_writes(5)]
  ok_single [OF wr.keeps_expiry_writes(1)] ok_single [OF wr.keeps_expiry_writes(2)] ok_single [OF wr.keeps_expiry_writes(3)]
  ok_single [OF wr.keeps_expiry_writes(4)] ok_single [OF wr.keeps_expiry_writes(5)]
  wr.keeps_deletes [THEN ok_any] ok_mset ok_restore

lemma tables_ok:
  "list_all2 handler_ok hash_commands hash_handlers" "list_all2 handler_ok keyspace_commands keyspace_handlers"
  "list_all2 handler_ok list_commands list_handlers" "list_all2 handler_ok server_commands server_handlers"
  "list_all2 handler_ok set_commands set_handlers" "list_all2 handler_ok string_commands string_handlers"
  "list_all2 handler_ok zset_commands zset_handlers"
  by (simp_all add: hash_commands_def hash_handlers_def keyspace_commands_def keyspace_handlers_def list_commands_def
      list_handlers_def server_commands_def server_handlers_def set_commands_def set_handlers_def string_commands_def
      string_handlers_def zset_commands_def zset_handlers_def reads_ok writes_ok)

lemma table_ok: "list_all2 handler_ok COMMANDS HANDLERS"
  unfolding COMMANDS_def HANDLERS_def by (intro list_all2_appendI tables_ok)

lemma table_lookup:
  "list_all2 handler_ok cs hs \<Longrightarrow> dict_get cs name = Some spec \<Longrightarrow>
   \<exists>h. dict_get hs name = Some h \<and> handler_ok (name, spec) (name, h)"
  by (induction cs hs rule: list_all2_induct) (auto simp: handler_ok_def split: if_splits)

section \<open>Running a command\<close>

lemma find_commandD:
  assumes "find_command command args = Inr spec"
  shows "dict_get COMMANDS (py_upper command) = Some spec" "cs_min_args spec \<le> length args"
  using assms by (auto simp: find_command_def check_arity_def split: option.splits if_splits)

lemma run_handler_keeps:
  assumes f: "find_command command args = Inr spec" and r: "restores_numbers (py_upper command) args"
  shows "is_write spec \<Longrightarrow> keeps (writable M S (set (command_keys spec args))) (run_handler spec args)"
    and "\<not> is_write spec \<Longrightarrow> keeps (kept M S {}) (run_handler spec args)"
proof -
  obtain h where h: "dict_get HANDLERS (py_upper command) = Some h" "handler_ok (py_upper command, spec) (py_upper command, h)"
    using table_lookup [OF table_ok find_commandD(1) [OF f]] by blast
  then have run: "run_handler spec args = h args" by (simp add: run_handler_def handler_ok_def)
  show "is_write spec \<Longrightarrow> keeps (writable M S (set (command_keys spec args))) (run_handler spec args)"
    "\<not> is_write spec \<Longrightarrow> keeps (kept M S {}) (run_handler spec args)"
    using h(2) find_commandD(2) [OF f] r unfolding run handler_ok_def by (cases M; auto)+
qed

text \<open>Normal and exceptional results with their own conditions.\<close>

definition steps :: "(store \<Rightarrow> bool) \<Rightarrow> 'a cmd \<Rightarrow> (store \<Rightarrow> bool) \<Rightarrow> (store \<Rightarrow> bool) \<Rightarrow> bool" where
  "steps P m Q E \<longleftrightarrow> (\<forall>e. P (en_store e) \<longrightarrow>
     (case m e of (Inr _, e') \<Rightarrow> Q (en_store e') | (Inl _, e') \<Rightarrow> E (en_store e')))"

lemma steps_bnd: "steps P m Q E \<Longrightarrow> (\<And>x. steps Q (f x) R E) \<Longrightarrow> steps P (bnd m f) R E"
  by (fastforce simp: steps_def bnd_def split: prod.splits sum.splits)

lemma steps_keeps: "keeps P m \<Longrightarrow> (\<And>s. P s \<Longrightarrow> Q s) \<Longrightarrow> (\<And>s. P s \<Longrightarrow> E s) \<Longrightarrow> steps P m Q E"
  by (fastforce simp: steps_def dest: keepsD split: prod.splits sum.splits)

lemma steps_weaken: "steps P m Q E \<Longrightarrow> (\<And>s. P' s \<Longrightarrow> P s) \<Longrightarrow> (\<And>s. Q s \<Longrightarrow> Q' s) \<Longrightarrow> steps P' m Q' E"
  by (fastforce simp: steps_def split: prod.splits sum.splits)

lemma steps_both: "steps P m Q Q \<Longrightarrow> P (en_store e) \<Longrightarrow> Q (en_store (snd (m e)))"
  unfolding steps_def by (cases "m e"; cases "fst (m e)") (auto dest: spec [of _ e])

lemma keeps_steps: "steps P m P P \<Longrightarrow> keeps P m"
  by (rule keepsI) (rule steps_both)

lemma steps_lift: "(\<And>x. r = Inr x \<Longrightarrow> steps P (f x) Q E) \<Longrightarrow> (\<And>s. P s \<Longrightarrow> E s) \<Longrightarrow> steps P (bnd (lift r) f) Q E"
  by (cases r) (simp_all add: steps_def bnd_def lift_def)

lemma kept_mono:
  assumes "kept M S K s" "K' = {} \<or> K' = K"  "settled K' s"
  shows "kept M S K' s"
  using assms by (auto simp: kept_def intro: snapped_mono)

lemma kept_refresh:
  assumes "kept M S (set ks) s"
  shows "kept M S {} (fold store_refresh ks s)"
proof (rule keptI)
  have wf: "store_wf s" "settled (set ks) s" using assms keptD by blast+
  show "store_wf (fold store_refresh ks s)" "settled {} (fold store_refresh ks s)"
    using fold_refresh [OF wf, of ks] by auto
  show "modes (fold store_refresh ks s) = M" using keptD_modes [OF assms] by simp
  have "snapped n R F (set ks) (fold store_refresh xs s)"
    if "snapped n R F (set ks) s" "store_wf s" "set xs \<subseteq> set ks" for n R F xs s
    using that by (induction xs arbitrary: s) (auto intro: snapped_refresh wf_refresh)
  then show "snapped n R F {} (fold store_refresh ks s)" if "(n, R, F) \<in> S" for n R F
    using keptD(3) [OF assms that] wf(1) snapped_mono by blast
qed

lemma kept_barriers:
  assumes "kept M S {} s"
  shows "kept M S {} (fold snapshot_barrier ks s)" "kept M S (set ks) (fold snapshot_barrier ks s)"
proof -
  have wf: "store_wf s" "settled {} s" using assms keptD by blast+
  have sn: "snapped n R F (K \<union> set xs) (fold snapshot_barrier xs s)" if "snapped n R F K s" for n R F K xs s
    using that
  proof (induction xs arbitrary: s K)
    case (Cons x xs)
    show ?case using Cons.IH [OF snapped_barrier [OF Cons.prems, of x]] by (simp add: Un_commute)
  qed simp
  have snap: "snapped n R F (set ks) (fold snapshot_barrier ks s)" if "(n, R, F) \<in> S" for n R F
    using sn [OF keptD(3) [OF assms that], of ks] by simp
  have wf': "store_wf (fold snapshot_barrier ks s)" "settled {} (fold snapshot_barrier ks s)"
    using fold_barrier_inv [OF wf] by auto
  show "kept M S (set ks) (fold snapshot_barrier ks s)"
    using wf' snap keptD_modes [OF assms] by (intro keptI settled_mono [OF wf'(2)]) auto
  show "kept M S {} (fold snapshot_barrier ks s)"
    using wf' snap keptD_modes [OF assms] by (intro keptI) (auto intro: snapped_mono)
qed

lemma kept_idle: "kept M S {} s \<Longrightarrow> st_job s = None \<Longrightarrow> kept M S K s"
  by (auto simp: kept_def snapped_def accounted_def intro: settled_mono)

lemma steps_barriers:
  "steps (kept M S {}) (barriers keys) (\<lambda>s. kept M S (set keys) s \<and> kept M S {} s) (kept M S {})"
proof -
  have "steps (kept M S {}) (store_do (fold snapshot_barrier keys)) (\<lambda>s. kept M S (set keys) s \<and> kept M S {} s) (kept M S {})"
    by (auto simp: steps_def store_do_def kept_barriers dest: on_store_eq(1) split: prod.split sum.split)
  then show ?thesis
    by (auto simp: steps_def barriers_def bnd_def asks_def ret_def intro: kept_idle)
qed

lemma evict_modes: "modes (snd (evict_loop protect s)) = modes s"
proof (induction protect s rule: evict_loop.induct)
  case (1 protect s)
  obtain v r where v: "pol_victim (st_now s) protect (st_rng s) (st_policy s) = (v, r)" by force
  show ?case
  proof (cases "over_limit 0 s \<and> (\<exists>k. v = Some k \<and> get_entry s k \<noteq> None)")
    case True
    then obtain k where k: "over_limit 0 s" "v = Some k" "get_entry s k \<noteq> None" by blast
    have "snd (evict_loop protect s) = snd (evict_loop protect (store_remove k (s\<lparr>st_rng := r\<rparr>)
        \<lparr>st_evicted_keys := st_evicted_keys (store_remove k (s\<lparr>st_rng := r\<rparr>)) + 1\<rparr>))"
      using k v by (subst evict_loop.simps) (auto simp: Let_def split: prod.split)
    then show ?thesis using 1 [OF _ v [symmetric] k(2,3) refl] k(1) by (simp add: modes_def)
  next
    case False
    then show ?thesis using v by (subst evict_loop.simps) (auto split: option.split)
  qed
qed

lemma kept_evict: "kept M S K s \<Longrightarrow> kept M S K (snd (evict_if_needed protect s))"
proof (rule kept_map)
  show "modes (snd (evict_if_needed protect s)) = modes s" by (simp add: evict_if_needed_def evict_modes)
  show "store_wf (snd (evict_if_needed protect s)) \<and> settled K (snd (evict_if_needed protect s))"
    if "store_wf s" "settled K s"
    using evict_loop_spec [OF that, of protect] that by (auto simp: evict_if_needed_def split: prod.splits)
  show "snapped n R F K (snd (evict_if_needed protect s))" if "snapped n R F K s" for n R F
    using that by (simp add: evict_if_needed_def snapped_evict)
qed

lemma keeps_evict_and_log: "keeps (kept M S K) (evict_and_log protect)"
  unfolding evict_and_log_def by (intro keeps_intro kept_evict rd.keeps_propagate; assumption)

lemma keeps_same: "(\<And>e. en_store (snd (m e)) = en_store e) \<Longrightarrow> keeps P m"
  by (simp add: keeps_def)

lemma commit_store [simp]: "en_store (snd (engine_commit e)) = en_store e"
  by (auto simp: engine_commit_def finally_do_def persist_commit_def feed_flush_def modify_def split: option.split prod.split)

lemma commit_now_store [simp]: "en_store (snd (commit_now e)) = en_store e"
  by (simp add: commit_now_def bnd_def asks_def ret_def)

lemma keeps_commit: "keeps P engine_commit" "keeps P commit_now"
  by (rule keeps_same; simp)+

lemma keeps_check_persistence: "keeps P (check_persistence spec)"
  unfolding check_persistence_def by (intro keeps_intro)

lemma keeps_check_memory: "keeps (kept M S K) (check_memory spec keys)"
  unfolding check_memory_def by (intro keeps_intro rd.keeps_exists rd.keeps_bnd_exists)

lemma steps_run_write:
  assumes f: "find_command command args = Inr spec" and r: "restores_numbers (py_upper command) args"
    and w: "is_write spec" and m: "fst (snd M) \<or> \<not> fst M"
  shows "steps (kept M S (set (command_keys spec args))) (engine_run spec args (command_keys spec args)) (kept M S {}) (kept M S {})"
proof -
  let ?K = "command_keys spec args"
  have "kept M S {} (en_store (snd (finally_do (run_handler spec args) (refresh_keys ?K) e)))"
    if k: "kept M S (set ?K) (en_store e)" for e
  proof -
    have "writable M S (set ?K) (en_store e)" using k m by (simp add: writable_def mode_ok_modes keptD_modes)
    then have "writable M S (set ?K) (en_store (snd (run_handler spec args e)))"
      using run_handler_keeps(1) [OF f r w] by (simp add: keeps_def)
    then have "kept M S {} (fold store_refresh ?K (en_store (snd (run_handler spec args e))))"
      by (simp add: writable_def kept_refresh)
    then show ?thesis
      by (auto simp: finally_do_def refresh_keys_def store_do_def dest!: on_store_eq(1) split: prod.split sum.split)
  qed
  then show ?thesis using w by (auto simp: steps_def engine_run_def split: prod.split sum.split) (metis snd_conv)+
qed

lemma keeps_conj: "keeps P m \<Longrightarrow> keeps Q m \<Longrightarrow> keeps (\<lambda>s. P s \<and> Q s) m"
  by (simp add: keeps_def)

lemma steps_run:
  assumes f: "find_command command args = Inr spec" and r: "restores_numbers (py_upper command) args"
    and m: "is_write spec \<Longrightarrow> fst (snd M) \<or> \<not> fst M"
  shows "steps (\<lambda>s. (is_write spec \<longrightarrow> kept M S (set (command_keys spec args)) s) \<and> kept M S {} s)
    (engine_run spec args (command_keys spec args)) (kept M S {}) (kept M S {})"
proof (cases "is_write spec")
  case True
  show ?thesis by (rule steps_weaken [OF steps_run_write [OF f r True m [OF True]]]) (auto simp: True)
next
  case False
  have "steps (kept M S {}) (engine_run spec args (command_keys spec args)) (kept M S {}) (kept M S {})"
    unfolding engine_run_def using steps_keeps [OF run_handler_keeps(2) [OF f r False]] False by simp
  then show ?thesis by (rule steps_weaken) (auto simp: False)
qed

lemma execute_keeps:
  assumes r: "restores_numbers (py_upper command) args"
    and m: "\<And>spec. dict_get COMMANDS (py_upper command) = Some spec \<Longrightarrow> is_write spec \<Longrightarrow> fst (snd M) \<or> \<not> fst M"
  shows "keeps (kept M S {}) (execute command args)"
proof (rule keeps_steps, unfold execute_def Let_def, rule steps_lift)
  fix spec assume f: "find_command command args = Inr spec"
  let ?K = "command_keys spec args"
  let ?P = "\<lambda>s. (is_write spec \<longrightarrow> kept M S (set ?K) s) \<and> kept M S {} s"
  have start: "steps (kept M S {}) (if is_write spec then barriers ?K else ret ()) ?P (kept M S {})"
    using steps_barriers [of M S ?K] by (auto simp: steps_def ret_def split: prod.splits sum.splits)
  have memory: "steps ?P (check_memory spec ?K) ?P (kept M S {})"
    by (rule steps_keeps) (auto intro!: keeps_conj keeps_check_memory simp: keeps_def [of "\<lambda>s. _ \<longrightarrow> _ s"] keeps_check_memory [unfolded keeps_def, rule_format])
  have tail: "steps (kept M S {}) (bnd (if is_write spec then evict_and_log (set ?K) else ret ()) (\<lambda>_.
      bnd (modify (\<lambda>e. e\<lparr>en_commands := en_commands e + 1\<rparr>)) (\<lambda>_. bnd commit_now (\<lambda>_. ret result)))) (kept M S {}) (kept M S {})"
    for result
    by (intro steps_keeps keeps_intro keeps_bnd [OF keeps_evict_and_log] keeps_bnd [OF keeps_commit(2)]
        keeps_bnd [OF keeps_same]) (simp_all add: modify_def)
  show "steps (kept M S {}) (bnd (check_persistence spec) (\<lambda>_. bnd (if is_write spec then barriers ?K else ret ()) (\<lambda>_.
      bnd (check_memory spec ?K) (\<lambda>_. bnd (engine_run spec args ?K) (\<lambda>result.
      bnd (if is_write spec then evict_and_log (set ?K) else ret ()) (\<lambda>_.
      bnd (modify (\<lambda>e. e\<lparr>en_commands := en_commands e + 1\<rparr>)) (\<lambda>_. bnd commit_now (\<lambda>_. ret result)))))))) (kept M S {}) (kept M S {})"
    by (rule steps_bnd [OF steps_keeps [OF keeps_check_persistence]], assumption, assumption,
        rule steps_bnd [OF start], rule steps_bnd [OF memory], rule steps_bnd [OF steps_run [OF f r m [OF find_commandD(1) [OF f]]]], assumption, rule tail)
qed

section \<open>The other operations\<close>

lemma kept_switch: "kept M S K s \<Longrightarrow> kept (b, snd M) S K (s\<lparr>st_expiry_enabled := b\<rparr>)"
  by (auto simp: kept_def modes_def intro: snapped_data)

lemma kept_role: "kept M S K s \<Longrightarrow> kept (fst M, b, snd (snd M)) S K (s\<lparr>st_expiry_deletes := b\<rparr>)"
  by (auto simp: kept_def modes_def settled_def intro: snapped_data)

lemma kept_time: "kept M S K s \<Longrightarrow> kept M S K (s\<lparr>st_now := t\<rparr>)"
  by (rule kept_data) (simp_all add: modes_def)

lemma without_expiry_keeps:
  assumes m: "steps (P False) m (Q False) (Q False)"
    and P: "\<And>s b. P (st_expiry_enabled s) s \<Longrightarrow> P b (s\<lparr>st_expiry_enabled := b\<rparr>)"
    and Q: "\<And>s a b. Q a s \<Longrightarrow> Q b (s\<lparr>st_expiry_enabled := b\<rparr>)"
    and e: "P x (en_store e)" "st_expiry_enabled (en_store e) = x"
  shows "Q x (en_store (snd (without_expiry m e)))"
proof -
  let ?e = "with_expiry False e"
  have "P False (en_store ?e)" using P [of "en_store e" False] e by (simp add: with_expiry_def)
  then have "Q False (en_store (snd (m ?e)))"
    by (rule steps_both [OF m])
  then have "Q x (en_store (with_expiry x (snd (m ?e))))" using Q by (simp add: with_expiry_def)
  then show ?thesis
    using e(2) by (auto simp: without_expiry_def bnd_def asks_def modify_def finally_do_def split: prod.split sum.split)
qed

lemma apply_replicated_keeps:
  assumes r: "restores_numbers (py_upper command) args"
  shows "keeps (kept M S {}) (apply_replicated command args)"
proof (rule keeps_steps, unfold apply_replicated_def Let_def, rule steps_lift)
  fix spec assume f: "find_command command args = Inr spec"
  let ?K = "command_keys spec args"
  let ?P = "\<lambda>b s. (is_write spec \<longrightarrow> kept (b, snd M) S (set ?K) s) \<and> kept (b, snd M) S {} s"
  have run: "steps (?P False) (engine_run spec args ?K) (kept (False, snd M) S {}) (kept (False, snd M) S {})"
    by (rule steps_run [OF f r]) simp
  have "kept M S {} (en_store (snd (without_expiry (engine_run spec args ?K) e)))"
    if "kept M S (set ?K) (en_store e) \<and> kept M S {} (en_store e)" for e
  proof -
    have x: "st_expiry_enabled (en_store e) = fst M"
      using keptD_modes [OF that [THEN conjunct1]] unfolding modes_def by (metis fst_conv)
    have "kept (fst M, snd M) S {} (en_store (snd (without_expiry (engine_run spec args ?K) e)))"
    proof (rule without_expiry_keeps [where P = ?P and Q = "\<lambda>b. kept (b, snd M) S {}", OF run _ _ _ x])
      show "?P b (s\<lparr>st_expiry_enabled := b\<rparr>)" if "?P (st_expiry_enabled s) s" for s b
        using that kept_switch [of "(st_expiry_enabled s, snd M)" S _ s b] by simp
      show "kept (b, snd M) S {} (s\<lparr>st_expiry_enabled := b\<rparr>)" if "kept (a, snd M) S {} s" for s a b
        using kept_switch [OF that, of b] by simp
    qed (use that in simp)
    then show ?thesis by simp
  qed
  then have "steps (\<lambda>s. kept M S (set ?K) s \<and> kept M S {} s) (without_expiry (engine_run spec args ?K)) (kept M S {}) (kept M S {})"
    by (auto simp: steps_def split: prod.split sum.split) (metis snd_conv)+
  then show "steps (kept M S {}) (bnd (barriers ?K) (\<lambda>_. bnd (without_expiry (engine_run spec args ?K)) (\<lambda>_. commit_now)))
      (kept M S {}) (kept M S {})"
    by (rule steps_bnd [OF steps_barriers steps_bnd]) (rule steps_keeps [OF keeps_commit(2)])
qed

lemma expire_sample_modes: "modes (snd (expire_sample ks now s)) = modes s"
proof (induction ks now s rule: expire_sample.induct)
  case (2 k ks now s)
  have "modes (store_expire k s) = modes s" by (simp add: modes_def)
  then show ?case using 2 by (auto split: option.split prod.split)
qed simp

lemma expire_rounds_modes: "modes (snd (expire_rounds i n now s)) = modes s"
proof (induction i arbitrary: s)
  case (Suc i)
  obtain sample r where smp: "ks_sample n (st_volatile s) (st_rng s) = (sample, r)" by force
  obtain x s1 where x: "expire_sample sample now (s\<lparr>st_rng := r\<rparr>) = (x, s1)" by force
  have "modes s1 = modes s" using expire_sample_modes [of sample now "s\<lparr>st_rng := r\<rparr>"] x by simp
  then show ?case using Suc.IH [of s1] by (auto simp: smp x split: prod.split)
qed simp

lemma kept_expire_cycle:
  assumes "kept M S K s"
  shows "kept M S K (snd (expire_cycle n s))"
proof (rule kept_map [OF assms])
  show "modes (snd (expire_cycle n s)) = modes s" by (simp add: expire_cycle_def expire_rounds_modes)
qed (auto intro: expire_cycle_inv snapped_expire_cycle)

lemma cron_keeps: "keeps (kept M S {}) (engine_cron n)"
  unfolding engine_cron_def
  by (intro keeps_intro keeps_bnd [OF keeps_commit(2)] sv.keeps_bnd_on_persist kept_expire_cycle
      sv.keeps_bnd_modify keeps_bnd [OF sv.keeps_start_rewrite]; simp add: sv.gc_store)

section \<open>Runs\<close>

text \<open>
  What changes a running engine: commands and the other calls of its owner, whatever they return;
  the threads of the persistence layer; the passing of time.  A replica executes no writes of its
  clients (\<open>Node.execute\<close> of \<open>replication/node.py\<close> refuses them), and no payload given to \<open>RESTORE\<close>
  holds a score that is not a number.
\<close>

definition client_may :: "str \<Rightarrow> engine \<Rightarrow> bool" where
  "client_may command e \<longleftrightarrow>
     (case dict_get COMMANDS (py_upper command) of None \<Rightarrow> True | Some spec \<Rightarrow> is_write spec \<longrightarrow> mode_ok (en_store e))"

inductive engine_step :: "engine \<Rightarrow> engine \<Rightarrow> bool" where
  step_execute:
    "execute c args e = (r, e') \<Longrightarrow> client_may c e \<Longrightarrow> restores_numbers (py_upper c) args \<Longrightarrow> engine_step e e'"
| step_replicated:
    "apply_replicated c args e = (r, e') \<Longrightarrow> restores_numbers (py_upper c) args \<Longrightarrow> engine_step e e'"
| step_hold: "hold_commit e = (r, e') \<Longrightarrow> engine_step e e'"
| step_release: "release_commit e = (r, e') \<Longrightarrow> engine_step e e'"
| step_cron: "engine_cron n e = (r, e') \<Longrightarrow> engine_step e e'"
| step_slice: "step_snapshot n e = (r, e') \<Longrightarrow> engine_step e e'"
| step_begin: "engine_begin_snapshot ToCaller e = (r, e') \<Longrightarrow> engine_step e e'"
| step_rewrite: "engine_start_rewrite e = (r, e') \<Longrightarrow> engine_step e e'"
| step_save: "engine_save e = (r, e') \<Longrightarrow> engine_step e e'"
| step_time: "engine_step e (set_now t e)"
| step_role: "engine_step e (set_role primary e)"
| step_thread:
    "f \<in> {closing_step, snapshot_writer_step, on_writer aw_fsync_tick} \<Longrightarrow>
     engine_step e (e\<lparr>en_persist := map_option f (en_persist e)\<rparr>)"

definition keyspace_ok :: "snapshots \<Rightarrow> engine \<Rightarrow> bool" where
  "keyspace_ok S e \<longleftrightarrow> (\<exists>M. kept M S {} (en_store e))"

lemma keyspace_ok_keeps: "(\<And>M. keeps (kept M S {}) m) \<Longrightarrow> keyspace_ok S e \<Longrightarrow> m e = (r, e') \<Longrightarrow> keyspace_ok S e'"
  unfolding keyspace_ok_def by (blast dest: keepsD)

lemma keyspace_ok_same: "keyspace_ok S e \<Longrightarrow> en_store e' = en_store e \<Longrightarrow> keyspace_ok S e'"
  by (simp add: keyspace_ok_def)

lemma engine_step_ok: "engine_step e e' \<Longrightarrow> keyspace_ok S e \<Longrightarrow> keyspace_ok S e'"
proof (induction rule: engine_step.induct)
  case (step_execute c args e r e')
  from step_execute.prems obtain M where M: "kept M S {} (en_store e)" by (auto simp: keyspace_ok_def)
  have "keeps (kept M S {}) (execute c args)"
    using step_execute.hyps(2) M
    by (intro execute_keeps step_execute.hyps(3)) (auto simp: client_may_def mode_ok_modes keptD_modes)
  then have "kept M S {} (en_store e')"
    by (rule keepsD [where P = "kept M S {}" and m = "execute c args", OF _ M step_execute.hyps(1)])
  then show ?case unfolding keyspace_ok_def by blast
next
  case (step_replicated c args e r e')
  show ?case
    by (rule keyspace_ok_keeps [OF apply_replicated_keeps [OF step_replicated.hyps(2)] step_replicated.prems step_replicated.hyps(1)])
next
  case (step_time e t)
  then show ?case using kept_time unfolding keyspace_ok_def set_now_def by fastforce
next
  case (step_role e primary)
  then show ?case using kept_role unfolding keyspace_ok_def set_role_def by fastforce
next
  case (step_hold e r e')
  then show ?case by (auto simp: hold_commit_def modify_def intro: keyspace_ok_same)
next
  case (step_release e r e')
  have "keeps P release_commit" for P
    unfolding release_commit_def by (rule keeps_bnd [OF keeps_same keeps_commit(2)]) (simp add: modify_def)
  then show ?case using step_release by (blast intro: keyspace_ok_keeps)
next
  case (step_thread f e)
  then show ?case by (auto intro: keyspace_ok_same)
qed (blast intro: keyspace_ok_keeps cron_keeps sv.keeps_step_snapshot sv.keeps_begin sv.keeps_start_rewrite sv.keeps_save)+

lemma engine_steps_ok: "engine_step\<^sup>*\<^sup>* e e' \<Longrightarrow> keyspace_ok S e \<Longrightarrow> keyspace_ok S e'"
  by (induction rule: rtranclp_induct) (auto intro: engine_step_ok)

end
