(* ===== verification/Engine_Props.thy ===== *)
theory Engine_Props
  imports Engine_Inv
begin

text \<open>
  What the engine promises: a consistent keyspace in every run, snapshots that are copies of one
  moment, limits that hold after every write, and the refusals that leave everything as it is.
\<close>

section \<open>Consistency\<close>

lemma init_policy_tracks: "create_eviction_policy name = Some pol \<Longrightarrow> pol_tracks pol {}"
  by (auto simp: create_eviction_policy_def lru_tracks_def lfu_tracks_def random_tracks_def lfu_init_def ks.inv_empty
      ks.contains_list ks.list_empty split: if_splits)

lemma init_store_ok:
  assumes "create_eviction_policy name = Some pol" "store_init pol max_keys maxmemory now r slr = Some s"
  shows "store_wf s" "settled {} s"
  using assms init_policy_tracks [OF assms(1)]
  by (auto simp: store_init_def store_wf_def settled_def ks.inv_empty ks.contains_list ks.list_empty split: if_splits)



section \<open>Snapshots\<close>

text \<open>
  C17.  A snapshot is a copy of one moment.  Begun in any consistent state, and copied slice by slice
  while commands, replication, expiry and anything else change the keyspace in between, it has been
  delivered as soon as no job is running: each key once, with exactly the value and the deadline a
  copy made in one pause at the beginning would have.
\<close>

theorem snapshot_point_in_time:
  assumes "keyspace_ok {} e0" "engine_begin_snapshot t e0 = (Inr (), e1)"
    and "engine_step\<^sup>*\<^sup>* e1 e2" "st_job (en_store e2) = None"
  shows "\<exists>recs later. st_finished (en_store e2) = st_finished (en_store e0) @ recs # later
    \<and> set recs = set (store_snapshot (en_store e0)) \<and> distinct (map fst recs)"
proof -
  obtain s1 where s1: "begin_snapshot True (en_store e0) = Some s1" "en_store e1 = s1"
    using assms(2) by (auto simp: engine_begin_snapshot_def Let_def gc_hold_def split: option.splits)
  obtain M where M: "kept M {} {} (en_store e0)" using assms(1) by (auto simp: keyspace_ok_def)
  let ?S = "{(st_epoch s1, set (store_snapshot (en_store e0)), st_finished (en_store e0))}"
  have "covers (st_epoch s1) (set (store_snapshot (en_store e0))) (st_finished (en_store e0)) s1"
    by (rule covers_begin [OF keptD(1) [OF M] s1(1)])
  then have "kept M ?S {} s1"
    using begin_snapshot_inv [OF keptD(1,2) [OF M] s1(1)] keptD_modes [OF M] modes_begin [OF s1(1)]
    by (auto simp: kept_def snapped_def)
  then have "keyspace_ok ?S e1" unfolding keyspace_ok_def s1(2) [symmetric] by blast
  from engine_steps_ok [OF assms(3) this]
  have "covers (st_epoch s1) (set (store_snapshot (en_store e0))) (st_finished (en_store e0)) (en_store e2)"
    by (auto simp: keyspace_ok_def kept_def snapped_def)
  from covers_finished [OF this assms(4)] show ?thesis .
qed

text \<open>An engine with one key, for the concrete instances below.\<close>

definition demo_facts :: facts where
  "demo_facts = \<lparr>fc_pid = 1, fc_uptime = 0, fc_rewrite_ms = None, fc_pause_ms = None, fc_extra = []\<rparr>"

definition demo_engine :: "policy \<Rightarrow> engine" where
  "demo_engine pol =
     engine_init (store_set [107] (VStr [118]) False (the (store_init pol 1 0 (Fin 0) [] []))) None id demo_facts"

lemma demo_ok: "create_eviction_policy name = Some pol \<Longrightarrow> keyspace_ok {} (demo_engine pol)"
proof -
  assume pol: "create_eviction_policy name = Some pol"
  obtain s where s: "store_init pol 1 0 (Fin 0) [] [] = Some s" by (simp add: store_init_def)
  show ?thesis
    using wf_set [OF init_store_ok(1) [OF pol s], of "VStr [118]" False "[107]"]
      settled_set [OF init_store_ok(2) [OF pol s], of "VStr [118]" "[107]" False]
    by (auto simp: keyspace_ok_def kept_def demo_engine_def engine_init_def s modes_def)
qed

theorem snapshot_point_in_time_witness:
  "\<exists>e1 e2. engine_begin_snapshot ToCaller (demo_engine (LRU [])) = (Inr (), e1)
    \<and> step_snapshot 0 e1 = (Inr False, e2) \<and> st_job (en_store e2) = None
    \<and> (\<exists>recs later. st_finished (en_store e2) = st_finished (en_store (demo_engine (LRU []))) @ recs # later
        \<and> set recs = set (store_snapshot (en_store (demo_engine (LRU [])))))"
proof -
  obtain e1 where e1: "engine_begin_snapshot ToCaller (demo_engine (LRU [])) = (Inr (), e1)"
    by (simp add: engine_begin_snapshot_def Let_def gc_hold_def demo_engine_def engine_init_def store_set_def
        store_init_def store_insert_def begin_snapshot_def)
  obtain e2 where e2: "step_snapshot 0 e1 = (Inr False, e2)" "st_job (en_store e2) = None"
    using e1
    by (auto simp: engine_begin_snapshot_def Let_def gc_hold_def demo_engine_def engine_init_def store_set_def
        store_init_def store_insert_def begin_snapshot_def step_snapshot_def bnd_def asks_def ret_def on_store_def
        job_step_def snapshot_barrier_def job_take_def deliver_one_def hand_over_def gc_release_def is_expired_def
        new_entry_def job_done_def)
  have pol: "create_eviction_policy (lit ''lru'') = Some (LRU [])" by (simp add: create_eviction_policy_def)
  have "engine_step\<^sup>*\<^sup>* e1 e2" using step_slice [OF e2(1)] by simp
  from snapshot_point_in_time [OF demo_ok [OF pol] e1 this e2(2)] e1 e2 show ?thesis by blast
qed

section \<open>Limits\<close>

lemma execute_Inr:
  assumes "execute command args e = (Inr result, e')"
  obtains spec e1 e2 e3 e4 where "find_command command args = Inr spec"
    "check_persistence spec e = (Inr (), e)"
    "(if is_write spec then barriers (command_keys spec args) else ret ()) e = (Inr (), e1)"
    "check_memory spec (command_keys spec args) e1 = (Inr (), e2)"
    "engine_run spec args (command_keys spec args) e2 = (Inr result, e3)"
    "(if is_write spec then evict_and_log (set (command_keys spec args)) else ret ()) e3 = (Inr (), e4)"
    "commit_now (e4\<lparr>en_commands := en_commands e4 + 1\<rparr>) = (Inr (), e')"
  using assms
  by (auto simp: execute_def Let_def bnd_def lift_def modify_def ret_def check_persistence_def asks_def
      split: sum.splits prod.splits)

lemma propagate_store: "\<exists>ws. en_store (snd (propagate c args e)) = (en_store e)\<lparr>st_out := ws\<rparr>"
  by (auto simp: propagate_def intro: exI [of _ "st_out (en_store e)"])

lemma propagates_store: "\<exists>ws. en_store (snd (map_cmd (\<lambda>v. propagate c (f v)) xs e)) = (en_store e)\<lparr>st_out := ws\<rparr>"
proof (induction xs arbitrary: e)
  case Nil
  show ?case by (simp add: ret_def) (rule exI [of _ "st_out (en_store e)"], simp)
next
  case (Cons x xs)
  obtain r e1 where 1: "propagate c (f x) e = (r, e1)" by force
  obtain ws where ws: "en_store e1 = (en_store e)\<lparr>st_out := ws\<rparr>" using propagate_store [of c "f x" e] 1 by auto
  obtain ws' where "en_store (snd (map_cmd (\<lambda>v. propagate c (f v)) xs e1)) = (en_store e1)\<lparr>st_out := ws'\<rparr>"
    using Cons.IH by blast
  then show ?case using 1 ws by (auto simp: bnd_def ret_def split: sum.split prod.split)
qed

lemma evict_and_log_store:
  "\<exists>ws. en_store (snd (evict_and_log protect e)) = (snd (evict_if_needed protect (en_store e)))\<lparr>st_out := ws\<rparr>"
proof -
  obtain r e1 where 1: "on_store (evict_if_needed protect) e = (r, e1)" by force
  have s: "en_store e1 = snd (evict_if_needed protect (en_store e))" using on_store_eq(1) [OF 1] .
  show ?thesis
  proof (cases r)
    case (Inl x)
    then show ?thesis using 1 s by (auto simp: evict_and_log_def bnd_def intro: exI [of _ "st_out (en_store e1)"])
  next
    case (Inr vs)
    obtain r2 e2 where 2: "map_cmd (\<lambda>v. propagate ''DEL'' [SArg v]) vs e1 = (r2, e2)" by force
    obtain ws where "en_store e2 = (en_store e1)\<lparr>st_out := ws\<rparr>"
      using propagates_store [of "''DEL''" "\<lambda>v. [SArg v]" vs e1] 2 by auto
    then show ?thesis using 1 2 s Inr by (auto simp: evict_and_log_def bnd_def ret_def split: sum.split)
  qed
qed

lemma over_limit_out [simp]: "over_limit n (s\<lparr>st_out := ws\<rparr>) = over_limit n s"
  by (simp add: over_limit_def)

text \<open>The state in which a write meets the eviction: still consistent, all its keys re-accounted.\<close>

lemma execute_write_kept:
  assumes "kept M S {} (en_store e)" "find_command command args = Inr spec" "is_write spec" "fst (snd M) \<or> \<not> fst M"
    and "restores_numbers (py_upper command) args"
    and "barriers (command_keys spec args) e = (Inr (), e1)"
    and "check_memory spec (command_keys spec args) e1 = (Inr (), e2)"
    and "engine_run spec args (command_keys spec args) e2 = (Inr result, e3)"
  shows "kept M S {} (en_store e3)"
proof -
  have "kept M S (set (command_keys spec args)) (en_store e1)"
    using steps_barriers [of M S "command_keys spec args"] assms(1,6) by (auto simp: steps_def)
  then have "kept M S (set (command_keys spec args)) (en_store e2)"
    using keepsD [OF keeps_check_memory [of M S "set (command_keys spec args)" spec "command_keys spec args"] _ assms(7)] by simp
  then show ?thesis
    using steps_run_write [OF assms(2,5,3,4), of S] assms(8) by (auto simp: steps_def dest!: spec [of _ e2])
qed

text \<open>
  C18.  Under a policy that evicts, an accepted write leaves the store within its limits, unless every
  key that is left is one the command itself names.
\<close>

theorem write_within_limits:
  assumes "keyspace_ok {} e" "execute command args e = (Inr result, e')"
    and "dict_get COMMANDS (py_upper command) = Some spec" "is_write spec" "mode_ok (en_store e)"
    and "restores_numbers (py_upper command) args"
    and "st_eviction_enabled (en_store e)" "pol_evicts (st_policy (en_store e))"
  shows "\<not> over_limit 0 (en_store e') \<or> keys_of (en_store e') \<subseteq> set (command_keys spec args)"
  using assms(2)
proof (cases rule: execute_Inr)
  case (1 spec' e1 e2 e3 e4)
  have sp: "spec' = spec" using find_commandD(1) [OF 1(1)] assms(3) by simp
  obtain M where M: "kept M {} {} (en_store e)" using assms(1) by (auto simp: keyspace_ok_def)
  have mode: "fst (snd M) \<or> \<not> fst M" using assms(5) keptD_modes [OF M] by (auto simp: mode_ok_modes)
  have b: "barriers (command_keys spec' args) e = (Inr (), e1)" using 1(3) assms(4) sp by simp
  note k3 = execute_write_kept [OF M 1(1) _ mode assms(6) b 1(4) 1(5)]
  have w: "is_write spec'" using assms(4) sp by simp
  have m3: "st_eviction_enabled (en_store e3)" "pol_evicts (st_policy (en_store e3))"
    using keptD_modes [OF k3 [OF w]] keptD_modes [OF M] assms(7,8) unfolding modes_def by auto
  obtain ws where ws: "en_store e4 = (snd (evict_if_needed (set (command_keys spec args)) (en_store e3)))\<lparr>st_out := ws\<rparr>"
    using evict_and_log_store [of "set (command_keys spec args)" e3] 1(6) w sp by auto
  have "en_store e' = en_store e4" using commit_now_store [of "e4\<lparr>en_commands := en_commands e4 + 1\<rparr>"] 1(7) by simp
  then show ?thesis
    using evict_loop_spec [OF keptD(1,2) [OF k3 [OF w]] m3(2), of "set (command_keys spec args)"] ws m3
    by (auto simp: evict_if_needed_def split: prod.splits) force
qed

text \<open>The engine of the instances under a policy: one key is the limit, so a second one evicts.\<close>

lemma demo_store:
  "en_store (demo_engine (LRU [])) =
     \<lparr>st_max_keys = 1, st_maxmemory = 0, st_eviction_enabled = True, st_expiry_enabled = True, st_expiry_deletes = True,
      st_used_memory = entry_size [107] (VStr [118]), st_expired_keys = 0, st_evicted_keys = 0, st_hits = 0, st_misses = 0,
      st_policy = LRU [[107]], st_now = Fin 0, st_rng = [], st_sl_rng = [],
      st_data = [([107], \<lparr>e_value = VStr [118], e_expires = None, e_size = entry_size [107] (VStr [118]), e_copied = 0\<rparr>)],
      st_volatile = ks_empty, st_epoch = 0, st_job = None, st_out = [], st_finished = []\<rparr>"
  by (simp add: demo_engine_def engine_init_def store_set_def store_init_def store_insert_def Let_def new_entry_def lru_on_insert_def)

lemma lit_inject: "lit s = lit t \<longleftrightarrow> s = t"
  unfolding lit_def by (rule inj_map_eq_map) (auto intro: injI)

lemmas command_tables =
  COMMANDS_def hash_commands_def keyspace_commands_def list_commands_def server_commands_def set_commands_def
  string_commands_def zset_commands_def mk_command_def

lemmas handler_tables =
  HANDLERS_def hash_handlers_def keyspace_handlers_def list_handlers_def server_handlers_def set_handlers_def
  string_handlers_def zset_handlers_def

definition set_spec :: command_spec where
  "set_spec = \<lparr>cs_name = lit ''SET'', cs_min_args = 2, cs_max_args = None, cs_flags = [WRITE, DENYOOM],
     cs_key_spec = Some SINGLE_KEY\<rparr>"

lemma upper_set [simp]: "py_upper (lit ''SET'') = lit ''SET''"
  by (simp add: lit_def py_upper_def upper_char_def)

lemma set_lookup [simp]:
  "dict_get COMMANDS (lit ''SET'') = Some set_spec" "dict_get HANDLERS (lit ''SET'') = Some set_cmd"
  by (simp_all add: command_tables handler_tables set_spec_def lit_inject)

lemma set_spec_simps [simp]:
  "is_write set_spec" "cs_name set_spec = lit ''SET''" "DENYOOM \<in> set (cs_flags set_spec)"
  "command_keys set_spec (SArg k # args) = [k]" "find_command (lit ''SET'') (a # b # args) = Inr set_spec"
  by (simp_all add: set_spec_def is_write_def command_keys_def spec_keys_def SINGLE_KEY_def find_command_def check_arity_def)

lemmas monad_defs = bnd_def ret_def lift_def asks_def throw_def modify_def

section \<open>Engines without persistence\<close>

definition in_memory :: "engine \<Rightarrow> bool" where
  "in_memory e \<longleftrightarrow> en_persist e = None \<and> en_feed e = None"

lemma in_memory_update [simp]:
  "in_memory (e\<lparr>en_store := s\<rparr>) = in_memory e" "in_memory (e\<lparr>en_sent := n\<rparr>) = in_memory e"
  "in_memory (e\<lparr>en_commands := i\<rparr>) = in_memory e"
  by (simp_all add: in_memory_def)

lemma send_effects_memory: "in_memory e \<Longrightarrow> send_effects ws e = (Inr (), e)"
  by (induction ws) (simp_all add: ret_def bnd_def send_effect_def in_memory_def log_open_def feed_active_def)

lemma hand_over_memory: "in_memory e \<Longrightarrow> hand_over e = (Inr (), e\<lparr>en_sent := length (st_out (en_store e))\<rparr>)"
  by (simp add: hand_over_def Let_def send_effects_memory)

lemma on_store_memory:
  assumes "in_memory e" "st_finished (snd (f (en_store e))) = st_finished (en_store e)"
  shows "on_store f e = (Inr (fst (f (en_store e))),
    e\<lparr>en_store := snd (f (en_store e)), en_sent := length (st_out (snd (f (en_store e))))\<rparr>)"
proof -
  obtain x s where f: "f (en_store e) = (x, s)" by force
  with assms show ?thesis by (simp add: on_store_def bnd_def ret_def hand_over_memory)
qed

lemma propagate_memory:
  assumes "in_memory e" "\<not> en_replaying e"
  shows "propagate c args e = (Inr (),
    e\<lparr>en_store := (en_store e)\<lparr>st_out := st_out (en_store e) @ [lit c # map arg_text args]\<rparr>,
      en_sent := length (st_out (en_store e)) + 1\<rparr>)"
  using assms by (simp add: propagate_def hand_over_memory)

lemma commit_memory: "in_memory e \<Longrightarrow> commit_now e = (Inr (), e)"
  by (simp add: commit_now_def bnd_def asks_def ret_def engine_commit_def finally_do_def persist_commit_def feed_flush_def
      modify_def in_memory_def)

lemma check_persistence_memory: "in_memory e \<Longrightarrow> check_persistence spec e = (Inr (), e)"
  by (simp add: check_persistence_def bnd_def asks_def lift_def in_memory_def)

lemma barriers_idle: "st_job (en_store e) = None \<Longrightarrow> barriers keys e = (Inr (), e)"
  by (simp add: barriers_def bnd_def asks_def ret_def)

lemma demo_memory: "in_memory (demo_engine pol)" "\<not> en_replaying (demo_engine pol)" "en_set_order (demo_engine pol) = id"
  by (simp_all add: in_memory_def demo_engine_def engine_init_def)

lemma evict_finished: "st_finished (snd (evict_loop protect s)) = st_finished s"
proof (induction protect s rule: evict_loop.induct)
  case (1 protect s)
  obtain v r where v: "pol_victim (st_now s) protect (st_rng s) (st_policy s) = (v, r)" by force
  show ?case
  proof (cases "over_limit 0 s \<and> (\<exists>k. v = Some k \<and> get_entry s k \<noteq> None)")
    case True
    then obtain k where k: "over_limit 0 s" "v = Some k" "get_entry s k \<noteq> None" by blast
    have "snd (evict_loop protect s) = snd (evict_loop protect (store_remove k (s\<lparr>st_rng := r\<rparr>)
        \<lparr>st_evicted_keys := st_evicted_keys (store_remove k (s\<lparr>st_rng := r\<rparr>)) + 1\<rparr>))"
      using k v by (subst evict_loop.simps) (auto simp: Let_def split: prod.split)
    then show ?thesis using 1 [OF _ v [symmetric] k(2,3) refl] k(1) by simp
  next
    case False
    then show ?thesis using v by (subst evict_loop.simps) (auto split: option.split)
  qed
qed

lemma propagates_memory:
  "in_memory e \<Longrightarrow> \<not> en_replaying e \<Longrightarrow>
   \<exists>ys e'. map_cmd (\<lambda>v. propagate c (f v)) xs e = (Inr ys, e') \<and> in_memory e'"
proof (induction xs arbitrary: e)
  case (Cons x xs)
  let ?e = "e\<lparr>en_store := (en_store e)\<lparr>st_out := st_out (en_store e) @ [lit c # map arg_text (f x)]\<rparr>,
      en_sent := length (st_out (en_store e)) + 1\<rparr>"
  obtain ys e' where "map_cmd (\<lambda>v. propagate c (f v)) xs ?e = (Inr ys, e')" "in_memory e'"
    using Cons.IH [of ?e] Cons.prems by auto
  then show ?case using Cons.prems by (simp add: bnd_def propagate_memory ret_def)
qed (simp add: ret_def)

lemma evict_and_log_memory:
  assumes "in_memory e" "\<not> en_replaying e"
  shows "\<exists>e'. evict_and_log protect e = (Inr (), e') \<and> in_memory e'"
proof -
  have "st_finished (snd (evict_if_needed protect (en_store e))) = st_finished (en_store e)"
    by (simp add: evict_if_needed_def evict_finished)
  note on = on_store_memory [where f = "evict_if_needed protect", OF assms(1) this]
  show ?thesis
    using propagates_memory [where c = "''DEL''" and f = "\<lambda>v. [SArg v]" and
        e = "snd (on_store (evict_if_needed protect) e)" and xs = "fst (evict_if_needed protect (en_store e))"] assms
    by (auto simp: evict_and_log_def bnd_def on ret_def)
qed

lemma demo_evicts:
  "\<exists>e'. execute (lit ''SET'') [SArg [109], SArg [119]] (demo_engine (LRU [])) = (Inr OK, e')"
proof -
  obtain e3 where e3: "engine_run set_spec [SArg [109], SArg [119]] [[109]] (demo_engine (LRU [])) = (Inr OK, e3)"
    "in_memory e3" "\<not> en_replaying e3"
    by (simp add: bnd_def lift_def demo_memory demo_store asks_def ret_def engine_run_def finally_do_def run_handler_def
        set_cmd_def key_arg_def str_arg_def set_defaults_def exists_key_def peek_def on_store_memory store_peek_def
        store_lookup_def store_do_def store_set_def store_insert_def propagate_memory set_deadline_def refresh_keys_def
        store_refresh_def Let_def new_entry_def)
  obtain e4 where "evict_and_log {[109]} e3 = (Inr (), e4)" "in_memory e4" using evict_and_log_memory [OF e3(2,3)] by blast
  then show ?thesis
    using e3(1) by (simp add: execute_def Let_def bnd_def lift_def demo_memory demo_store check_persistence_memory barriers_idle
        check_memory_def asks_def ret_def modify_def commit_memory)
qed

theorem write_within_limits_witness:
  "\<exists>e'. execute (lit ''SET'') [SArg [109], SArg [119]] (demo_engine (LRU [])) = (Inr OK, e')
    \<and> (\<not> over_limit 0 (en_store e') \<or> keys_of (en_store e') \<subseteq> {[109]})"
proof -
  obtain e' where e': "execute (lit ''SET'') [SArg [109], SArg [119]] (demo_engine (LRU [])) = (Inr OK, e')"
    using demo_evicts by blast
  have pol: "create_eviction_policy (lit ''lru'') = Some (LRU [])" by (simp add: create_eviction_policy_def)
  have "restores_numbers (py_upper (lit ''SET'')) [SArg [109], SArg [119]]" by (simp add: restores_numbers_def lit_inject)
  from write_within_limits [OF demo_ok [OF pol] e' _ _ _ this, of set_spec] e' show ?thesis
    by (simp add: demo_store mode_ok_def)
qed

end
