(* ===== verification/Handler_Effects.thy ===== *)
theory Handler_Effects
  imports Engine_Props
begin

text \<open>
  The second contract of the handlers: how what they do reaches the log and the replicas.  A handler
  touches the persistence layer and the feed only through the store's callbacks and \<open>propagate\<close>, so
  a relation between engines that these keep holds between the engine before and after a handler.
\<close>

section \<open>The history of effects\<close>

definition extends :: "store \<Rightarrow> store \<Rightarrow> bool" where
  "extends s s' \<longleftrightarrow> (\<exists>ws. st_out s' = st_out s @ ws)"

lemma extends_refl [simp]: "extends s s"
  by (simp add: extends_def)

lemma extends_trans: "extends s s' \<Longrightarrow> extends s' s'' \<Longrightarrow> extends s s''"
  by (auto simp: extends_def)

lemma extends_out: "st_out s' = st_out s \<Longrightarrow> extends s s'"
  by (simp add: extends_def)

lemma extends_lookup [simp]: "extends s (snd (store_lookup k s))"
  by (auto simp: store_lookup_def store_expire_def Let_def extends_def split: option.split)

lemma lookup_extends: "store_lookup k s = (r, s') \<Longrightarrow> extends s s'"
  using extends_lookup [of s k] by simp

lemma out_simps [simp]: "st_out (store_insert k v s) = st_out s" "st_out (put_value k v s) = st_out s"
  by (simp_all add: store_insert_def put_value_def Let_def split: option.split)

lemma extends_after_lookup: "store_lookup k s = (r, s1) \<Longrightarrow> st_out s' = st_out s1 \<Longrightarrow> extends s s'"
  by (rule extends_trans [OF lookup_extends extends_out])

lemma extends_reads [simp]:
  "extends s (snd (store_get k s))" "extends s (snd (store_peek k s))" "extends s (snd (store_read kind k s))"
  "extends s (snd (store_record k s))"
proof -
  show g: "extends s (snd (store_get k s))"
    by (auto simp: store_get_def intro: extends_after_lookup split: prod.split option.split)
  show "extends s (snd (store_peek k s))" by (simp add: store_peek_def)
  show "extends s (snd (store_read kind k s))"
    using g by (auto simp: store_read_def split: prod.split option.split)
  show "extends s (snd (store_record k s))"
    by (auto simp: store_record_def intro: lookup_extends split: prod.split option.split)
qed

lemma extends_iter [simp]: "extends s (snd (iter_keys s))"
proof -
  have "extends s (snd (iter_loop ks s))" for ks
  proof (induction ks arbitrary: s)
    case (Cons k ks)
    obtain r s1 where l: "store_lookup k s = (r, s1)" by force
    from Cons.IH [of s1] show ?case using extends_trans [OF lookup_extends [OF l]] by (auto simp: l split: prod.split)
  qed simp
  then show ?thesis by (simp add: iter_keys_def)
qed

lemma extends_writes [simp]:
  "extends s (snd (store_write_target kind mk fresh k s))" "extends s (put_value k v s)" "extends s (store_set k v kt s)"
  "extends s (snd (store_delete k s))" "extends s (snd (store_set_expiry k t s))" "extends s (snd (store_persist k s))"
proof -
  show "extends s (snd (store_write_target kind mk fresh k s))"
    by (auto simp: store_write_target_def intro: extends_after_lookup split: prod.split option.split)
  show "extends s (put_value k v s)" by (rule extends_out) simp
  show "extends s (store_set k v kt s)"
    by (cases kt) (auto simp: store_set_def Let_def intro: extends_after_lookup extends_out split: prod.split option.split)
  show "extends s (snd (store_delete k s))" "extends s (snd (store_set_expiry k t s))" "extends s (snd (store_persist k s))"
    by (auto simp: store_delete_def store_set_expiry_def store_persist_def intro: extends_after_lookup split: prod.split option.split)
qed

lemma extends_load [simp]: "extends s (load_record rec s)"
proof -
  have "extends s (store_set k v False (s\<lparr>st_sl_rng := r\<rparr>))" for k v r
    using extends_writes(3) [of "s\<lparr>st_sl_rng := r\<rparr>" k v False] by (simp add: extends_def)
  then show ?thesis
    by (auto simp: load_record_def Let_def intro: extends_trans [OF _ extends_writes(5)] split: prod.split option.split)
qed

lemma out_barriers [simp]: "st_out (fold snapshot_barrier ks s) = st_out s"
  by (induction ks arbitrary: s) simp_all

lemma out_refreshes [simp]: "st_out (fold store_refresh ks s) = st_out s"
  by (induction ks arbitrary: s) simp_all

lemma out_job_step [simp]: "st_out (snd (job_step n s)) = st_out s"
  by (auto simp: job_step_def Let_def split: option.split)

lemma out_clear [simp]: "st_out (store_clear s) = st_out s"
proof -
  have "st_out (case st_job s of None \<Rightarrow> s | Some j \<Rightarrow> snd (job_step (job_remaining j) s)) = st_out s"
    by (simp split: option.split)
  then show ?thesis by (simp add: store_clear_def Let_def)
qed

lemma extends_clear [simp]: "extends s (store_clear s)"
  by (rule extends_out) simp

end
