(* ===== verification/Repl_Stream.thy ===== *)
theory Repl_Stream
  imports Resp_Stream Aof
begin

text \<open>
  \<open>replication/stream.py\<close>: the backlog, which holds the last bytes of the replication stream by
  offset, and the parser of the stream.  The parser works on a buffer and a position in it; a position
  computed from a damaged length may be negative, and then indexes from the end as Python does.
\<close>

section \<open>Python sequences\<close>

definition clip :: "nat \<Rightarrow> int \<Rightarrow> nat" where
  "clip n i = (if i < 0 then nat (int n + i) else min n (nat i))"

text \<open>\<open>buf[i]\<close> (\<open>None\<close> is \<open>IndexError\<close>), \<open>buf[i:j]\<close>, \<open>del buf[:i]\<close> and \<open>buf.find(b"\r\n", i)\<close>.\<close>

definition py_index :: "bytes \<Rightarrow> int \<Rightarrow> nat option" where
  "py_index buf i =
     (if - int (length buf) \<le> i \<and> i < int (length buf)
      then Some (buf ! nat (if i < 0 then int (length buf) + i else i)) else None)"

definition py_slice :: "bytes \<Rightarrow> int \<Rightarrow> int \<Rightarrow> bytes" where
  "py_slice buf i j = drop (clip (length buf) i) (take (clip (length buf) j) buf)"

definition find_eol :: "bytes \<Rightarrow> int \<Rightarrow> int" where
  "find_eol buf i =
     (case find_crlf (drop (clip (length buf) i) buf) of
        None \<Rightarrow> - 1
      | Some (l, _) \<Rightarrow> int (clip (length buf) i + length l))"

section \<open>The backlog\<close>

record backlog =
  bl_capacity :: int
  bl_buf :: bytes
  bl_start :: int
  bl_end :: int

definition backlog_init :: "int \<Rightarrow> int \<Rightarrow> exn + backlog" where
  "backlog_init capacity offset =
     (if capacity \<le> 0 then Inl (Uncaught ''ValueError'')
      else Inr \<lparr>bl_capacity = capacity, bl_buf = [], bl_start = offset, bl_end = offset\<rparr>)"

definition bl_append :: "bytes \<Rightarrow> backlog \<Rightarrow> backlog" where
  "bl_append data b =
     (let buf = bl_buf b @ data;
          b1 = b\<lparr>bl_buf := buf, bl_end := bl_end b + int (length data)\<rparr>;
          excess = int (length buf) - bl_capacity b
      in if 0 < excess then b1\<lparr>bl_buf := drop (nat excess) buf, bl_start := bl_start b + excess\<rparr> else b1)"

definition bl_contains :: "int \<Rightarrow> backlog \<Rightarrow> bool" where
  "bl_contains offset b \<longleftrightarrow> bl_start b \<le> offset \<and> offset \<le> bl_end b"

definition bl_since :: "int \<Rightarrow> backlog \<Rightarrow> bytes option" where
  "bl_since offset b =
     (if \<not> bl_contains offset b then None
      else Some (py_slice (bl_buf b) (offset - bl_start b) (int (length (bl_buf b)))))"

definition bl_reset :: "int \<Rightarrow> backlog \<Rightarrow> backlog" where
  "bl_reset offset b = b\<lparr>bl_buf := [], bl_start := offset, bl_end := offset\<rparr>"

section \<open>The parser\<close>

definition expected_array :: "nat \<Rightarrow> exn" where
  "expected_array b =
     Raised (mk_error ProtocolError (lit ''expected an array in the replication stream, got '' @ nat_text b) None)"

fun read_args :: "nat \<Rightarrow> bytes \<Rightarrow> int \<Rightarrow> str list \<Rightarrow> exn + (str list \<times> int) option" where
  "read_args 0 buf cursor args = Inr (Some (args, cursor))"
| "read_args (Suc n) buf cursor args =
     (if int (length buf) \<le> cursor then Inr None
      else case py_index buf cursor of
        None \<Rightarrow> Inl (Uncaught ''IndexError'')
      | Some b \<Rightarrow>
          if b \<noteq> 36 then Inl (Raised (err ProtocolError ''expected a bulk string in the replication stream''))
          else let eol = find_eol buf cursor in
            if eol < 0 then Inr None
            else case bytes_int (py_slice buf (cursor + 1) eol) of
              None \<Rightarrow> Inl (Uncaught ''ValueError'')
            | Some sz \<Rightarrow>
                let start = eol + 2; stop = start + sz in
                if int (length buf) < stop + 2 then Inr None
                else read_args n buf (stop + 2) (args @ [to_str (py_slice buf start stop)]))"

definition stream_next :: "bytes \<Rightarrow> int \<Rightarrow> exn + (str list \<times> int) option" where
  "stream_next buf i =
     (if int (length buf) \<le> i then Inr None
      else case py_index buf i of
        None \<Rightarrow> Inl (Uncaught ''IndexError'')
      | Some b \<Rightarrow>
          if b \<noteq> 42 then Inl (expected_array b)
          else let eol = find_eol buf i in
            if eol < 0 then Inr None
            else case bytes_int (py_slice buf (i + 1) eol) of
              None \<Rightarrow> Inl (Uncaught ''ValueError'')
            | Some count \<Rightarrow> read_args (nat count) buf (eol + 2) [])"

section \<open>The backlog keeps the end of the stream\<close>

text \<open>\<open>holds base h b\<close>: \<open>h\<close> is all of the stream since offset \<open>base\<close>.\<close>

definition holds :: "int \<Rightarrow> bytes \<Rightarrow> backlog \<Rightarrow> bool" where
  "holds base h b \<longleftrightarrow> 0 < bl_capacity b \<and> bl_end b = base + int (length h)
     \<and> bl_start b = base + int (length h - nat (bl_capacity b)) \<and> bl_buf b = drop (length h - nat (bl_capacity b)) h"

lemma holds_reset: "0 < bl_capacity b \<Longrightarrow> holds base [] (bl_reset base b)"
  by (simp add: holds_def bl_reset_def)

lemma holds_init: "backlog_init capacity base = Inr b \<Longrightarrow> holds base [] b"
  by (auto simp: backlog_init_def holds_def split: if_splits)

lemma holds_append:
  assumes "holds base h b"
  shows "holds base (h @ data) (bl_append data b)"
proof -
  define c d where "c = nat (bl_capacity b)" and "d = length h - c"
  from assms have b: "bl_capacity b = int c" "0 < c" "bl_end b = base + int (length h)" "bl_start b = base + int d"
    and "bl_buf b = drop d h" by (auto simp: holds_def c_def d_def)
  then have buf: "bl_buf b @ data = drop d (h @ data)" by (simp add: d_def)
  show ?thesis
  proof (cases "c < length (drop d (h @ data))")
    case True
    then have "drop (nat (int (length (drop d (h @ data))) - int c)) (drop d (h @ data)) = drop (length (h @ data) - c) (h @ data)"
      by (auto simp: d_def nat_diff_distrib intro!: arg_cong2 [where f = append] arg_cong [where f = "\<lambda>n. drop n _"])
    with True b show ?thesis unfolding holds_def bl_append_def Let_def buf by (auto simp: d_def)
  next
    case False
    then have d: "length (h @ data) - c = d" using b(2) by (auto simp: d_def)
    have "bl_append data b = b\<lparr>bl_buf := drop d (h @ data), bl_end := bl_end b + int (length data)\<rparr>"
      using False b(1) by (simp add: bl_append_def Let_def buf)
    then show ?thesis using b d by (simp add: holds_def del: length_append drop_append) simp
  qed
qed

lemma holds_since:
  assumes "holds base h b"
  shows "bl_since n b = (if base + int (length h - nat (bl_capacity b)) \<le> n \<and> n \<le> base + int (length h)
    then Some (drop (nat (n - base)) h) else None)"
proof -
  define d where "d = length h - nat (bl_capacity b)"
  from assms have b: "bl_start b = base + int d" "bl_end b = base + int (length h)" "bl_buf b = drop d h" "d \<le> length h"
    by (auto simp: holds_def d_def)
  show ?thesis
  proof (cases "base + int d \<le> n \<and> n \<le> base + int (length h)")
    case True
    then have "nat (n - (base + int d)) + d = nat (n - base)" "min (length h - d) (nat (n - (base + int d))) = nat (n - (base + int d))"
      by arith+
    then show ?thesis using True b by (simp add: bl_since_def bl_contains_def py_slice_def clip_def flip: d_def)
  next
    case False
    then show ?thesis using b by (simp add: bl_since_def bl_contains_def flip: d_def)
  qed
qed

text \<open>
  C12.  The backlog is the tail of the stream: whatever payloads have been appended since it was
  started at an offset, asking for the bytes from an offset on gives exactly those bytes of the stream
  while the offset is among the last \<open>capacity\<close> bytes, and nothing otherwise.
\<close>

theorem backlog_is_stream_tail:
  assumes "backlog_init capacity base = Inr b0"
    and "h = concat payloads"
  shows "bl_since n (fold bl_append payloads b0) =
    (if base + max 0 (int (length h) - capacity) \<le> n \<and> n \<le> base + int (length h) then Some (drop (nat (n - base)) h) else None)
    \<and> int (length (bl_buf (fold bl_append payloads b0))) = min capacity (int (length h))"
proof -
  have cap: "0 < capacity" using assms(1) by (auto simp: backlog_init_def split: if_splits)
  have "holds base (h0 @ concat payloads) (fold bl_append payloads b)" if "holds base h0 b" for h0 b
    using that
  proof (induction payloads arbitrary: h0 b)
    case (Cons p ps)
    from Cons.IH [OF holds_append [OF Cons.prems]] show ?case by simp
  qed simp
  from this [OF holds_init [OF assms(1)]] have hd: "holds base h (fold bl_append payloads b0)" by (simp add: assms(2))
  have "bl_capacity (fold bl_append payloads b) = bl_capacity b" for b
    by (induction payloads arbitrary: b) (auto simp: bl_append_def Let_def)
  then have c: "bl_capacity (fold bl_append payloads b0) = capacity"
    using assms(1) by (auto simp: backlog_init_def split: if_splits)
  show ?thesis using holds_since [OF hd, of n] hd cap unfolding c by (auto simp: holds_def c)
qed

theorem backlog_is_stream_tail_witness:
  "\<exists>b. backlog_init 4 10 = Inr b \<and> bl_since 13 (fold bl_append [[1, 2, 3], [4, 5, 6]] b) = Some [4, 5, 6]
    \<and> bl_since 11 (fold bl_append [[1, 2, 3], [4, 5, 6]] b) = None"
proof -
  obtain b where b: "backlog_init 4 10 = Inr b" by (simp add: backlog_init_def)
  from backlog_is_stream_tail [OF b refl, where payloads = "[[1, 2, 3], [4, 5, 6]]" and n = 13]
    backlog_is_stream_tail [OF b refl, where payloads = "[[1, 2, 3], [4, 5, 6]]" and n = 11] b
  show ?thesis by (auto simp: eval_nat_numeral)
qed

section \<open>Commands in the stream\<close>

lemma at_line:
  assumes "13 \<notin> set l" "b \<noteq> 13" and buf_def: "buf = pre @ b # l @ CRLF @ r"
  shows "py_index buf (int (length pre)) = Some b" "find_eol buf (int (length pre)) = int (length pre + 1 + length l)"
    "py_slice buf (int (length pre) + 1) (int (length pre + 1 + length l)) = l" "\<not> int (length buf) \<le> int (length pre)"
proof -
  have "find_crlf (b # l @ CRLF @ r) = Some (b # l, r)" using find_crlf_line [of "b # l" r] assms(1,2) by simp
  then show "find_eol buf (int (length pre)) = int (length pre + 1 + length l)"
    by (simp add: find_eol_def clip_def buf_def)
  show "py_slice buf (int (length pre) + 1) (int (length pre + 1 + length l)) = l"
    by (simp add: py_slice_def clip_def buf_def nat_add_distrib)
qed (simp_all add: py_index_def buf_def)

lemma at_part:
  assumes "find_crlf (b # piece) = None"
  shows "find_eol (pre @ b # piece) (int (length pre)) = - 1" "py_index (pre @ b # piece) (int (length pre)) = Some b"
  using assms by (simp_all add: find_eol_def clip_def py_index_def)

lemma find_crlf_Cons: "b \<noteq> 13 \<Longrightarrow> find_crlf (b # piece) = map_option (\<lambda>(l, r). (b # l, r)) (find_crlf piece)"
  by simp

lemma read_args_stream:
  assumes "\<And>w. w \<in> set ws \<Longrightarrow> length w < 10 ^ 18" "piece @ fut = bulks ws @ rest"
  shows "(\<exists>r. piece = bulks ws @ r \<and> r @ fut = rest
      \<and> read_args (length ws) (pre @ piece) (int (length pre)) args = Inr (Some (args @ map to_str ws, int (length pre + length (bulks ws)))))
    \<or> fut \<noteq> [] \<and> read_args (length ws) (pre @ piece) (int (length pre)) args = Inr None"
  using assms
proof (induction ws arbitrary: pre piece args)
  case Nil
  then show ?case by auto
next
  case (Cons w ws)
  show ?case
  proof (cases piece)
    case Nil
    then show ?thesis using Cons.prems(2) by (auto simp: bulk_def)
  next
    case (Cons b piece')
    let ?l = "nat_text (length w)"
    have b: "b = 36" and line: "piece' @ fut = ?l @ CRLF @ (w @ CRLF @ bulks ws @ rest)"
      using Cons.prems(2) Cons by (simp_all add: bulk_def)
    have len: "length w < 10 ^ 18" using Cons.prems(1) by simp
    from line nat_text_no_cr show ?thesis
    proof (cases rule: line_cases)
      case part
      then have "find_crlf (b # piece') = None" using b by simp
      from at_part [OF this, of pre] part b show ?thesis by (simp add: Cons)
    next
      case (whole r)
      define pre' where "pre' = pre @ b # ?l @ CRLF"
      have buf: "pre @ piece = pre' @ r" by (simp add: Cons whole(1) pre'_def)
      have al: "py_index (pre @ piece) (int (length pre)) = Some b"
        "find_eol (pre @ piece) (int (length pre)) = int (length pre + 1 + length ?l)"
        "py_slice (pre @ piece) (int (length pre) + 1) (int (length pre + 1 + length ?l)) = ?l"
        "\<not> int (length (pre @ piece)) \<le> int (length pre)"
        using at_line [OF nat_text_no_cr, of b "pre @ piece" pre "length w" r] b by (simp_all add: Cons whole(1))
      have p2: "int (length pre + 1 + length ?l) + 2 = int (length pre')" by (simp add: pre'_def CRLF_def)
      show ?thesis
      proof (cases "length r < length w + 2")
        case True
        then have "fut \<noteq> []" using arg_cong [OF whole(2), of length] by (auto simp: CRLF_def)
        moreover have "read_args (length (w # ws)) (pre @ piece) (int (length pre)) args = Inr None"
          using True al b bytes_int_text [OF len] p2 buf by (simp add: Let_def)
        ultimately show ?thesis by blast
      next
        case False
        define r' where "r' = drop (length w + 2) r"
        have w: "take (length w + 2) r = w @ CRLF" "r' @ fut = bulks ws @ rest"
          using arg_cong [OF whole(2), of "take (length w + 2)"] arg_cong [OF whole(2), of "drop (length w + 2)"] False
          by (simp_all add: CRLF_def r'_def)
        have r: "r = w @ CRLF @ r'" using w(1) append_take_drop_id [of "length w + 2" r] by (simp add: r'_def)
        define pre2 where "pre2 = pre' @ w @ CRLF"
        have buf2: "pre @ piece = pre2 @ r'" by (simp add: buf r pre2_def)
        have sl: "py_slice (pre2 @ r') (int (length pre')) (int (length pre') + int (length w)) = w"
          by (simp add: py_slice_def clip_def pre2_def nat_add_distrib)
        have n2: "int (length pre') + int (length w) + 2 = int (length pre2)" by (simp add: pre2_def CRLF_def)
        have "read_args (length (w # ws)) (pre @ piece) (int (length pre)) args
            = read_args (length ws) (pre2 @ r') (int (length pre2)) (args @ [to_str w])"
          using al b bytes_int_text [OF len] p2 sl n2 False by (simp add: Let_def buf2)
        moreover have "piece = bulks (w # ws) @ r0" if "r' = bulks ws @ r0" for r0
          using that Cons b whole(1) r by (simp add: bulk_def)
        moreover have "length pre2 = length pre + length (bulk w)" using b by (simp add: pre2_def pre'_def bulk_def)
        ultimately show ?thesis
          using Cons.IH [OF _ w(2), of pre2 "args @ [to_str w]"] Cons.prems(1) by (auto simp: add.assoc)
      qed
    qed
  qed
qed

lemma stream_next_encoded:
  assumes "length ws < 10 ^ 18" "\<And>w. w \<in> set ws \<Longrightarrow> length w < 10 ^ 18" "piece @ fut = encoded ws @ rest"
  shows "(\<exists>r. piece = encoded ws @ r \<and> r @ fut = rest
      \<and> stream_next (pre @ piece) (int (length pre)) = Inr (Some (map to_str ws, int (length pre + length (encoded ws)))))
    \<or> fut \<noteq> [] \<and> stream_next (pre @ piece) (int (length pre)) = Inr None"
proof (cases piece)
  case Nil
  then show ?thesis using assms(3) by (auto simp: encoded_def stream_next_def)
next
  case (Cons b piece')
  let ?l = "nat_text (length ws)"
  have b: "b = 42" and line: "piece' @ fut = ?l @ CRLF @ (bulks ws @ rest)"
    using assms(3) Cons by (simp_all add: encoded_def)
  from line nat_text_no_cr show ?thesis
  proof (cases rule: line_cases)
    case part
    then have "find_crlf (b # piece') = None" using b by simp
    from at_part [OF this, of pre] part b show ?thesis by (simp add: Cons stream_next_def)
  next
    case (whole r)
    define pre' where "pre' = pre @ b # ?l @ CRLF"
    have buf: "pre @ piece = pre' @ r" by (simp add: Cons whole(1) pre'_def)
    have al: "py_index (pre @ piece) (int (length pre)) = Some b"
      "find_eol (pre @ piece) (int (length pre)) = int (length pre + 1 + length ?l)"
      "py_slice (pre @ piece) (int (length pre) + 1) (int (length pre + 1 + length ?l)) = ?l"
      "\<not> int (length (pre @ piece)) \<le> int (length pre)"
      using at_line [OF nat_text_no_cr, of b "pre @ piece" pre "length ws" r] b by (simp_all add: Cons whole(1))
    have p2: "int (length pre + 1 + length ?l) + 2 = int (length pre')" by (simp add: pre'_def CRLF_def)
    have "stream_next (pre @ piece) (int (length pre)) = read_args (length ws) (pre' @ r) (int (length pre')) []"
      using al b bytes_int_text [OF assms(1)] p2 buf by (simp add: stream_next_def Let_def)
    moreover have "piece = encoded ws @ r0" if "r = bulks ws @ r0" for r0
      using that Cons b whole(1) by (simp add: encoded_def)
    moreover have "length pre' + length (bulks ws) = length pre + length (encoded ws)"
      using b by (simp add: pre'_def encoded_def)
    ultimately show ?thesis using read_args_stream [OF assms(2) whole(2), of pre' "[]"] by auto
  qed
qed

end
