(* ===== verification/Primary.thy ===== *)
theory Primary
  imports Repl_Stream
begin

text \<open>
  \<open>replication/primary.py\<close>: a node's position in the stream history, and the primary's side of
  replication.  A connection to a replica is its entry in \<open>replicas\<close> with all the bytes written to it;
  \<open>serve\<close> is cut at its awaits into the parts that run without interruption.  Clocks, new replication
  ids and the amount of unsent output of a transport are arguments.
\<close>

section \<open>Position in the stream\<close>

record repl_state =
  rs_backlog :: backlog
  rs_replid :: str
  rs_replid2 :: str
  rs_second_offset :: int

definition no_replid :: str where "no_replid = replicate 40 48"

definition repl_state_init :: "backlog \<Rightarrow> str \<Rightarrow> repl_state" where
  "repl_state_init b replid =
     \<lparr>rs_backlog = b, rs_replid = replid, rs_replid2 = no_replid, rs_second_offset = - 1\<rparr>"

definition rs_offset :: "repl_state \<Rightarrow> int" where
  "rs_offset s = bl_end (rs_backlog s)"

definition can_continue :: "str \<Rightarrow> int \<Rightarrow> repl_state \<Rightarrow> bool" where
  "can_continue replid offset s \<longleftrightarrow>
     (replid = rs_replid s \<or> replid = rs_replid2 s \<and> offset \<le> rs_second_offset s) \<and> bl_contains offset (rs_backlog s)"

definition rs_fork :: "str \<Rightarrow> repl_state \<Rightarrow> repl_state" where
  "rs_fork new_replid s =
     s\<lparr>rs_replid2 := rs_replid s, rs_second_offset := rs_offset s, rs_replid := new_replid\<rparr>"

section \<open>State\<close>

record conn_replica =
  cr_host :: str
  cr_port :: int
  cr_out :: bytes
  cr_online :: bool
  cr_sent_offset :: int
  cr_ack_offset :: int
  cr_ack_time :: pyfloat

record waiter =
  wt_offset :: int
  wt_needed :: int
  wt_result :: "int option"

record primary =
  pr_state :: repl_state
  pr_replicas :: "(nat, conn_replica) dict"
  pr_next_id :: nat
  pr_waiters :: "(nat, waiter) dict"
  pr_next_waiter :: nat
  pr_active :: bool
  pr_full_resyncs :: int
  pr_partial_resyncs :: int

definition MAX_REPLICA_BUFFER :: int where "MAX_REPLICA_BUFFER = 64 * 1024 * 1024"

definition primary_init :: "repl_state \<Rightarrow> primary" where
  "primary_init s =
     \<lparr>pr_state = s, pr_replicas = [], pr_next_id = 1, pr_waiters = [], pr_next_waiter = 0, pr_active = False,
      pr_full_resyncs = 0, pr_partial_resyncs = 0\<rparr>"

section \<open>Feeding\<close>

definition pr_feed :: "bytes \<Rightarrow> primary \<Rightarrow> primary" where
  "pr_feed payload p =
     (if pr_active p
      then p\<lparr>pr_state := (pr_state p)\<lparr>rs_backlog := bl_append payload (rs_backlog (pr_state p))\<rparr>\<rparr>
      else p)"

text \<open>The commands fed here are ASCII, which always encodes.\<close>

definition feed_command :: "string list \<Rightarrow> primary \<Rightarrow> primary" where
  "feed_command args p =
     (case encode_command (map (\<lambda>a. SArg (lit a)) args) of None \<Rightarrow> p | Some payload \<Rightarrow> pr_feed payload p)"

definition pr_drop :: "nat \<Rightarrow> primary \<Rightarrow> primary" where
  "pr_drop rid p = p\<lparr>pr_replicas := dict_pop rid (pr_replicas p)\<rparr>"

definition pr_update :: "nat \<Rightarrow> (conn_replica \<Rightarrow> conn_replica) \<Rightarrow> primary \<Rightarrow> primary" where
  "pr_update rid f p =
     (case dict_get (pr_replicas p) rid of
        None \<Rightarrow> p
      | Some r \<Rightarrow> p\<lparr>pr_replicas := dict_set rid (f r) (pr_replicas p)\<rparr>)"

text \<open>\<open>unsent rid\<close> is \<open>transport.get_write_buffer_size()\<close>.\<close>

definition pr_send :: "(nat \<Rightarrow> int) \<Rightarrow> nat \<Rightarrow> primary \<Rightarrow> primary" where
  "pr_send unsent rid p =
     (case dict_get (pr_replicas p) rid of
        None \<Rightarrow> p
      | Some r \<Rightarrow>
          (case bl_since (cr_sent_offset r) (rs_backlog (pr_state p)) of
             None \<Rightarrow> pr_drop rid p
           | Some data \<Rightarrow>
               if MAX_REPLICA_BUFFER < unsent rid then pr_drop rid p
               else if data = [] then p
               else pr_update rid (\<lambda>r. r\<lparr>cr_out := cr_out r @ data, cr_sent_offset := rs_offset (pr_state p)\<rparr>) p))"

definition pr_flush :: "(nat \<Rightarrow> int) \<Rightarrow> primary \<Rightarrow> primary" where
  "pr_flush unsent p = fold (\<lambda>(rid, r) q. if cr_online r then pr_send unsent rid q else q) (pr_replicas p) p"

definition pr_ping :: "(nat \<Rightarrow> int) \<Rightarrow> primary \<Rightarrow> primary" where
  "pr_ping unsent p = (if pr_replicas p = [] then p else pr_flush unsent (feed_command [''PING''] p))"

definition disconnect_all :: "primary \<Rightarrow> primary" where
  "disconnect_all p = fold pr_drop (dict_keys (pr_replicas p)) p"

section \<open>PSYNC\<close>

text \<open>
  Up to the first await: the decision, the offset, the entry and the header line.  The result is the
  entry's rid, whether a snapshot has to follow, and the offset the replica starts from.
\<close>

definition psync_header :: "bool \<Rightarrow> str \<Rightarrow> int \<Rightarrow> bytes" where
  "psync_header full replid start =
     (if full then lit ''+FULLRESYNC '' @ replid @ [32] @ int_text start @ CRLF
      else lit ''+CONTINUE '' @ replid @ CRLF)"

definition serve_start :: "str \<Rightarrow> str \<Rightarrow> int \<Rightarrow> pyfloat \<Rightarrow> primary \<Rightarrow> (nat \<times> bool \<times> int) \<times> primary" where
  "serve_start host replid offset now p =
     (let full = (\<not> can_continue replid offset (pr_state p));
          start = (if full then rs_offset (pr_state p) else offset);
          rid = pr_next_id p;
          r = \<lparr>cr_host = host, cr_port = 0, cr_out = psync_header full (rs_replid (pr_state p)) start,
               cr_online = False, cr_sent_offset = start, cr_ack_offset = 0, cr_ack_time = now\<rparr>
      in ((rid, full, start),
          p\<lparr>pr_active := full \<or> pr_active p, pr_next_id := rid + 1, pr_replicas := dict_set rid r (pr_replicas p),
            pr_full_resyncs := pr_full_resyncs p + (if full then 1 else 0),
            pr_partial_resyncs := pr_partial_resyncs p + (if full then 0 else 1)\<rparr>))"

text \<open>The snapshot is encoded; a writer that was closed meanwhile ignores what is written.\<close>

definition serve_snapshot :: "nat \<Rightarrow> bytes \<Rightarrow> primary \<Rightarrow> primary" where
  "serve_snapshot rid payload =
     pr_update rid (\<lambda>r. r\<lparr>cr_out := cr_out r @ [36] @ nat_text (length payload) @ CRLF @ payload\<rparr>)"

text \<open>After the drain: the replica is online, unless it was dropped, and gets what was written meanwhile.\<close>

definition serve_online :: "(nat \<Rightarrow> int) \<Rightarrow> nat \<Rightarrow> int \<Rightarrow> primary \<Rightarrow> primary" where
  "serve_online unsent rid start p =
     (if dict_get (pr_replicas p) rid = None then p
      else pr_send unsent rid (pr_update rid (\<lambda>r. r\<lparr>cr_online := True, cr_ack_offset := start\<rparr>) p))"

section \<open>Acknowledgements\<close>

definition acked :: "int \<Rightarrow> primary \<Rightarrow> int" where
  "acked offset p = int (length (filter (\<lambda>(rid, r). offset \<le> cr_ack_offset r) (pr_replicas p)))"

definition wake_waiters :: "primary \<Rightarrow> primary" where
  "wake_waiters p =
     p\<lparr>pr_waiters := map (\<lambda>(i, w).
         let count = acked (wt_offset w) p in
         (i, if wt_needed w \<le> count \<and> wt_result w = None then w\<lparr>wt_result := Some count\<rparr> else w)) (pr_waiters p)\<rparr>"

text \<open>One command from a replica; other commands are ignored.\<close>

definition ack_command :: "nat \<Rightarrow> pyfloat \<Rightarrow> str list \<Rightarrow> primary \<Rightarrow> exn + primary" where
  "ack_command rid now args p =
     (case args of
        a # b # c # _ \<Rightarrow>
          if py_upper a \<noteq> lit ''REPLCONF'' then Inr p
          else if py_upper b = lit ''ACK'' then
            (case py_int c of
               None \<Rightarrow> Inl (Uncaught ''ValueError'')
             | Some n \<Rightarrow> Inr (wake_waiters (pr_update rid (\<lambda>r. r\<lparr>cr_ack_offset := n, cr_ack_time := now\<rparr>) p)))
          else if lower_ascii b = lit ''listening-port'' then
            (case py_int c of
               None \<Rightarrow> Inl (Uncaught ''ValueError'')
             | Some n \<Rightarrow> Inr (pr_update rid (\<lambda>r. r\<lparr>cr_port := n\<rparr>) p))
          else Inr p
      | _ \<Rightarrow> Inr p)"

text \<open>
  \<open>_read_acks\<close>: the loop over the commands of one read.  A damaged length can move the position
  back, so the loop need not end; the result is then \<open>None\<close>.
\<close>

partial_function (option) acks_loop ::
  "nat \<Rightarrow> pyfloat \<Rightarrow> bytes \<Rightarrow> int \<Rightarrow> primary \<Rightarrow> (exn + bytes \<times> primary) option" where
  "acks_loop rid now buf i p =
     (case stream_next buf i of
        Inl x \<Rightarrow> Some (Inl x)
      | Inr None \<Rightarrow> Some (Inr (drop (clip (length buf) i) buf, p))
      | Inr (Some (args, j)) \<Rightarrow>
          (case ack_command rid now args p of Inl x \<Rightarrow> Some (Inl x) | Inr p' \<Rightarrow> acks_loop rid now buf j p'))"

definition read_acks :: "nat \<Rightarrow> pyfloat \<Rightarrow> bytes \<Rightarrow> bytes \<Rightarrow> primary \<Rightarrow> (exn + bytes \<times> primary) option" where
  "read_acks rid now data buf p = acks_loop rid now (buf @ data) 0 p"

section \<open>WAIT and min-replicas-to-write\<close>

text \<open>
  \<open>wait\<close> up to its await: the answer, or the waiter it waits for.  On a timeout, \<open>wait_timeout\<close>.
\<close>

definition pr_wait :: "(nat \<Rightarrow> int) \<Rightarrow> int \<Rightarrow> primary \<Rightarrow> (int + nat) \<times> primary" where
  "pr_wait unsent needed p =
     (let target = rs_offset (pr_state p) in
      if needed \<le> acked target p \<or> pr_replicas p = [] then (Inl (acked target p), p)
      else
        let w = \<lparr>wt_offset = target, wt_needed = needed, wt_result = None\<rparr>;
            p1 = p\<lparr>pr_waiters := dict_set (pr_next_waiter p) w (pr_waiters p), pr_next_waiter := pr_next_waiter p + 1\<rparr>
        in (Inr (pr_next_waiter p), pr_flush unsent (feed_command [''REPLCONF'', ''GETACK'', ''*''] p1)))"

definition wait_timeout :: "nat \<Rightarrow> primary \<Rightarrow> int option \<times> primary" where
  "wait_timeout i p =
     (map_option (\<lambda>w. acked (wt_offset w) p) (dict_get (pr_waiters p) i), p\<lparr>pr_waiters := dict_pop i (pr_waiters p)\<rparr>)"

definition check_min_replicas :: "int \<Rightarrow> pyfloat \<Rightarrow> pyfloat \<Rightarrow> primary \<Rightarrow> exn + unit" where
  "check_min_replicas needed max_lag now p =
     (if needed \<le> 0 then Inr ()
      else
        let good = length (filter (\<lambda>(rid, r). cr_online r \<and> fle (fadd now (fneg (cr_ack_time r))) max_lag) (pr_replicas p))
        in if int good < needed then Inl (Raised (err NotEnoughReplicasError [])) else Inr ())"

definition lag_s :: "pyfloat \<Rightarrow> conn_replica \<Rightarrow> int option" where
  "lag_s now r = ftrunc (fadd now (fneg (cr_ack_time r)))"

end
