(* ===== verification/Primary_Stream.thy ===== *)
theory Primary_Stream
  imports Primary
begin

text \<open>
  What the primary writes to a replica: after the handshake exactly the stream, from the offset the
  replica starts at, in whatever order writes, commits, pings, acknowledgements, other connections and
  \<open>WAIT\<close> happen.
\<close>

section \<open>Operations as events\<close>




section \<open>The bytes of one connection\<close>





















end
