(* ===== verification/Replica.thy ===== *)
theory Replica
  imports Primary Engine
begin

text \<open>
  \<open>replication/replica.py\<close>: the link of a replica to its primary.  The handshake and the stream are
  functions of the bytes the connection delivers; what is written to the primary is collected in
  \<open>rl_out\<close>.  Timeouts end a session like any other error of the connection.
\<close>

section \<open>Text\<close>

text \<open>\<open>bytes.decode()\<close>, which is strict, and \<open>str.split()\<close>.\<close>

definition decode_strict :: "bytes \<Rightarrow> str option" where
  "decode_strict bs = (let s = to_str bs in if \<exists>c \<in> set s. 55296 \<le> c \<and> c \<le> 57343 then None else Some s)"

fun split_ws :: "str \<Rightarrow> str \<Rightarrow> str list" where
  "split_ws word [] = (if word = [] then [] else [word])"
| "split_ws word (c # cs) =
     (if is_space c then (if word = [] then split_ws [] cs else word # split_ws [] cs)
      else split_ws (word @ [c]) cs)"

definition starts_with :: "'a list \<Rightarrow> 'a list \<Rightarrow> bool" where
  "starts_with p s \<longleftrightarrow> take (length p) s = p"

text \<open>\<open>readline\<close>: up to and including the first LF, or all there is at the end of the connection.\<close>

definition readline :: "bytes \<Rightarrow> bytes \<times> bytes" where
  "readline bs = (case find_lf bs of None \<Rightarrow> (bs, []) | Some (l, r) \<Rightarrow> (l @ [10], r))"

section \<open>State\<close>

datatype link_state = Connect | Sync | Connected

record replica_link =
  rl_engine :: engine
  rl_state :: repl_state
  rl_host :: str
  rl_port :: int
  rl_listening_port :: int
  rl_link_state :: link_state
  rl_out :: bytes
  rl_full_syncs :: int
  rl_partial_syncs :: int

definition link_init :: "engine \<Rightarrow> repl_state \<Rightarrow> str \<Rightarrow> int \<Rightarrow> int \<Rightarrow> replica_link" where
  "link_init e s host port listening_port =
     \<lparr>rl_engine = e, rl_state = s, rl_host = host, rl_port = port, rl_listening_port = listening_port,
      rl_link_state = Connect, rl_out = [], rl_full_syncs = 0, rl_partial_syncs = 0\<rparr>"

definition link_write :: "arg list \<Rightarrow> replica_link \<Rightarrow> replica_link" where
  "link_write args l = (case encode_command args of None \<Rightarrow> l | Some bs \<Rightarrow> l\<lparr>rl_out := rl_out l @ bs\<rparr>)"

section \<open>The handshake\<close>

text \<open>What the replica asks for: \<open>? -1\<close> while it knows no history.\<close>

definition psync_request :: "repl_state \<Rightarrow> str \<times> int" where
  "psync_request s =
     (if 0 < rs_offset s \<or> rs_replid2 s \<noteq> no_replid then (rs_replid s, rs_offset s) else (lit ''?'', - 1))"

definition adopt_full :: "str \<Rightarrow> int \<Rightarrow> repl_state \<Rightarrow> repl_state" where
  "adopt_full replid start s =
     s\<lparr>rs_backlog := bl_reset start (rs_backlog s), rs_replid := replid, rs_replid2 := no_replid, rs_second_offset := - 1\<rparr>"

definition adopt_continue :: "str list \<Rightarrow> repl_state \<Rightarrow> repl_state" where
  "adopt_continue parts s =
     (if 1 < length parts \<and> parts ! 1 \<noteq> rs_replid s
      then s\<lparr>rs_replid2 := rs_replid s, rs_second_offset := rs_offset s, rs_replid := parts ! 1\<rparr>
      else s)"

definition send_psync :: "replica_link \<Rightarrow> replica_link" where
  "send_psync l =
     (case psync_request (rl_state l) of (replid, offset) \<Rightarrow>
        link_write [SArg (lit ''PSYNC''), SArg replid, IArg offset] l)"

definition announce_port :: "replica_link \<Rightarrow> replica_link" where
  "announce_port l = link_write [SArg (lit ''REPLCONF''), SArg (lit ''listening-port''), IArg (rl_listening_port l)] l"

text \<open>
  A failing handshake leaves what was received before the failure in place.  The messages of its
  errors quote what the primary sent; the quotation is left out.
\<close>

definition full_resync :: "str list \<Rightarrow> bytes \<Rightarrow> replica_link \<Rightarrow> (exn + bytes) \<times> replica_link" where
  "full_resync parts incoming l =
     (if length parts \<noteq> 3 then (Inl (Uncaught ''ValueError''), l)
      else case readline incoming of (header, rest) \<Rightarrow>
        if \<not> starts_with [36] header then (Inl (Raised (err ProtocolError ''expected the snapshot'')), l)
        else case bytes_int (drop 1 header) of
          None \<Rightarrow> (Inl (Uncaught ''ValueError''), l)
        | Some sz \<Rightarrow>
            if sz < 0 then (Inl (Uncaught ''ValueError''), l)
            else if length rest < nat sz then (Inl (Uncaught ''EOFError''), l)
            else case load_snapshot (decode_snapshot (lit ''full resync'') (take (nat sz) rest)) (rl_engine l) of
                (Inl x, e) \<Rightarrow> (Inl x, l\<lparr>rl_engine := e\<rparr>)
              | (Inr keys, e) \<Rightarrow>
                  (case py_int (parts ! 2) of
                     None \<Rightarrow> (Inl (Uncaught ''ValueError''), l\<lparr>rl_engine := e\<rparr>)
                   | Some start \<Rightarrow>
                       (Inr (drop (nat sz) rest),
                        l\<lparr>rl_engine := e, rl_state := adopt_full (parts ! 1) start (rl_state l),
                          rl_full_syncs := rl_full_syncs l + 1\<rparr>)))"

definition handshake :: "bytes \<Rightarrow> replica_link \<Rightarrow> (exn + bytes) \<times> replica_link" where
  "handshake incoming l0 =
     (let l1 = announce_port l0;
          (ok, rest) = readline incoming
      in if \<not> starts_with (lit ''+OK'') ok then (Inl (Raised (err ProtocolError ''handshake refused'')), l1)
      else
        let l = send_psync l1; (line, rest) = readline rest in
        case decode_strict line of
          None \<Rightarrow> (Inl (Uncaught ''UnicodeDecodeError''), l)
        | Some text \<Rightarrow>
            let parts = split_ws [] text in
            if starts_with (lit ''+FULLRESYNC'') (py_strip text) then full_resync parts rest l
            else if starts_with (lit ''+CONTINUE'') (py_strip text)
            then (Inr rest, l\<lparr>rl_state := adopt_continue parts (rl_state l), rl_partial_syncs := rl_partial_syncs l + 1\<rparr>)
            else (Inl (Raised (err ProtocolError ''PSYNC refused'')), l))"

section \<open>The stream\<close>

definition send_ack :: "replica_link \<Rightarrow> replica_link" where
  "send_ack l = link_write [SArg (lit ''REPLCONF''), SArg (lit ''ACK''), IArg (rs_offset (rl_state l))] l"

text \<open>\<open>_apply\<close>: an error of the hierarchy is logged, any other exception ends the session.\<close>

definition stream_apply :: "str list \<Rightarrow> replica_link \<Rightarrow> (exn + unit) \<times> replica_link" where
  "stream_apply args l =
     (case args of
        [] \<Rightarrow> (Inl (Uncaught ''IndexError''), l)
      | name # rest \<Rightarrow>
          if py_upper name = lit ''PING'' then (Inr (), l)
          else if py_upper name = lit ''REPLCONF'' then
            (Inr (), if rest \<noteq> [] \<and> py_upper (hd rest) = lit ''GETACK'' then send_ack l else l)
          else case apply_replicated name (map SArg rest) (rl_engine l) of
            (Inl (Uncaught x), e) \<Rightarrow> (Inl (Uncaught x), l\<lparr>rl_engine := e\<rparr>)
          | (_, e) \<Rightarrow> (Inr (), l\<lparr>rl_engine := e\<rparr>))"

definition note_applied :: "bytes \<Rightarrow> replica_link \<Rightarrow> replica_link" where
  "note_applied bs l = l\<lparr>rl_state := (rl_state l)\<lparr>rs_backlog := bl_append bs (rs_backlog (rl_state l))\<rparr>\<rparr>"

text \<open>The loop over the commands received so far; \<open>None\<close> if it does not end, which needs a damaged length.\<close>

partial_function (option) stream_loop ::
  "bytes \<Rightarrow> int \<Rightarrow> replica_link \<Rightarrow> ((exn + bytes) \<times> replica_link) option" where
  "stream_loop buf i l =
     (case stream_next buf i of
        Inl x \<Rightarrow> Some (Inl x, l)
      | Inr None \<Rightarrow> Some (Inr (drop (clip (length buf) i) buf), l)
      | Inr (Some (args, j)) \<Rightarrow>
          (case stream_apply args l of
             (Inl x, l') \<Rightarrow> Some (Inl x, l')
           | (Inr _, l') \<Rightarrow> stream_loop buf j (note_applied (py_slice buf i j) l')))"

text \<open>\<open>_stream\<close>: the pieces as \<open>reader.read\<close> returns them, an empty one at the end of the connection.\<close>

fun follow :: "bytes list \<Rightarrow> bytes \<Rightarrow> replica_link \<Rightarrow> ((exn + bytes) \<times> replica_link) option" where
  "follow [] buf l = Some (Inr buf, l)"
| "follow (data # pieces) buf l =
     (if data = [] then Some (Inl (Uncaught ''EOFError''), l)
      else case stream_loop (buf @ data) 0 l of
        Some (Inr buf', l') \<Rightarrow> follow pieces buf' l'
      | Some (Inl x, l') \<Rightarrow> Some (Inl x, l')
      | None \<Rightarrow> None)"

section \<open>Sessions\<close>

definition session :: "bytes \<Rightarrow> bytes list \<Rightarrow> replica_link \<Rightarrow> ((exn + bytes) \<times> replica_link) option" where
  "session incoming pieces l =
     (case handshake incoming (l\<lparr>rl_link_state := Sync\<rparr>) of
        (Inl x, l') \<Rightarrow> Some (Inl x, l')
      | (Inr rest, l') \<Rightarrow>
          let l2 = announce_port (l'\<lparr>rl_link_state := Connected\<rparr>)
          in follow (if rest = [] then pieces else rest # pieces) [] l2)"

text \<open>
  What \<open>_run\<close> does with the exception that ended a session: it reconnects after the errors it names;
  any other exception ends the task.
\<close>

definition caught :: "exn \<Rightarrow> bool" where
  "caught x =
     (case x of
        Raised _ \<Rightarrow> True
      | Uncaught name \<Rightarrow>
          name \<in> {''OSError'', ''TimeoutError'', ''EOFError'', ''ValueError'', ''UnicodeDecodeError'', ''UnicodeEncodeError''})"

definition session_ended :: "exn \<Rightarrow> replica_link \<Rightarrow> bool \<times> replica_link" where
  "session_ended x l = (if caught x then (True, l\<lparr>rl_link_state := Connect\<rparr>) else (False, l))"

definition link_cancel :: "replica_link \<Rightarrow> replica_link" where
  "link_cancel l = l\<lparr>rl_link_state := Connect\<rparr>"

definition link_up :: "replica_link \<Rightarrow> bool" where
  "link_up l \<longleftrightarrow> rl_link_state l = Connected"

section \<open>Following the stream\<close>

text \<open>The commands one after the other, each counted when it has been applied.\<close>

fun run_stream :: "(str list \<times> bytes) list \<Rightarrow> replica_link \<Rightarrow> (exn + unit) \<times> replica_link" where
  "run_stream [] l = (Inr (), l)"
| "run_stream ((c, bs) # cs) l =
     (case stream_apply c l of
        (Inl x, l') \<Rightarrow> (Inl x, l')
      | (Inr _, l') \<Rightarrow> run_stream cs (note_applied bs l'))"

definition short_words :: "bytes list \<Rightarrow> bool" where
  "short_words ws \<longleftrightarrow> length ws < 10 ^ 18 \<and> (\<forall>w \<in> set ws. length w < 10 ^ 18)"

definition sent :: "bytes list \<Rightarrow> str list \<times> bytes" where
  "sent ws = (map to_str ws, encoded ws)"

lemma slice_middle: "py_slice (pre @ w @ r) (int (length pre)) (int (length pre + length w)) = w"
  by (simp add: py_slice_def clip_def nat_add_distrib)

lemma stream_loop_follows:
  assumes "\<forall>ws \<in> set cs. short_words ws" "piece @ fut = stream cs"
  shows "\<exists>k rest res l'. run_stream (map sent (take k cs)) l = (res, l')
    \<and> stream_loop (pre @ piece) (int (length pre)) l = Some (map_sum id (\<lambda>_. rest) res, l')
    \<and> (isl res \<or> rest @ fut = stream (drop k cs) \<and> (fut = [] \<longrightarrow> drop k cs = []))"
  using assms
proof (induction cs arbitrary: pre piece l)
  case Nil
  then have "piece = []" "fut = []" by (simp_all add: stream_def)
  moreover have "stream_next pre (int (length pre)) = Inr None" by (simp add: stream_next_def)
  ultimately have "stream_loop (pre @ piece) (int (length pre)) l = Some (Inr [], l)"
    by (simp add: stream_loop.simps clip_def)
  then show ?case by (intro exI [of _ 0] exI [of _ "[]"]) (simp add: \<open>fut = []\<close> stream_def)
next
  case (Cons ws cs)
  have sh: "length ws < 10 ^ 18" "\<And>w. w \<in> set ws \<Longrightarrow> length w < 10 ^ 18"
    using Cons.prems(1) by (auto simp: short_words_def)
  have st: "piece @ fut = encoded ws @ stream cs" using Cons.prems(2) by (simp add: stream_def)
  have "(\<exists>r. piece = encoded ws @ r \<and> r @ fut = stream cs
      \<and> stream_next (pre @ piece) (int (length pre)) = Inr (Some (map to_str ws, int (length pre + length (encoded ws)))))
    \<or> fut \<noteq> [] \<and> stream_next (pre @ piece) (int (length pre)) = Inr None"
    by (rule stream_next_encoded) (use sh st in auto)
  then show ?case
  proof (elim disjE exE conjE)
    fix r assume r: "piece = encoded ws @ r" "r @ fut = stream cs"
      and nx: "stream_next (pre @ piece) (int (length pre)) = Inr (Some (map to_str ws, int (length pre + length (encoded ws))))"
    have sl: "py_slice (pre @ piece) (int (length pre)) (int (length pre + length (encoded ws))) = encoded ws"
      unfolding r(1) by (rule slice_middle)
    obtain res l1 where ap: "stream_apply (map to_str ws) l = (res, l1)" by force
    show ?thesis
    proof (cases res)
      case (Inl x)
      have "stream_loop (pre @ piece) (int (length pre)) l = Some (Inl x, l1)"
        by (subst stream_loop.simps) (simp add: nx ap Inl)
      then show ?thesis by (intro exI [of _ 1] exI [of _ "[]"]) (simp add: sent_def ap Inl)
    next
      case (Inr u)
      let ?l = "note_applied (encoded ws) l1"
      have "stream_loop (pre @ piece) (int (length pre)) l
          = stream_loop ((pre @ encoded ws) @ r) (int (length (pre @ encoded ws))) ?l"
        by (subst stream_loop.simps) (simp only: nx ap Inr sl sum.case option.case prod.case, simp add: r(1))
      moreover have "\<forall>ws \<in> set cs. short_words ws" using Cons.prems(1) by simp
      from Cons.IH [OF this r(2), of ?l "pre @ encoded ws"]
      obtain k rest res l' where "run_stream (map sent (take k cs)) ?l = (res, l')"
        "stream_loop ((pre @ encoded ws) @ r) (int (length (pre @ encoded ws))) ?l = Some (map_sum id (\<lambda>_. rest) res, l')"
        "isl res \<or> rest @ fut = stream (drop k cs) \<and> (fut = [] \<longrightarrow> drop k cs = [])" by blast
      ultimately show ?thesis
        by (intro exI [of _ "Suc k"] exI [of _ rest] exI [of _ res] exI [of _ l']) (simp add: sent_def [of ws] ap Inr id_def)
    qed
  next
    assume "fut \<noteq> []" "stream_next (pre @ piece) (int (length pre)) = Inr None"
    then have "stream_loop (pre @ piece) (int (length pre)) l = Some (Inr piece, l)"
      by (subst stream_loop.simps) (simp add: clip_def)
    then show ?thesis using \<open>fut \<noteq> []\<close> Cons.prems(2) by (intro exI [of _ 0] exI [of _ piece]) simp
  qed
qed

lemma run_stream_append:
  "run_stream (xs @ ys) l = (case run_stream xs l of (Inl x, l') \<Rightarrow> (Inl x, l') | (Inr _, l') \<Rightarrow> run_stream ys l')"
  by (induction xs l rule: run_stream.induct) (auto split: prod.splits sum.splits)

lemma follow_stream:
  assumes "\<forall>ws \<in> set cs. short_words ws" "[] \<notin> set pieces" "buf @ concat pieces = stream cs" "pieces = [] \<longrightarrow> cs = []"
  shows "follow pieces buf l = (case run_stream (map sent cs) l of (res, l') \<Rightarrow> Some (map_sum id (\<lambda>_. []) res, l'))"
  using assms
proof (induction pieces arbitrary: buf cs l)
  case Nil
  then show ?case by (simp add: stream_def)
next
  case (Cons data pieces)
  have d: "data \<noteq> []" using Cons.prems(2) by auto
  have "(buf @ data) @ concat pieces = stream cs" using Cons.prems(3) by simp
  from stream_loop_follows [OF Cons.prems(1) this, of l "[]"] obtain k rest res l1 where
    k: "run_stream (map sent (take k cs)) l = (res, l1)" "stream_loop (buf @ data) 0 l = Some (map_sum id (\<lambda>_. rest) res, l1)"
      "isl res \<or> rest @ concat pieces = stream (drop k cs) \<and> (concat pieces = [] \<longrightarrow> drop k cs = [])"
    by (simp del: concat_eq_Nil_conv drop_eq_Nil drop_eq_Nil2) blast
  have split: "run_stream (map sent cs) l = (case run_stream (map sent (take k cs)) l of
      (Inl x, l') \<Rightarrow> (Inl x, l') | (Inr _, l') \<Rightarrow> run_stream (map sent (drop k cs)) l')"
    by (simp add: run_stream_append [symmetric] map_append [symmetric] del: map_append)
  show ?case
  proof (cases res)
    case (Inl x)
    then show ?thesis using k split d by simp
  next
    case (Inr u)
    have "\<forall>ws \<in> set (drop k cs). short_words ws" using Cons.prems(1) by (auto dest: in_set_dropD)
    from Cons.IH [OF this, of rest l1] show ?thesis using Inr k split d Cons.prems(2) by simp
  qed
qed

lemma link_write_state [simp]: "rl_state (link_write args l) = rl_state l"
  by (simp add: link_write_def split: option.split)

lemma stream_apply_state: "stream_apply c l = (res, l') \<Longrightarrow> rl_state l' = rl_state l"
  by (auto simp: stream_apply_def send_ack_def split: list.splits if_splits prod.splits sum.splits exn.splits)

lemma run_stream_offset:
  "run_stream cs l = (Inr u, l') \<Longrightarrow> rs_offset (rl_state l') = rs_offset (rl_state l) + int (length (concat (map snd cs)))"
proof (induction cs l rule: run_stream.induct)
  case (2 c bs cs l)
  then obtain l1 where l1: "stream_apply c l = (Inr (), l1)" "run_stream cs (note_applied bs l1) = (Inr u, l')"
    by (auto split: prod.splits sum.splits)
  with "2.IH" [OF l1(1) [symmetric] refl] show ?case
    using stream_apply_state [OF l1(1)] by (auto simp: note_applied_def rs_offset_def bl_append_def Let_def split: if_splits)
qed simp

lemma zip_sent: "zip (map (map to_str) bs) (map encoded bs) = map sent bs"
  by (induction bs) (simp_all add: sent_def)

text \<open>Commands the stream carries: words that are text of the wire, of any practical length.\<close>

definition streamable :: "str list \<Rightarrow> bool" where
  "streamable c \<longleftrightarrow> length c < 10 ^ 18 \<and> (\<forall>w \<in> set c. wire_text w \<and> length (the (to_bytes w)) < 10 ^ 18)"

lemma streamable_words:
  assumes "streamable c" "ws = map (\<lambda>w. the (to_bytes w)) c"
  shows "short_words ws" "map to_str ws = c" "encode_command (map SArg c) = Some (encoded ws)"
proof -
  have w: "to_str (the (to_bytes w)) = w" "bytes_ok (the (to_bytes w))" if "w \<in> set c" for w
    using assms(1) that by (auto simp: streamable_def wire_text_def to_bytes_ok)
  show map: "map to_str ws = c" using w by (simp add: assms(2) map_idI)
  show "short_words ws" using assms by (auto simp: short_words_def streamable_def)
  have "encode_command (map (\<lambda>w. SArg (to_str w)) ws) = Some (encoded ws)"
    unfolding encoded_def using w by (intro encode_words) (auto simp: assms(2))
  moreover have "map (\<lambda>w. SArg (to_str w)) ws = map SArg (map to_str ws)" by simp
  ultimately show "encode_command (map SArg c) = Some (encoded ws)" by (simp only: map)
qed

text \<open>
  C3.  A replica applies the stream command by command however the network cuts it: reading the bytes of
  a sequence of commands in any pieces has exactly the effect of applying the commands one after the
  other, the loop over the buffer always ends, and nothing is left over.  Every byte of an applied
  command is counted, so the offset afterwards is the offset in the stream.
\<close>

theorem replica_applies_stream:
  assumes "\<And>c. c \<in> set cs \<Longrightarrow> streamable c" "map (\<lambda>c. encode_command (map SArg c)) cs = map Some es"
    "concat pieces = concat es" "[] \<notin> set pieces" "run_stream (zip cs es) l = (res, l')"
  shows "follow pieces [] l = Some (map_sum id (\<lambda>_. []) res, l')
    \<and> (res = Inr () \<longrightarrow> rs_offset (rl_state l') = rs_offset (rl_state l) + int (length (concat es)))"
proof -
  define bs where "bs = map (map (\<lambda>w. the (to_bytes w))) cs"
  have "map Some es = map (\<lambda>c. Some (encoded (map (\<lambda>w. the (to_bytes w)) c))) cs"
    using assms(1) streamable_words(3) [OF _ refl] by (simp add: assms(2) [symmetric])
  then have "map Some es = map Some (map encoded bs)" by (simp add: bs_def)
  then have es: "es = map encoded bs" by (metis inj_Some inj_map_eq_map)
  have cs: "map (map to_str) bs = cs"
    using streamable_words(2) [OF assms(1) refl] by (simp add: bs_def map_idI)
  have zip: "zip cs es = map sent bs" using zip_sent [of bs] by (simp only: cs es)
  have sh: "\<forall>ws \<in> set bs. short_words ws" using streamable_words(1) [OF assms(1) refl] by (auto simp: bs_def)
  have st: "[] @ concat pieces = stream bs" using assms(3) by (simp add: es stream_def)
  have "pieces = [] \<longrightarrow> bs = []" using assms(3) by (cases bs) (auto simp: es encoded_def)
  from follow_stream [OF sh assms(4) st this, of l] assms(5)
  have "follow pieces [] l = Some (map_sum id (\<lambda>_. []) res, l')" by (simp add: zip)
  moreover have "map snd (map sent bs) = es" by (simp add: es sent_def)
  ultimately show ?thesis using run_stream_offset [of "zip cs es" l "()" l'] assms(5) by (auto simp: zip)
qed

lemma ascii_streamable: "length c < 10 ^ 18 \<Longrightarrow> (\<And>w. w \<in> set c \<Longrightarrow> length w < 10 ^ 18 \<and> (\<forall>x \<in> set w. x < 128)) \<Longrightarrow> streamable c"
  by (simp add: streamable_def wire_ascii to_bytes_ascii)

definition demo_link :: replica_link where
  "demo_link =
     link_init (engine_init (the (store_init (LRU []) 0 0 (Fin 0) [] [])) None id
         \<lparr>fc_pid = 1, fc_uptime = 0, fc_rewrite_ms = None, fc_pause_ms = None, fc_extra = []\<rparr>)
       (repl_state_init \<lparr>bl_capacity = 100, bl_buf = [], bl_start = 7, bl_end = 7\<rparr> (lit ''r'')) (lit ''h'') 1 2"

theorem replica_applies_stream_witness:
  "\<exists>a b l'. encode_command [SArg (lit ''PING'')] = Some a
    \<and> encode_command [SArg (lit ''REPLCONF''), SArg (lit ''GETACK''), SArg (lit ''*'')] = Some b
    \<and> follow [take 5 (a @ b), drop 5 (a @ b)] [] demo_link = Some (Inr [], l')
    \<and> rs_offset (rl_state l') = 7 + int (length (a @ b))"
proof -
  let ?cs = "[[lit ''PING''], [lit ''REPLCONF'', lit ''GETACK'', lit ''*'']]"
  have ok: "streamable c" if "c \<in> set ?cs" for c
    using that by (intro ascii_streamable) (auto simp: lit_def)
  obtain a b where ab: "encode_command [SArg (lit ''PING'')] = Some a"
    "encode_command [SArg (lit ''REPLCONF''), SArg (lit ''GETACK''), SArg (lit ''*'')] = Some b"
    using streamable_words(3) [OF ok refl] by force
  have len: "5 < length (a @ b)" using ab(1) by (auto simp: encode_command_def bulk_def lit_def enc_char_def CRLF_def nat_text.simps)
  obtain l' where run: "run_stream (zip ?cs [a, b]) demo_link = (Inr (), l')"
    by (auto simp: stream_apply_def py_upper_def upper_char_def lit_def)
  have off: "rs_offset (rl_state demo_link) = 7"
    by (simp add: demo_link_def link_init_def repl_state_init_def rs_offset_def)
  have enc: "map (\<lambda>c. encode_command (map SArg c)) ?cs = map Some [a, b]" using ab by simp
  have cc: "concat [take 5 (a @ b), drop 5 (a @ b)] = concat [a, b]"
    by (simp only: concat.simps append_Nil2 append_take_drop_id)
  have ne: "[] \<notin> set [take 5 (a @ b), drop 5 (a @ b)]" using len by auto
  from replica_applies_stream [OF ok enc cc ne run] ab off show ?thesis by auto
qed

end
