(* ===== verification/Repl_History.thy ===== *)
theory Repl_History
  imports Replica
begin

text \<open>
  Histories of the replication stream across a group of nodes: promotions start new histories, demoted
  primaries come back, replicas continue from each other.  Each node carries, beside its replication
  state, the bytes of the stream its keyspace reflects and the keyspace the stream started from; each
  replication id names one history.  A step is one uninterrupted action of a node; answers to \<open>PSYNC\<close>
  travel as messages and may be taken up any time later.
\<close>

section \<open>The system\<close>

record hnode =
  hn_primary :: bool
  hn_active :: bool
  hn_state :: repl_state
  hn_data :: bytes
  hn_origin :: nat

record histories =
  hs_node :: "nat \<Rightarrow> hnode"
  hs_hist :: "str \<Rightarrow> bytes"
  hs_origin :: "str \<Rightarrow> nat"
  hs_used :: "str set"
  hs_full :: "(str \<times> int \<times> bytes \<times> nat) set"
  hs_cont :: "(nat \<times> str \<times> int \<times> str) set"

abbreviation replid_of :: "histories \<Rightarrow> nat \<Rightarrow> str" where
  "replid_of s n \<equiv> rs_replid (hn_state (hs_node s n))"


definition set_node :: "nat \<Rightarrow> hnode \<Rightarrow> histories \<Rightarrow> histories" where
  "set_node n nd s = s\<lparr>hs_node := (hs_node s)(n := nd)\<rparr>"

definition stream_append :: "bytes \<Rightarrow> hnode \<Rightarrow> hnode" where
  "stream_append bs nd =
     nd\<lparr>hn_state := (hn_state nd)\<lparr>rs_backlog := bl_append bs (rs_backlog (hn_state nd))\<rparr>, hn_data := hn_data nd @ bs\<rparr>"



section \<open>The invariant\<close>

text \<open>A history that agrees with another up to an offset.\<close>

definition agree :: "nat \<Rightarrow> str \<Rightarrow> str \<Rightarrow> histories \<Rightarrow> bool" where
  "agree k a b s \<longleftrightarrow> k \<le> length (hs_hist s a) \<and> k \<le> length (hs_hist s b)
     \<and> take k (hs_hist s a) = take k (hs_hist s b) \<and> hs_origin s a = hs_origin s b"

definition backlog_of :: "hnode \<Rightarrow> bool" where
  "backlog_of nd \<longleftrightarrow> (\<exists>b \<le> length (hn_data nd). holds (int b) (drop b (hn_data nd)) (rs_backlog (hn_state nd)))"

definition known :: "str \<Rightarrow> histories \<Rightarrow> bool" where
  "known r s \<longleftrightarrow> r \<in> hs_used s \<and> r \<noteq> no_replid"

text \<open>A node's keyspace is where its id and offset say, and so is a snapshot on its way.\<close>

definition at_place :: "str \<Rightarrow> bytes \<Rightarrow> nat \<Rightarrow> histories \<Rightarrow> bool" where
  "at_place r data w s \<longleftrightarrow> known r s \<and> length data \<le> length (hs_hist s r) \<and> data = take (length data) (hs_hist s r) \<and> w = hs_origin s r"

text \<open>Nothing else knows a replication id.\<close>

definition secluded :: "nat \<Rightarrow> histories \<Rightarrow> bool" where
  "secluded n s \<longleftrightarrow> (\<forall>m. m \<noteq> n \<longrightarrow> replid_of s m \<noteq> replid_of s n) \<and> (\<forall>m. rs_replid2 (hn_state (hs_node s m)) \<noteq> replid_of s n)
     \<and> (\<forall>r start data w. (r, start, data, w) \<in> hs_full s \<longrightarrow> r \<noteq> replid_of s n)
     \<and> (\<forall>m r offset new. (m, r, offset, new) \<in> hs_cont s \<longrightarrow> new \<noteq> replid_of s n \<and> r \<noteq> replid_of s n)
     \<and> rs_replid2 (hn_state (hs_node s n)) = no_replid"

definition node_inv :: "nat \<Rightarrow> histories \<Rightarrow> bool" where
  "node_inv n s \<longleftrightarrow> (let nd = hs_node s n in
     backlog_of nd \<and> at_place (rs_replid (hn_state nd)) (hn_data nd) (hn_origin nd) s
     \<and> (hn_primary nd \<longrightarrow> hn_data nd = hs_hist s (rs_replid (hn_state nd)))
     \<and> (rs_replid2 (hn_state nd) \<noteq> no_replid \<longrightarrow> known (rs_replid2 (hn_state nd)) s
          \<and> agree (nat (rs_second_offset (hn_state nd))) (rs_replid (hn_state nd)) (rs_replid2 (hn_state nd)) s))"

definition hist_inv :: "histories \<Rightarrow> bool" where
  "hist_inv s \<longleftrightarrow> (\<forall>n. node_inv n s)
     \<and> (\<forall>m n. hn_primary (hs_node s m) \<longrightarrow> hn_primary (hs_node s n) \<longrightarrow> replid_of s m = replid_of s n \<longrightarrow> m = n)
     \<and> (\<forall>n. hn_primary (hs_node s n) \<longrightarrow> \<not> hn_active (hs_node s n) \<longrightarrow> secluded n s)
     \<and> (\<forall>r start data w. (r, start, data, w) \<in> hs_full s \<longrightarrow> start = int (length data) \<and> at_place r data w s)
     \<and> (\<forall>m r offset new. (m, r, offset, new) \<in> hs_cont s \<longrightarrow> known r s \<and> known new s \<and> 0 \<le> offset \<and> agree (nat offset) r new s)"

section \<open>Growing histories\<close>







lemmas hist_invD = hist_inv_def [THEN iffD1]









lemma stream_append_simps [simp]:
  "rs_replid (hn_state (stream_append bs nd)) = rs_replid (hn_state nd)"
  "rs_replid2 (hn_state (stream_append bs nd)) = rs_replid2 (hn_state nd)"
  "rs_second_offset (hn_state (stream_append bs nd)) = rs_second_offset (hn_state nd)"
  "hn_data (stream_append bs nd) = hn_data nd @ bs" "hn_primary (stream_append bs nd) = hn_primary nd"
  "hn_active (stream_append bs nd) = hn_active nd" "hn_origin (stream_append bs nd) = hn_origin nd"
  by (simp_all add: stream_append_def)

lemma set_node_simps [simp]:
  "hs_node (set_node n nd s) m = (if m = n then nd else hs_node s m)" "hs_hist (set_node n nd s) = hs_hist s"
  "hs_origin (set_node n nd s) = hs_origin s" "hs_used (set_node n nd s) = hs_used s"
  "hs_full (set_node n nd s) = hs_full s" "hs_cont (set_node n nd s) = hs_cont s"
  by (simp_all add: set_node_def)

section \<open>Every step keeps the invariant\<close>
























end
