(* ===== verification/Hash_Ring.thy ===== *)
theory Hash_Ring
  imports Aof
begin

text \<open>
  \<open>cluster/hash_ring.py\<close>: hash tags and the consistent hash ring, with what it uses of the standard
  library (strict UTF-8, MD5, \<open>bisect\<close>).  A ring is its fields; \<open>_nodes\<close>, a set, is the list of its
  elements.  An operation returns its result or the exception it raises, and the ring it leaves.
\<close>

section \<open>Standard library\<close>

text \<open>\<open>str.find(c, start)\<close>.\<close>

definition str_find :: "nat \<Rightarrow> nat \<Rightarrow> str \<Rightarrow> nat option" where
  "str_find c start s = (case filter (\<lambda>i. s ! i = c) [start ..< length s] of [] \<Rightarrow> None | i # _ \<Rightarrow> Some i)"

text \<open>\<open>str.encode()\<close>: strict, so a surrogate is an error even where \<open>surrogateescape\<close> would write a byte.\<close>

definition encode_strict :: "str \<Rightarrow> bytes option" where
  "encode_strict s = (if \<exists>c \<in> set s. 55296 \<le> c \<and> c \<le> 57343 then None else to_bytes s)"

unbundle bit_operations_syntax

definition md5_sines :: "32 word list" where
  "md5_sines =
     [3614090360, 3905402710, 606105819, 3250441966, 4118548399, 1200080426, 2821735955, 4249261313,
      1770035416, 2336552879, 4294925233, 2304563134, 1804603682, 4254626195, 2792965006, 1236535329,
      4129170786, 3225465664, 643717713, 3921069994, 3593408605, 38016083, 3634488961, 3889429448,
      568446438, 3275163606, 4107603335, 1163531501, 2850285829, 4243563512, 1735328473, 2368359562,
      4294588738, 2272392833, 1839030562, 4259657740, 2763975236, 1272893353, 4139469664, 3200236656,
      681279174, 3936430074, 3572445317, 76029189, 3654602809, 3873151461, 530742520, 3299628645,
      4096336452, 1126891415, 2878612391, 4237533241, 1700485571, 2399980690, 4293915773, 2240044497,
      1873313359, 4264355552, 2734768916, 1309151649, 4149444226, 3174756917, 718787259, 3951481745]"

definition md5_shifts :: "nat list" where
  "md5_shifts =
     concat (replicate 4 [7, 12, 17, 22]) @ concat (replicate 4 [5, 9, 14, 20])
     @ concat (replicate 4 [4, 11, 16, 23]) @ concat (replicate 4 [6, 10, 15, 21])"

definition rotate_left :: "nat \<Rightarrow> 32 word \<Rightarrow> 32 word" where
  "rotate_left n w = push_bit n w OR drop_bit (32 - n) w"

definition le_word :: "bytes \<Rightarrow> 32 word" where
  "le_word bs = word_of_nat (foldr (\<lambda>b n. b + 256 * n) bs 0)"

definition le_bytes :: "nat \<Rightarrow> nat \<Rightarrow> bytes" where
  "le_bytes k n = map (\<lambda>i. n div 256 ^ i mod 256) [0 ..< k]"

fun md5_words :: "bytes \<Rightarrow> 32 word list" where
  "md5_words (a # b # c # d # rest) = le_word [a, b, c, d] # md5_words rest"
| "md5_words _ = []"

type_synonym md5_state = "32 word \<times> 32 word \<times> 32 word \<times> 32 word"

definition md5_round :: "32 word list \<Rightarrow> nat \<Rightarrow> md5_state \<Rightarrow> md5_state" where
  "md5_round block i s =
     (case s of (a, b, c, d) \<Rightarrow>
      let (f, g) =
        (if i < 16 then ((b AND c) OR (NOT b AND d), i)
         else if i < 32 then ((d AND b) OR (NOT d AND c), (5 * i + 1) mod 16)
         else if i < 48 then (b XOR c XOR d, (3 * i + 5) mod 16)
         else (c XOR (b OR NOT d), 7 * i mod 16));
        f' = f + a + md5_sines ! i + block ! g
      in (d, b + rotate_left (md5_shifts ! i) f', b, c))"

definition md5_block :: "md5_state \<Rightarrow> 32 word list \<Rightarrow> md5_state" where
  "md5_block s block =
     (case (s, fold (md5_round block) [0 ..< 64] s) of
        ((a, b, c, d), (a', b', c', d')) \<Rightarrow> (a + a', b + b', c + c', d + d'))"

fun md5_blocks :: "nat \<Rightarrow> 32 word list \<Rightarrow> md5_state \<Rightarrow> md5_state" where
  "md5_blocks 0 _ s = s"
| "md5_blocks (Suc n) ws s = md5_blocks n (drop 16 ws) (md5_block s (take 16 ws))"

definition md5_padded :: "bytes \<Rightarrow> bytes" where
  "md5_padded bs = bs @ [128] @ replicate (nat ((55 - int (length bs)) mod 64)) 0 @ le_bytes 8 (8 * length bs)"

definition md5 :: "bytes \<Rightarrow> bytes" where
  "md5 bs =
     (let ws = md5_words (md5_padded bs) in
      case md5_blocks (length ws div 16) ws (1732584193, 4023233417, 2562383102, 271733878) of
        (a, b, c, d) \<Rightarrow> concat (map (\<lambda>w. le_bytes 4 (unat w)) [a, b, c, d]))"

text \<open>\<open>int.from_bytes(digest, "big")\<close>.\<close>

definition from_big :: "bytes \<Rightarrow> nat" where
  "from_big bs = fold (\<lambda>b n. 256 * n + b) bs 0"

text \<open>\<open>bisect.bisect\<close> and \<open>bisect.insort\<close>: binary search for the place after the elements \<open>\<le> x\<close>.\<close>

function bisect_loop :: "nat list \<Rightarrow> nat \<Rightarrow> nat \<Rightarrow> nat \<Rightarrow> nat" where
  "bisect_loop a x lo hi =
     (if lo < hi then
        let mid = (lo + hi) div 2 in
        if x < a ! mid then bisect_loop a x lo mid else bisect_loop a x (mid + 1) hi
      else lo)"
  by pat_completeness auto
termination by (relation "measure (\<lambda>(a, x, lo, hi). hi - lo)") auto

declare bisect_loop.simps [simp del]

definition bisect :: "nat list \<Rightarrow> nat \<Rightarrow> nat" where
  "bisect a x = bisect_loop a x 0 (length a)"

definition insort_right :: "nat list \<Rightarrow> nat \<Rightarrow> nat list" where
  "insort_right a x = take (bisect a x) a @ [x] @ drop (bisect a x) a"

section \<open>Hash tags\<close>

definition hash_slot_key :: "str \<Rightarrow> str" where
  "hash_slot_key key =
     (case str_find 123 0 key of
        None \<Rightarrow> key
      | Some start \<Rightarrow>
          (case str_find 125 (start + 1) key of
             None \<Rightarrow> key
           | Some stop \<Rightarrow> if start + 1 < stop then take (stop - (start + 1)) (drop (start + 1) key) else key))"

section \<open>The ring\<close>

record ring =
  rg_virtual_nodes :: int
  rg_owners :: "(nat, str) dict"
  rg_points :: "nat list"
  rg_nodes :: "str list"

definition ring_hash :: "str \<Rightarrow> nat option" where
  "ring_hash s = map_option (\<lambda>bs. from_big (take 8 (md5 bs))) (encode_strict s)"

definition ring_len :: "ring \<Rightarrow> nat" where
  "ring_len r = length (rg_nodes r)"

definition ring_contains :: "str \<Rightarrow> ring \<Rightarrow> bool" where
  "ring_contains node r \<longleftrightarrow> node \<in> set (rg_nodes r)"

definition ring_nodes :: "ring \<Rightarrow> str list" where
  "ring_nodes r = sort (rg_nodes r)"

text \<open>One point \<open>f"{node}#{i}"\<close>; a point that is taken is skipped.\<close>

definition add_point :: "str \<Rightarrow> nat \<Rightarrow> ring \<Rightarrow> ring" where
  "add_point node point r =
     (if dict_get (rg_owners r) point \<noteq> None then r
      else r\<lparr>rg_owners := dict_set point node (rg_owners r), rg_points := insort_right (rg_points r) point\<rparr>)"

fun add_points :: "str \<Rightarrow> nat list \<Rightarrow> ring \<Rightarrow> (exn + unit) \<times> ring" where
  "add_points node [] r = (Inr (), r)"
| "add_points node (i # is) r =
     (case ring_hash (node @ [35] @ nat_text i) of
        None \<Rightarrow> (Inl (Uncaught ''UnicodeEncodeError''), r)
      | Some point \<Rightarrow> add_points node is (add_point node point r))"

definition add_node :: "str \<Rightarrow> ring \<Rightarrow> (exn + unit) \<times> ring" where
  "add_node node r =
     (if node \<in> set (rg_nodes r) then (Inl (Uncaught ''ValueError''), r)
      else add_points node [0 ..< nat (rg_virtual_nodes r)] (r\<lparr>rg_nodes := rg_nodes r @ [node]\<rparr>))"

definition remove_node :: "str \<Rightarrow> ring \<Rightarrow> (exn + unit) \<times> ring" where
  "remove_node node r =
     (if node \<notin> set (rg_nodes r) then (Inl (Uncaught ''KeyError''), r)
      else (Inr (), r\<lparr>rg_nodes := remove1 node (rg_nodes r),
                      rg_points := filter (\<lambda>p. dict_get (rg_owners r) p \<noteq> Some node) (rg_points r),
                      rg_owners := filter (\<lambda>(p, n). n \<noteq> node) (rg_owners r)\<rparr>))"

fun add_nodes :: "str list \<Rightarrow> ring \<Rightarrow> exn + ring" where
  "add_nodes [] r = Inr r"
| "add_nodes (n # ns) r = (case add_node n r of (Inl x, _) \<Rightarrow> Inl x | (Inr _, r') \<Rightarrow> add_nodes ns r')"

definition ring_init :: "str list \<Rightarrow> int \<Rightarrow> exn + ring" where
  "ring_init nodes virtual_nodes =
     (if virtual_nodes \<le> 0 then Inl (Uncaught ''ValueError'')
      else add_nodes nodes \<lparr>rg_virtual_nodes = virtual_nodes, rg_owners = [], rg_points = [], rg_nodes = []\<rparr>)"

definition get_node :: "str \<Rightarrow> ring \<Rightarrow> exn + str" where
  "get_node key r =
     (if rg_points r = [] then Inl (Uncaught ''LookupError'')
      else case ring_hash key of
        None \<Rightarrow> Inl (Uncaught ''UnicodeEncodeError'')
      | Some h \<Rightarrow>
          (let idx = bisect (rg_points r) h;
               idx = (if idx = length (rg_points r) then 0 else idx)
           in case dict_get (rg_owners r) (rg_points r ! idx) of
                None \<Rightarrow> Inl (Uncaught ''KeyError'')
              | Some n \<Rightarrow> Inr n))"

section \<open>Binary search\<close>

definition splits_at :: "nat list \<Rightarrow> nat \<Rightarrow> nat \<Rightarrow> bool" where
  "splits_at a x k \<longleftrightarrow> k \<le> length a \<and> (\<forall>i < k. a ! i \<le> x) \<and> (\<forall>i. k \<le> i \<and> i < length a \<longrightarrow> x < a ! i)"

lemma bisect_loop_spec:
  assumes "sorted a" "lo \<le> hi" "hi \<le> length a" "\<forall>i < lo. a ! i \<le> x" "\<forall>i. hi \<le> i \<and> i < length a \<longrightarrow> x < a ! i"
  shows "splits_at a x (bisect_loop a x lo hi)"
  using assms
proof (induction a x lo hi rule: bisect_loop.induct)
  case (1 a x lo hi)
  let ?mid = "(lo + hi) div 2"
  consider (left) "lo < hi" "x < a ! ?mid" | (right) "lo < hi" "\<not> x < a ! ?mid" | (found) "\<not> lo < hi" by blast
  then show ?case
  proof cases
    case left
    have "x < a ! i" if "?mid \<le> i" "i < length a" for i
      using that left(2) sorted_nth_mono [OF "1.prems"(1), of ?mid i] by linarith
    then have "splits_at a x (bisect_loop a x lo ?mid)"
      using "1.IH"(1) [OF left(1) refl left(2)] "1.prems" left(1) by auto
    then show ?thesis using left by (simp add: bisect_loop.simps [of a x lo hi] Let_def)
  next
    case right
    have "a ! i \<le> x" if "i < ?mid + 1" for i
      using that right sorted_nth_mono [OF "1.prems"(1), of i ?mid] "1.prems"(3) by fastforce
    then have "splits_at a x (bisect_loop a x (?mid + 1) hi)"
      using "1.IH"(2) [OF right(1) refl right(2)] "1.prems" right(1) by auto
    then show ?thesis using right by (simp add: bisect_loop.simps [of a x lo hi] Let_def)
  next
    case found
    then show ?thesis using "1.prems" by (auto simp: bisect_loop.simps [of a x hi hi] splits_at_def)
  qed
qed

lemma bisect_splits: "sorted a \<Longrightarrow> splits_at a x (bisect a x)"
  unfolding bisect_def by (rule bisect_loop_spec) auto

lemma splits_take: "splits_at a x k \<Longrightarrow> p \<in> set (take k a) \<Longrightarrow> p \<le> x"
  by (auto simp: splits_at_def in_set_conv_nth)

lemma splits_drop: "splits_at a x k \<Longrightarrow> p \<in> set (drop k a) \<Longrightarrow> x < p"
  by (auto simp: splits_at_def in_set_conv_nth)

lemma insort_right_ok:
  assumes "sorted a" "distinct a" "x \<notin> set a"
  shows "sorted (insort_right a x)" "distinct (insort_right a x)" "set (insort_right a x) = insert x (set a)"
proof -
  let ?k = "bisect a x"
  note sp = bisect_splits [OF assms(1), of x]
  have a: "set a = set (take ?k a) \<union> set (drop ?k a)" by (metis append_take_drop_id set_append)
  have lt: "u < v" if "u \<in> set (take ?k a)" "v \<in> set (drop ?k a)" for u v
    using splits_take [OF sp that(1)] splits_drop [OF sp that(2)] by simp
  show "sorted (insort_right a x)" "distinct (insort_right a x)"
    using splits_take [OF sp] splits_drop [OF sp] assms a lt
    by (auto simp: insort_right_def sorted_append less_imp_le dest!: lt)
  show "set (insort_right a x) = insert x (set a)" using a by (auto simp: insort_right_def)
qed

section \<open>Walking clockwise\<close>

text \<open>The first point after \<open>h\<close>, or the first point of all past the end.\<close>

definition clockwise :: "nat set \<Rightarrow> nat \<Rightarrow> nat" where
  "clockwise P h = (if \<exists>p \<in> P. h < p then Min {p \<in> P. h < p} else Min P)"

lemma clockwise_mem: "finite P \<Longrightarrow> P \<noteq> {} \<Longrightarrow> clockwise P h \<in> P"
  using Min_in [of "{p \<in> P. h < p}"] by (auto simp: clockwise_def intro: Min_in)

lemma bisect_clockwise:
  assumes "sorted a" "a \<noteq> []"
  shows "a ! (if bisect a h = length a then 0 else bisect a h) = clockwise (set a) h"
proof (cases "bisect a h = length a")
  case True
  with splits_take [OF bisect_splits [OF assms(1)], of _ h] have "\<not> (\<exists>p \<in> set a. h < p)" by fastforce
  moreover have "Min (set a) = a ! 0"
    using assms by (intro Min_eqI) (auto simp: in_set_conv_nth intro: sorted_nth_mono)
  ultimately show ?thesis using True by (simp add: clockwise_def)
next
  case False
  let ?k = "bisect a h"
  from bisect_splits [OF assms(1), of h] False
  have k: "?k < length a" "\<And>i. i < ?k \<Longrightarrow> a ! i \<le> h" "h < a ! ?k" by (auto simp: splits_at_def)
  have "Min {p \<in> set a. h < p} = a ! ?k"
  proof (rule Min_eqI)
    fix p assume "p \<in> {p \<in> set a. h < p}"
    then obtain i where "i < length a" "p = a ! i" "h < a ! i" by (auto simp: in_set_conv_nth)
    with k(2) [of i] show "a ! ?k \<le> p" using sorted_nth_mono [OF assms(1), of ?k i] by (cases "i < ?k") auto
  qed (use k in auto)
  with k show ?thesis by (auto simp: clockwise_def)
qed

lemma clockwise_more:
  assumes "finite P'" "P \<subseteq> P'" "P \<noteq> {}"
  shows "clockwise P' h \<in> P' - P \<or> clockwise P' h = clockwise P h"
proof (cases "clockwise P' h \<in> P")
  case True
  have fin: "finite P" using assms by (auto intro: finite_subset)
  show ?thesis
  proof (cases "\<exists>p \<in> P'. h < p")
    case after: True
    let ?q = "clockwise P' h"
    have q: "?q = Min {p \<in> P'. h < p}" using after by (simp add: clockwise_def)
    have "?q \<in> {p \<in> P'. h < p}" unfolding q by (rule Min_in) (use after assms(1) in auto)
    then have "h < ?q" by simp
    moreover have "?q \<le> p" if "p \<in> P" "h < p" for p
      unfolding q using that assms by (intro Min_le) auto
    ultimately have "Min {p \<in> P. h < p} = ?q" using True fin by (intro Min_eqI) auto
    with True \<open>h < ?q\<close> show ?thesis by (auto simp: clockwise_def [of P])
  next
    case False
    then have "clockwise P' h = Min P'" "clockwise P h = Min P" using assms by (auto simp: clockwise_def)
    moreover have "Min P = Min P'" using True fin assms calculation by (intro Min_eqI) (auto intro: Min_le)
    ultimately show ?thesis by simp
  qed
next
  case False
  then show ?thesis using clockwise_mem [of P' h] assms by auto
qed

section \<open>Rings\<close>

definition ring_ok :: "ring \<Rightarrow> bool" where
  "ring_ok r \<longleftrightarrow> sorted (rg_points r) \<and> distinct (rg_points r) \<and> dict_ok (rg_owners r)
     \<and> set (rg_points r) = set (dict_keys (rg_owners r)) \<and> distinct (rg_nodes r) \<and> (\<forall>(p, n) \<in> set (rg_owners r). n \<in> set (rg_nodes r))"

text \<open>A ring that differs from another in points of node \<open>n\<close> only.\<close>

definition more_of :: "str \<Rightarrow> ring \<Rightarrow> ring \<Rightarrow> bool" where
  "more_of n r r' \<longleftrightarrow> (\<exists>new. rg_owners r' = rg_owners r @ map (\<lambda>p. (p, n)) new)"

lemma more_of_refl: "rg_owners r' = rg_owners r \<Longrightarrow> more_of n r r'"
  by (auto simp: more_of_def intro: exI [of _ "[]"])

lemma more_of_trans: "more_of n r r' \<Longrightarrow> more_of n r' r'' \<Longrightarrow> more_of n r r''"
  by (auto simp: more_of_def) (metis map_append)

lemma add_point_ok:
  assumes "ring_ok r" "n \<in> set (rg_nodes r)"
  shows "ring_ok (add_point n p r)" "more_of n r (add_point n p r)" "set (rg_points (add_point n p r)) = insert p (set (rg_points r))"
    "rg_nodes (add_point n p r) = rg_nodes r" "rg_virtual_nodes (add_point n p r) = rg_virtual_nodes r"
proof -
  have k: "dict_get (rg_owners r) p \<noteq> None \<longleftrightarrow> p \<in> set (rg_points r)"
    using assms(1) by (simp add: ring_ok_def map_of_eq_None_iff)
  show "set (rg_points (add_point n p r)) = insert p (set (rg_points r))"
    using k assms insort_right_ok(3) [of "rg_points r" p] by (auto simp: add_point_def ring_ok_def)
  show "ring_ok (add_point n p r)"
    using k assms insort_right_ok [of "rg_points r" p] by (auto simp: add_point_def ring_ok_def dict_set_new keys_dict_set)
  show "more_of n r (add_point n p r)"
    by (auto simp: add_point_def more_of_def dict_set_new intro: exI [of _ "[]"] exI [of _ "[p]"])
qed (simp_all add: add_point_def)

lemma add_points_ok:
  "ring_ok r \<Longrightarrow> n \<in> set (rg_nodes r) \<Longrightarrow> add_points n is r = (Inr (), r') \<Longrightarrow>
   ring_ok r' \<and> more_of n r r' \<and> rg_nodes r' = rg_nodes r \<and> rg_virtual_nodes r' = rg_virtual_nodes r
   \<and> set (rg_points r') = set (rg_points r) \<union> {h. \<exists>i \<in> set is. ring_hash (n @ [35] @ nat_text i) = Some h}"
proof (induction "is" arbitrary: r)
  case Nil
  then show ?case by (simp add: more_of_refl)
next
  case (Cons i "is")
  then obtain p where p: "ring_hash (n @ [35] @ nat_text i) = Some p" "add_points n is (add_point n p r) = (Inr (), r')"
    by (auto split: option.splits)
  note ok = add_point_ok [OF Cons.prems(1,2), of p]
  from Cons.IH [OF ok(1) _ p(2)] Cons.prems(2) ok p(1) show ?case
    by (auto intro: more_of_trans [OF ok(2)])
qed

lemma add_node_ok:
  assumes "ring_ok r" "add_node n r = (Inr (), r')"
  shows "ring_ok r' \<and> more_of n r r' \<and> rg_nodes r' = rg_nodes r @ [n] \<and> n \<notin> set (rg_nodes r)
    \<and> rg_virtual_nodes r' = rg_virtual_nodes r
    \<and> set (rg_points r') = set (rg_points r) \<union> {h. \<exists>i < nat (rg_virtual_nodes r). ring_hash (n @ [35] @ nat_text i) = Some h}"
proof -
  let ?r = "r\<lparr>rg_nodes := rg_nodes r @ [n]\<rparr>"
  from assms have n: "n \<notin> set (rg_nodes r)" "add_points n [0 ..< nat (rg_virtual_nodes r)] ?r = (Inr (), r')"
    by (auto simp: add_node_def split: if_splits)
  have "ring_ok ?r" using assms(1) n(1) by (auto simp: ring_ok_def)
  from add_points_ok [OF this _ n(2)] n(1) show ?thesis by (auto simp: more_of_def)
qed

text \<open>Where the nodes of a ring sit.\<close>

definition positions :: "str list \<Rightarrow> int \<Rightarrow> nat set" where
  "positions ns v = {h. \<exists>n \<in> set ns. \<exists>i < nat v. ring_hash (n @ [35] @ nat_text i) = Some h}"

definition placed :: "ring \<Rightarrow> bool" where
  "placed r \<longleftrightarrow> ring_ok r \<and> set (rg_points r) = positions (rg_nodes r) (rg_virtual_nodes r)
     \<and> (\<forall>(p, n) \<in> set (rg_owners r). \<exists>i < nat (rg_virtual_nodes r). ring_hash (n @ [35] @ nat_text i) = Some p)"

lemma add_node_placed:
  assumes "placed r" "add_node n r = (Inr (), r')"
  shows "placed r'"
proof -
  note ok = add_node_ok [OF _ assms(2)]
  from assms(1) have r: "ring_ok r" by (simp add: placed_def)
  then obtain new where new: "rg_owners r' = rg_owners r @ map (\<lambda>p. (p, n)) new" using ok by (auto simp: more_of_def)
  have dk: "distinct (dict_keys (rg_owners r'))" "set (rg_points r') = set (dict_keys (rg_owners r'))"
    using ok [OF r] by (auto simp: ring_ok_def dict_ok_def)
  have "\<exists>i < nat (rg_virtual_nodes r). ring_hash (n @ [35] @ nat_text i) = Some p" if "p \<in> set new" for p
  proof -
    have "p \<in> set (rg_points r')" using that dk(2) new by auto
    moreover have "p \<notin> set (rg_points r)" using that dk(1) new r by (auto simp: ring_ok_def)
    ultimately show ?thesis using ok [OF r] by auto
  qed
  then show ?thesis
    using assms(1) ok [OF r] new by (auto simp: placed_def positions_def)
qed

lemma add_nodes_placed: "placed r \<Longrightarrow> add_nodes ns r = Inr r' \<Longrightarrow>
  placed r' \<and> rg_nodes r' = rg_nodes r @ ns \<and> rg_virtual_nodes r' = rg_virtual_nodes r"
proof (induction ns arbitrary: r)
  case (Cons n ns)
  then obtain r1 where r1: "add_node n r = (Inr (), r1)" "add_nodes ns r1 = Inr r'"
    by (auto split: prod.splits sum.splits)
  from Cons.IH [OF add_node_placed [OF Cons.prems(1) r1(1)] r1(2)] add_node_ok [OF _ r1(1)] Cons.prems(1)
  show ?case by (auto simp: placed_def)
qed simp

lemma placed_empty: "placed \<lparr>rg_virtual_nodes = v, rg_owners = [], rg_points = [], rg_nodes = []\<rparr>"
  by (simp add: placed_def ring_ok_def positions_def)

lemma ring_init_placed:
  "ring_init ns v = Inr r \<Longrightarrow> placed r \<and> rg_nodes r = ns \<and> rg_virtual_nodes r = v \<and> 0 < v"
  using add_nodes_placed [OF placed_empty, of ns v r] by (simp add: ring_init_def split: if_splits)

lemma get_node_owner:
  assumes "ring_ok r" "rg_points r \<noteq> []" "ring_hash key = Some h"
  shows "\<exists>n. get_node key r = Inr n \<and> dict_get (rg_owners r) (clockwise (set (rg_points r)) h) = Some n \<and> n \<in> set (rg_nodes r)"
proof -
  have srt: "sorted (rg_points r)" using assms(1) by (simp add: ring_ok_def)
  have "clockwise (set (rg_points r)) h \<in> set (rg_points r)" using assms(2) by (intro clockwise_mem) auto
  then obtain n where n: "dict_get (rg_owners r) (clockwise (set (rg_points r)) h) = Some n"
    using assms(1) by (auto simp: ring_ok_def) (metis map_of_eq_None_iff not_None_eq image_eqI fst_conv)
  then have "n \<in> set (rg_nodes r)" using assms(1) by (auto simp: ring_ok_def dest!: map_of_SomeD)
  with n show ?thesis
    using assms(2,3) bisect_clockwise [OF srt assms(2), of h] by (auto simp: get_node_def Let_def)
qed

lemma init_has_points:
  assumes "ring_init (n # ns) v = Inr r"
  shows "rg_points r \<noteq> []"
proof -
  from ring_init_placed [OF assms] have v: "0 < nat v" "set (rg_points r) = positions (n # ns) v" by (auto simp: placed_def)
  let ?r = "\<lparr>rg_virtual_nodes = v, rg_owners = [], rg_points = [], rg_nodes = [n]\<rparr>"
  obtain r1 where r1: "add_points n [0 ..< nat v] ?r = (Inr (), r1)"
    using assms by (auto simp: ring_init_def add_node_def split: if_splits prod.splits sum.splits)
  have "[0 ..< nat v] = 0 # [1 ..< nat v]" using v(1) by (simp add: upt_conv_Cons)
  with r1 obtain h where "ring_hash (n @ [35] @ nat_text 0) = Some h" by (auto split: option.splits)
  with v show ?thesis by (auto simp: positions_def)
qed

lemma more_of_lookup:
  assumes "more_of n r r'" "ring_ok r'" "p \<in> set (rg_points r')"
  shows "dict_get (rg_owners r') p = (if p \<in> set (dict_keys (rg_owners r)) then dict_get (rg_owners r) p else Some n)"
proof -
  obtain new where new: "rg_owners r' = rg_owners r @ map (\<lambda>p. (p, n)) new" using assms(1) by (auto simp: more_of_def)
  have "map_of (map (\<lambda>p. (p, n)) new) q = (if q \<in> set new then Some n else None)" for q by (induction new) auto
  moreover have "p \<in> set (dict_keys (rg_owners r)) \<union> set new" using assms(2,3) new by (auto simp: ring_ok_def)
  moreover have "set (dict_keys (rg_owners r)) \<inter> set new = {}" using assms(2) new by (auto simp: ring_ok_def dict_ok_def)
  moreover have "p \<notin> set (dict_keys (rg_owners r)) \<longleftrightarrow> dict_get (rg_owners r) p = None" by (simp add: map_of_eq_None_iff)
  ultimately show ?thesis
    by (cases "p \<in> set new") (auto simp: new map_add_def)
qed

lemma more_of_get_node:
  assumes "more_of n r r'" "ring_ok r" "ring_ok r'" "rg_points r \<noteq> []"
  shows "get_node key r' = get_node key r \<or> get_node key r' = Inr n"
proof (cases "ring_hash key")
  case (Some h)
  have P: "set (rg_points r) \<subseteq> set (rg_points r')" using assms(1-3) by (auto simp: more_of_def ring_ok_def)
  then have ne: "rg_points r' \<noteq> []" using assms(4) by auto
  obtain m where m: "get_node key r' = Inr m" "dict_get (rg_owners r') (clockwise (set (rg_points r')) h) = Some m"
    using get_node_owner [OF assms(3) ne Some] by blast
  obtain m0 where m0: "get_node key r = Inr m0" "dict_get (rg_owners r) (clockwise (set (rg_points r)) h) = Some m0"
    using get_node_owner [OF assms(2,4) Some] by blast
  have mem: "clockwise (set (rg_points r')) h \<in> set (rg_points r')" using ne by (intro clockwise_mem) auto
  note lk = more_of_lookup [OF assms(1,3) mem]
  have "clockwise (set (rg_points r')) h \<in> set (rg_points r') - set (rg_points r)
      \<or> clockwise (set (rg_points r')) h = clockwise (set (rg_points r)) h"
    by (rule clockwise_more) (use P assms(4) in auto)
  then show ?thesis
  proof (elim disjE)
    assume "clockwise (set (rg_points r')) h \<in> set (rg_points r') - set (rg_points r)"
    then show ?thesis using lk m assms(2) by (auto simp: ring_ok_def)
  next
    assume "clockwise (set (rg_points r')) h = clockwise (set (rg_points r)) h"
    then show ?thesis using lk m m0 by (auto split: if_splits)
  qed
next
  case None
  then show ?thesis using assms by (auto simp: get_node_def more_of_def ring_ok_def)
qed

lemma filter_owner: "n \<notin> snd ` set d \<Longrightarrow> filter (\<lambda>(p, m). m \<noteq> n) (d @ map (\<lambda>p. (p, n)) new) = d"
  by (induction d) (auto simp: filter_empty_conv)

lemma remove_added:
  assumes "ring_ok r" "add_node n r = (Inr (), r')"
  shows "remove_node n r' = (Inr (), r)"
proof -
  note ok = add_node_ok [OF assms]
  then obtain new where new: "rg_owners r' = rg_owners r @ map (\<lambda>p. (p, n)) new" by (auto simp: more_of_def)
  have n: "n \<notin> snd ` set (rg_owners r)" using assms(1) ok by (auto simp: ring_ok_def)
  have ow: "dict_get (rg_owners r) p \<noteq> Some n" for p using n by (auto dest!: map_of_SomeD) (metis image_eqI snd_conv)
  let ?keep = "filter (\<lambda>p. dict_get (rg_owners r') p \<noteq> Some n) (rg_points r')"
  have "dict_get (rg_owners r') p \<noteq> Some n \<longleftrightarrow> p \<in> set (rg_points r)" if "p \<in> set (rg_points r')" for p
  proof -
    have "more_of n r r'" "ring_ok r'" using ok by auto
    from more_of_lookup [OF this that] show ?thesis using ow assms(1) by (auto simp: ring_ok_def)
  qed
  then have "set ?keep = set (rg_points r)" using ok by auto
  moreover have "sorted ?keep" "distinct ?keep" using ok by (auto simp: ring_ok_def intro: sorted_wrt_filter)
  moreover have "sorted (rg_points r)" "distinct (rg_points r)" using assms(1) by (auto simp: ring_ok_def)
  ultimately have pts: "?keep = rg_points r" by (metis sorted_distinct_set_unique)
  have "remove1 n (rg_nodes r @ [n]) = rg_nodes r" using ok by (simp add: remove1_append)
  then show ?thesis using ok pts filter_owner [OF n, of new] new by (auto simp: remove_node_def)
qed

section \<open>Lookups\<close>

text \<open>
  C13.  A lookup on a ring built from at least one node always answers for a key that can be encoded,
  and what it answers is the owner the ring is defined by: a node that sits at the first position
  clockwise from the key's hash, among the positions of all nodes of the ring.
\<close>

theorem get_node_clockwise:
  assumes "ring_init (n # ns) v = Inr r" "ring_hash key = Some h"
  shows "\<exists>owner \<in> set (n # ns). get_node key r = Inr owner
    \<and> (\<exists>i < nat v. ring_hash (owner @ [35] @ nat_text i) = Some (clockwise (positions (n # ns) v) h))"
proof -
  note pl = ring_init_placed [OF assms(1)]
  then have "ring_ok r" by (simp add: placed_def)
  from get_node_owner [OF this init_has_points [OF assms(1)] assms(2)] pl
  show ?thesis by (force simp: placed_def dest!: map_of_SomeD)
qed

text \<open>Text of ASCII characters has a position.\<close>

lemma ring_hash_ascii: "\<forall>c \<in> set s. c < 128 \<Longrightarrow> \<exists>h. ring_hash s = Some h"
  by (auto simp: ring_hash_def encode_strict_def to_bytes_ascii)

lemma nat_text_0: "nat_text 0 = [48]"
  by (simp add: nat_text.simps)

lemma demo_ring: "\<exists>r. ring_init [lit ''a'', lit ''b''] 1 = Inr r"
proof -
  have "\<exists>h. ring_hash (lit [c] @ [35, 48]) = Some h" if "of_char c < (128 :: nat)" for c
    using that by (intro ring_hash_ascii) (auto simp: lit_def)
  from this [of "CHR ''a''"] this [of "CHR ''b''"] show ?thesis
    by (auto simp: ring_init_def add_node_def lit_def nat_text_0 add_point_def)
qed

theorem get_node_clockwise_witness:
  "\<exists>r h owner. ring_init [lit ''a'', lit ''b''] 1 = Inr r \<and> ring_hash (lit ''k'') = Some h
    \<and> get_node (lit ''k'') r = Inr owner \<and> ring_hash (owner @ lit ''#0'') = Some (clockwise (positions [lit ''a'', lit ''b''] 1) h)"
proof -
  obtain r where r: "ring_init [lit ''a'', lit ''b''] 1 = Inr r" using demo_ring by blast
  obtain h where h: "ring_hash (lit ''k'') = Some h" using ring_hash_ascii [of "lit ''k''"] by (auto simp: lit_def)
  from get_node_clockwise [OF r h] r h show ?thesis by (auto simp: lit_def nat_text_0)
qed

text \<open>
  C14.  Adding a node moves keys only to that node: every other key keeps its owner.  Removing the
  node again gives back the ring as it was, so removing a node moves only the keys it owned.
\<close>

theorem ring_changes_move_little:
  assumes "ring_init (n0 # ns) v = Inr r" "add_node n r = (Inr (), r')"
  shows "(get_node key r' = get_node key r \<or> get_node key r' = Inr n) \<and> remove_node n r' = (Inr (), r)"
proof -
  have ok: "ring_ok r" using ring_init_placed [OF assms(1)] by (simp add: placed_def)
  have "ring_ok r'" "more_of n r r'" using add_node_ok [OF ok assms(2)] by auto
  from more_of_get_node [OF this(2) ok this(1) init_has_points [OF assms(1)]] remove_added [OF ok assms(2)]
  show ?thesis by simp
qed

theorem ring_changes_move_little_witness:
  "\<exists>r r'. ring_init [lit ''a'', lit ''b''] 1 = Inr r \<and> add_node (lit ''c'') r = (Inr (), r')
    \<and> remove_node (lit ''c'') r' = (Inr (), r) \<and> get_node (lit ''k'') r' \<in> {get_node (lit ''k'') r, Inr (lit ''c'')}"
proof -
  obtain r where r: "ring_init [lit ''a'', lit ''b''] 1 = Inr r" using demo_ring by blast
  have "lit ''c'' \<notin> set (rg_nodes r)" "rg_virtual_nodes r = 1" using ring_init_placed [OF r] by (auto simp: lit_def)
  moreover obtain h where "ring_hash (lit ''c'' @ [35, 48]) = Some h"
    using ring_hash_ascii [of "lit ''c'' @ [35, 48]"] by (auto simp: lit_def)
  ultimately obtain r' where r': "add_node (lit ''c'') r = (Inr (), r')" by (auto simp: add_node_def nat_text_0)
  from ring_changes_move_little [OF r r', of "lit ''k''"] r r' show ?thesis by blast
qed

section \<open>Keys with a hash tag\<close>

lemma str_find_split:
  assumes "c \<notin> set (drop start u)" "start \<le> length u"
  shows "str_find c start (u @ c # w) = Some (length u)"
proof -
  have "[start ..< length (u @ c # w)] = [start ..< length u] @ length u # [Suc (length u) ..< length (u @ c # w)]"
    using upt_add_eq_append [OF assms(2), of "Suc (length w)"] by (simp add: upt_conv_Cons del: upt_Suc)
  moreover have "u ! i \<noteq> c" if "start \<le> i" "i < length u" for i
    using assms(1) that nth_mem [of "i - start" "drop start u"] by auto
  then have "filter (\<lambda>i. (u @ c # w) ! i = c) [start ..< length u] = []"
    by (auto simp: filter_empty_conv nth_append)
  ultimately show ?thesis by (simp add: str_find_def del: upt_Suc)
qed

lemma hash_slot_tag:
  assumes "123 \<notin> set pre" "125 \<notin> set tag" "tag \<noteq> []"
  shows "hash_slot_key (pre @ 123 # tag @ 125 # post) = tag"
proof -
  have "str_find 123 0 (pre @ 123 # tag @ 125 # post) = Some (length pre)"
    using assms(1) by (intro str_find_split) auto
  moreover have "str_find 125 (length pre + 1) ((pre @ 123 # tag) @ 125 # post) = Some (length (pre @ 123 # tag))"
    using assms(2) by (intro str_find_split) auto
  ultimately show ?thesis using assms(3) by (simp add: hash_slot_key_def)
qed

end
