(* ===== verification/Migration.thy ===== *)
theory Migration
  imports Hash_Ring Engine
begin

text \<open>
  \<open>cluster/migration.py\<close>: moving keys to their new owners.  A migration runs beside the commands of
  the clients; it is cut at its awaits into the parts that run without interruption.  The other side
  of a transfer is the list of replies it sends.
\<close>

section \<open>Plans\<close>

record migration_plan =
  mp_shard :: str
  mp_virtual_nodes :: int
  mp_targets :: "(str, str) dict"

definition plan_ring :: "migration_plan \<Rightarrow> exn + ring" where
  "plan_ring p = ring_init (dict_keys (mp_targets p)) (mp_virtual_nodes p)"

fun pairs_dict :: "arg list \<Rightarrow> (str, str) dict \<Rightarrow> (str, str) dict" where
  "pairs_dict (i # a # rest) d = pairs_dict rest (dict_set (arg_str i) (arg_str a) d)"
| "pairs_dict _ d = d"

text \<open>\<open>int(x)\<close> of an argument; \<open>None\<close> is the \<open>ValueError\<close> of a text that is no number.\<close>

fun arg_int :: "arg \<Rightarrow> exn + int" where
  "arg_int (IArg n) = Inr n"
| "arg_int (BArg b) = Inr (if b then 1 else 0)"
| "arg_int (SArg s) = (case py_int s of None \<Rightarrow> Inl (Uncaught ''ValueError'') | Some n \<Rightarrow> Inr n)"
| "arg_int (FArg x) =
     (case ftrunc x of
        Some n \<Rightarrow> Inr n
      | None \<Rightarrow> Inl (Uncaught (if x = NaN then ''ValueError'' else ''OverflowError'')))"

definition plan_from_args :: "arg list \<Rightarrow> exn + migration_plan" where
  "plan_from_args args =
     (if length args < 4 \<or> odd (length args) then Inl (Uncaught ''ValueError'')
      else case arg_int (args ! 1) of
        Inl x \<Rightarrow> Inl x
      | Inr vn \<Rightarrow>
          Inr \<lparr>mp_shard = arg_str (args ! 0), mp_virtual_nodes = vn, mp_targets = pairs_dict (drop 2 args) []\<rparr>)"

definition plan_to_args :: "migration_plan \<Rightarrow> arg list" where
  "plan_to_args p =
     [SArg (mp_shard p), IArg (mp_virtual_nodes p)] @ concat (map (\<lambda>(i, a). [SArg i, SArg a]) (mp_targets p))"

section \<open>State\<close>

datatype mig_state = Running | Done | Failed

text \<open>
  \<open>km_pending\<close> is the local variable of \<open>_run\<close>.  \<open>km_batch\<close> are the keys of the batch being moved,
  and \<open>km_sending\<close> the transfers under way, by address.
\<close>

type_synonym item = "str \<times> arg list"

record key_migration =
  km_plan :: migration_plan
  km_ring :: ring
  km_batch_size :: nat
  km_in_flight :: "str list"
  km_state :: mig_state
  km_moved :: int
  km_error :: "exn option"
  km_pending :: "str list"
  km_batch :: "str list"
  km_sending :: "(str, item list) dict"

definition migration_init :: "migration_plan \<Rightarrow> exn + key_migration" where
  "migration_init p =
     (case plan_ring p of
        Inl x \<Rightarrow> Inl x
      | Inr r \<Rightarrow>
          Inr \<lparr>km_plan = p, km_ring = r, km_batch_size = 100, km_in_flight = [], km_state = Running, km_moved = 0,
               km_error = None, km_pending = [], km_batch = [], km_sending = []\<rparr>)"

section \<open>Routing\<close>

definition destination :: "key_migration \<Rightarrow> str \<Rightarrow> exn + (str \<times> str) option" where
  "destination m key =
     (case get_node (hash_slot_key key) (km_ring m) of
        Inl x \<Rightarrow> Inl x
      | Inr shard \<Rightarrow>
          if shard = mp_shard (km_plan m) then Inr None
          else case dict_get (mp_targets (km_plan m)) shard of
            None \<Rightarrow> Inl (Uncaught ''KeyError'')
          | Some address \<Rightarrow> Inr (Some (shard, address)))"

text \<open>\<open>store.peek(k) is None and self.destination(k) is not None\<close>.\<close>

definition is_gone :: "key_migration \<Rightarrow> str \<Rightarrow> bool cmd" where
  "is_gone m k =
     bnd (peek k) (\<lambda>e.
     if e \<noteq> None then ret False
     else bnd (lift (destination m k)) (\<lambda>d. ret (d \<noteq> None)))"

definition ask_redirect :: "str \<times> str \<Rightarrow> exn" where
  "ask_redirect d = Raised (mk_error AskRedirectError (fst d @ [32] @ snd d) None)"

definition migration_check :: "key_migration \<Rightarrow> str \<Rightarrow> arg list \<Rightarrow> unit cmd" where
  "migration_check m command args =
     (case dict_get COMMANDS (py_upper command) of
        None \<Rightarrow> ret ()
      | Some spec \<Rightarrow>
          let keys = command_keys spec args in
          if keys = [] then ret ()
          else if \<exists>k \<in> set keys. k \<in> set (km_in_flight m)
          then throw (Raised (err TryAgainError ''key is being migrated''))
          else
            bnd (filter_cmd (is_gone m) keys) (\<lambda>gone.
            if gone = [] then ret ()
            else if length gone < length keys
            then throw (Raised (err TryAgainError ''multiple keys request during a migration''))
            else
              bnd (lift (destination m (hd gone))) (\<lambda>d.
              case d of None \<Rightarrow> throw (Uncaught ''AssertionError'') | Some d \<Rightarrow> throw (ask_redirect d))))"

section \<open>Moving\<close>

text \<open>
  \<open>_run\<close> up to its first await.  Any exception ends the migration as failed.
\<close>

definition mig_fail :: "exn \<Rightarrow> key_migration \<Rightarrow> key_migration" where
  "mig_fail x m = m\<lparr>km_state := Failed, km_error := Some x\<rparr>"

definition mig_begin :: "key_migration \<Rightarrow> engine \<Rightarrow> key_migration \<times> engine" where
  "mig_begin m e =
     (case bnd (on_store iter_keys) (filter_cmd (\<lambda>k. bnd (lift (destination m k)) (\<lambda>d. ret (d \<noteq> None)))) e of
        (Inl x, e') \<Rightarrow> (mig_fail x m, e')
      | (Inr pending, e') \<Rightarrow> (m\<lparr>km_pending := pending\<rparr>, e'))"

text \<open>
  The command that creates the key at its target.  \<open>dump_value\<close> fails on text that has no bytes, and
  on lengths beyond 32 bits; an infinite deadline has no milliseconds.
\<close>

definition restore_command :: "snapshot_record \<Rightarrow> exn + arg list" where
  "restore_command rec =
     (case rec of (key, payload, expires_at) \<Rightarrow>
        (case (case expires_at of None \<Rightarrow> Some 0 | Some t \<Rightarrow> map_option (max 1) (fround (fscale t 1000))) of
           None \<Rightarrow> Inl (Uncaught ''OverflowError'')
         | Some ttl \<Rightarrow>
             (case dump_value payload of
                None \<Rightarrow> Inl (Uncaught ''UnicodeEncodeError'')
              | Some bs \<Rightarrow>
                  Inr ([SArg (lit ''RESTORE''), SArg key, IArg ttl, SArg (to_str bs), SArg (lit ''REPLACE'')]
                       @ (if expires_at = None then [] else [SArg (lit ''ABSTTL'')])))))"

definition note_item :: "str \<Rightarrow> str \<Rightarrow> arg list \<Rightarrow> key_migration \<Rightarrow> key_migration" where
  "note_item address key command m =
     m\<lparr>km_sending := dict_set address
           ((case dict_get (km_sending m) address of None \<Rightarrow> [] | Some items \<Rightarrow> items) @ [(key, command)]) (km_sending m),
       km_in_flight := (if key \<in> set (km_in_flight m) then km_in_flight m else km_in_flight m @ [key])\<rparr>"

fun prepare_move :: "str list \<Rightarrow> key_migration \<Rightarrow> engine \<Rightarrow> (exn + unit) \<times> key_migration \<times> engine" where
  "prepare_move [] m e = (Inr (), m, e)"
| "prepare_move (key # keys) m e =
     (case on_store (store_record key) e of
        (Inl x, e') \<Rightarrow> (Inl x, m, e')
      | (Inr record, e') \<Rightarrow>
          (case destination m key of
             Inl x \<Rightarrow> (Inl x, m, e')
           | Inr d \<Rightarrow>
               (case (record, d) of
                  (Some rec, Some (_, address)) \<Rightarrow>
                    (case restore_command rec of
                       Inl x \<Rightarrow> (Inl x, m, e')
                     | Inr command \<Rightarrow> prepare_move keys (note_item address key command m) e')
                | _ \<Rightarrow> prepare_move keys m e')))"

text \<open>
  The \<open>finally\<close> of \<open>_move\<close>: the batch's keys are no longer in flight.  It runs when all transfers have
  ended, or as soon as one of them has failed; the others then go on.
\<close>

definition move_end :: "key_migration \<Rightarrow> key_migration" where
  "move_end m = m\<lparr>km_in_flight := filter (\<lambda>k. k \<notin> set (km_batch m)) (km_in_flight m), km_batch := []\<rparr>"

text \<open>
  One turn of the loop of \<open>_run\<close>: the next batch, up to the transfers; or the end.  An exception while
  a batch is prepared comes before the \<open>try\<close> that releases its keys.
\<close>

definition mig_next :: "key_migration \<Rightarrow> engine \<Rightarrow> key_migration \<times> engine" where
  "mig_next m e =
     (if km_pending m = [] then (m\<lparr>km_state := Done\<rparr>, e)
      else
        let batch = take (km_batch_size m) (km_pending m);
            m1 = m\<lparr>km_pending := drop (km_batch_size m) (km_pending m), km_batch := batch, km_sending := []\<rparr>
        in case prepare_move batch m1 e of
             (Inl x, m2, e') \<Rightarrow> (mig_fail x m2, e')
           | (Inr _, m2, e') \<Rightarrow> (if km_sending m2 = [] then move_end m2 else m2, e'))"

text \<open>
  The replies of a transfer have arrived (until then \<open>_send\<close> keeps trying).  The first error ends it
  before anything is deleted.
\<close>

fun first_error :: "reply list \<Rightarrow> kverror option" where
  "first_error [] = None"
| "first_error (r # rs) = (case r of RError x \<Rightarrow> Some x | _ \<Rightarrow> first_error rs)"

definition send_done ::
  "str \<Rightarrow> item list \<Rightarrow> reply list \<Rightarrow> key_migration \<Rightarrow> engine \<Rightarrow> (exn + unit) \<times> key_migration \<times> engine" where
  "send_done address items replies m0 e =
     (let m = m0\<lparr>km_sending := dict_pop address (km_sending m0)\<rparr> in
      case first_error (take (length items) replies) of
        Some x \<Rightarrow> (Inl (Raised x), m, e)
      | None \<Rightarrow>
          if length replies \<noteq> length items then (Inl (Uncaught ''ValueError''), m, e)
          else if items = [] then (Inr (), m, e)
          else case execute (lit ''DEL'') (map (SArg \<circ> fst) items) e of
            (Inl x, e') \<Rightarrow> (Inl x, m, e')
          | (Inr _, e') \<Rightarrow> (Inr (), m\<lparr>km_moved := km_moved m + int (length items)\<rparr>, e'))"

definition transfer_done ::
  "str \<Rightarrow> reply list \<Rightarrow> key_migration \<Rightarrow> engine \<Rightarrow> key_migration \<times> engine" where
  "transfer_done address replies m e =
     (case dict_get (km_sending m) address of
        None \<Rightarrow> (m, e)
      | Some items \<Rightarrow>
          (case send_done address items replies m e of
             (Inl x, m', e') \<Rightarrow> (if km_state m' = Running then mig_fail x (move_end m') else m', e')
           | (Inr _, m', e') \<Rightarrow>
               (if km_state m' = Running \<and> km_sending m' = [] then move_end m' else m', e')))"

text \<open>\<open>stop\<close> cancels the task, and with it the transfers it waits for.\<close>

definition migration_stop :: "key_migration \<Rightarrow> key_migration" where
  "migration_stop m = (if km_state m = Running then (move_end m)\<lparr>km_sending := []\<rparr> else m)"

end
