(* ===== verification/Metrics.thy ===== *)
theory Metrics
  imports Resp
begin

text \<open>
  \<open>observability/metrics.py\<close>: histograms, the statistics per command and the text a scrape returns.
  A number in a scrape is an \<open>arg\<close>: an integer or a float.
\<close>

section \<open>Histograms\<close>

definition LATENCY_BUCKETS :: "pyfloat list" where
  "LATENCY_BUCKETS = map round64
     [1 / 100000, 1 / 40000, 1 / 20000, 1 / 10000, 1 / 4000, 1 / 2000, 1 / 1000, 1 / 400, 1 / 200,
      1 / 100, 1 / 40, 1 / 20, 1 / 10, 1 / 4, 1 / 2, 1, 5 / 2]"

definition SIZE_BUCKETS :: "pyfloat list" where
  "SIZE_BUCKETS = map Fin [1, 2, 4, 8, 16, 32, 64, 128, 256, 512]"

record histogram =
  hg_bounds :: "pyfloat list"
  hg_buckets :: "int list"
  hg_count :: int
  hg_sum :: pyfloat

definition histogram_init :: "pyfloat list \<Rightarrow> histogram" where
  "histogram_init bounds =
     \<lparr>hg_bounds = bounds, hg_buckets = replicate (length bounds + 1) 0, hg_count = 0, hg_sum = Fin 0\<rparr>"

text \<open>\<open>bisect.bisect_left\<close>.\<close>

function bisect_left_loop :: "pyfloat list \<Rightarrow> pyfloat \<Rightarrow> nat \<Rightarrow> nat \<Rightarrow> nat" where
  "bisect_left_loop a x lo hi =
     (if lo < hi then
        let mid = (lo + hi) div 2
        in if flt (a ! mid) x then bisect_left_loop a x (mid + 1) hi else bisect_left_loop a x lo mid
      else lo)"
  by pat_completeness auto
termination by (relation "measure (\<lambda>(a, x, lo, hi). hi - lo)") auto

declare bisect_left_loop.simps [simp del]

definition bisect_left :: "pyfloat list \<Rightarrow> pyfloat \<Rightarrow> nat" where
  "bisect_left a x = bisect_left_loop a x 0 (length a)"

definition observe :: "pyfloat \<Rightarrow> histogram \<Rightarrow> histogram" where
  "observe x h =
     (let i = bisect_left (hg_bounds h) x
      in h\<lparr>hg_buckets := (hg_buckets h)[i := hg_buckets h ! i + 1], hg_count := hg_count h + 1,
           hg_sum := fadd (hg_sum h) x\<rparr>)"

text \<open>\<open>_number\<close>, for an integer and for a float.\<close>

fun number_text :: "arg \<Rightarrow> str" where
  "number_text (IArg n) = int_text n"
| "number_text (BArg b) = int_text (if b then 1 else 0)"
| "number_text (FArg x) =
     (case x of
        PosInf \<Rightarrow> lit ''+Inf''
      | NegInf \<Rightarrow> lit ''-Inf''
      | NaN \<Rightarrow> lit ''nan''
      | Fin q \<Rightarrow> if q = of_int \<lfloor>q\<rfloor> then int_text \<lfloor>q\<rfloor> else float_repr q)"
| "number_text (SArg s) = s"

fun running_sums :: "int \<Rightarrow> int list \<Rightarrow> int list" where
  "running_sums running [] = []"
| "running_sums running (c # cs) = (running + c) # running_sums (running + c) cs"

definition cumulative :: "histogram \<Rightarrow> (str \<times> int) list" where
  "cumulative h =
     zip (map (\<lambda>b. number_text (FArg b)) (hg_bounds h @ [PosInf])) (running_sums 0 (hg_buckets h))"

section \<open>Statistics per command\<close>

record command_stats =
  ct_enabled :: bool
  ct_errors :: "(str \<times> str, int) dict"
  ct_latency :: "(str, histogram) dict"

definition stats_init :: "bool \<Rightarrow> command_stats" where
  "stats_init enabled = \<lparr>ct_enabled = enabled, ct_errors = [], ct_latency = []\<rparr>"

definition stats_calls :: "command_stats \<Rightarrow> (str, int) dict" where
  "stats_calls c = map (\<lambda>(command, h). (command, hg_count h)) (ct_latency c)"

definition stats_record :: "str \<Rightarrow> pyfloat \<Rightarrow> command_stats \<Rightarrow> command_stats" where
  "stats_record command seconds c =
     (let h = (case dict_get (ct_latency c) command of None \<Rightarrow> histogram_init LATENCY_BUCKETS | Some h \<Rightarrow> h)
      in c\<lparr>ct_latency := dict_set command (observe seconds h) (ct_latency c)\<rparr>)"

definition stats_error :: "str \<Rightarrow> str \<Rightarrow> command_stats \<Rightarrow> command_stats" where
  "stats_error command prefix c =
     (let n = (case dict_get (ct_errors c) (command, prefix) of None \<Rightarrow> 0 | Some n \<Rightarrow> n)
      in c\<lparr>ct_errors := dict_set (command, prefix) (n + 1) (ct_errors c)\<rparr>)"

section \<open>Exposition\<close>

type_synonym labels = "(str, str) dict"

fun replace_char :: "nat \<Rightarrow> str \<Rightarrow> str \<Rightarrow> str" where
  "replace_char c by [] = []"
| "replace_char c by (x # xs) = (if x = c then by @ replace_char c by xs else x # replace_char c by xs)"

definition escape_label :: "str \<Rightarrow> str" where
  "escape_label s = replace_char 34 [92, 34] (replace_char 10 [92, 110] (replace_char 92 [92, 92] s))"

fun join_with :: "str \<Rightarrow> str list \<Rightarrow> str" where
  "join_with sep [] = []"
| "join_with sep [x] = x"
| "join_with sep (x # xs) = x @ sep @ join_with sep xs"

definition labels_text :: "labels \<Rightarrow> str" where
  "labels_text ls =
     (if ls = [] then []
      else [123] @ join_with [44] (map (\<lambda>(k, v). k @ [61, 34] @ escape_label v @ [34]) ls) @ [125])"

type_synonym exposition = "str list"

definition expo_header :: "str \<Rightarrow> str \<Rightarrow> string \<Rightarrow> exposition \<Rightarrow> exposition" where
  "expo_header name help kind out =
     out @ [lit ''# HELP '' @ name @ [32] @ help, lit ''# TYPE '' @ name @ [32] @ lit kind]"

definition expo_family :: "str \<Rightarrow> str \<Rightarrow> string \<Rightarrow> (labels \<times> arg) list \<Rightarrow> exposition \<Rightarrow> exposition" where
  "expo_family name help kind samples out =
     (let rows = map (\<lambda>(ls, v). name @ labels_text ls @ [32] @ number_text v) samples
      in if rows = [] then out else expo_header name help kind out @ rows)"

definition expo_counter :: "str \<Rightarrow> str \<Rightarrow> (labels \<times> arg) list \<Rightarrow> exposition \<Rightarrow> exposition" where
  "expo_counter name help samples out = expo_family (name @ lit ''_total'') help ''counter'' samples out"

definition expo_gauge :: "str \<Rightarrow> str \<Rightarrow> (labels \<times> arg) list \<Rightarrow> exposition \<Rightarrow> exposition" where
  "expo_gauge name help samples out = expo_family name help ''gauge'' samples out"

definition histogram_rows :: "str \<Rightarrow> labels \<times> histogram \<Rightarrow> str list" where
  "histogram_rows name s =
     (case s of (ls, h) \<Rightarrow>
        map (\<lambda>(le, n). name @ lit ''_bucket'' @ labels_text (dict_set (lit ''le'') le ls) @ [32] @ int_text n) (cumulative h)
        @ [name @ lit ''_sum'' @ labels_text ls @ [32] @ number_text (FArg (hg_sum h)),
           name @ lit ''_count'' @ labels_text ls @ [32] @ int_text (hg_count h)])"

definition expo_histogram :: "str \<Rightarrow> str \<Rightarrow> (labels \<times> histogram) list \<Rightarrow> exposition \<Rightarrow> exposition" where
  "expo_histogram name help series out =
     (if series = [] then out else expo_header name help ''histogram'' out @ concat (map (histogram_rows name) series))"

definition expo_text :: "exposition \<Rightarrow> str" where
  "expo_text out = join_with [10] out @ [10]"

section \<open>A bucket counts what it says\<close>

lemma bisect_left_loop_spec:
  assumes "sorted a" "NaN \<notin> set a" "x \<noteq> NaN" "lo \<le> hi" "hi \<le> length a"
    "\<forall>i < lo. a ! i < x" "\<forall>i. hi \<le> i \<and> i < length a \<longrightarrow> x \<le> a ! i" "k = bisect_left_loop a x lo hi"
  shows "k \<le> length a \<and> (\<forall>i < k. a ! i < x) \<and> (\<forall>i. k \<le> i \<and> i < length a \<longrightarrow> x \<le> a ! i)"
  using assms
proof (induction a x lo hi rule: bisect_left_loop.induct)
  case (1 a x lo hi)
  let ?mid = "(lo + hi) div 2"
  show ?case
  proof (cases "lo < hi")
    case True
    then have mid: "?mid < length a" "lo \<le> ?mid" "?mid < hi" using "1.prems"(5) by auto
    have nan: "a ! ?mid \<noteq> NaN" using mid(1) "1.prems"(2) by (metis nth_mem)
    have ord: "a ! i \<le> a ! j" if "i \<le> j" "j < length a" for i j
      using "1.prems"(1) that by (simp add: sorted_iff_nth_mono)
    show ?thesis
    proof (cases "a ! ?mid < x")
      case lt: True
      then have below: "\<forall>i < ?mid + 1. a ! i < x"
        using ord [OF _ mid(1)] by (auto simp: less_Suc_eq_le intro: le_less_trans)
      have k: "k = bisect_left_loop a x (?mid + 1) hi"
        using "1.prems"(3,8) True lt nan by (simp add: bisect_left_loop.simps [of a x lo hi] Let_def)
      show ?thesis
        by (rule "1.IH"(1) [OF True refl _ "1.prems"(1-3) _ "1.prems"(5) below "1.prems"(7) k])
          (use lt nan mid "1.prems"(3) in auto)
    next
      case ge: False
      then have above: "\<forall>i. ?mid \<le> i \<and> i < length a \<longrightarrow> x \<le> a ! i"
        using ord [of ?mid] by (meson leI order_trans)
      have k: "k = bisect_left_loop a x lo ?mid"
        using "1.prems"(3,8) True ge nan by (simp add: bisect_left_loop.simps [of a x lo hi] Let_def)
      show ?thesis
        by (rule "1.IH"(2) [OF True refl _ "1.prems"(1-3) mid(2) _ "1.prems"(6) above k]) (use ge nan mid "1.prems"(3) in auto)
    qed
  next
    case False
    then have "lo = hi" "k = lo" using "1.prems"(4) unfolding "1.prems"(8) by (simp, subst bisect_left_loop.simps, simp)
    then show ?thesis using "1.prems"(5-7) by auto
  qed
qed

lemma bisect_left_iff:
  assumes "sorted a" "NaN \<notin> set a" "x \<noteq> NaN"
  shows "bisect_left a x \<le> length a" "i < length a \<Longrightarrow> bisect_left a x \<le> i \<longleftrightarrow> x \<le> a ! i"
proof -
  have s: "bisect_left a x \<le> length a \<and> (\<forall>i < bisect_left a x. a ! i < x)
      \<and> (\<forall>i. bisect_left a x \<le> i \<and> i < length a \<longrightarrow> x \<le> a ! i)"
    by (rule bisect_left_loop_spec [OF assms, of 0 "length a"]) (auto simp: bisect_left_def)
  then show "bisect_left a x \<le> length a" by simp
  show "bisect_left a x \<le> i \<longleftrightarrow> x \<le> a ! i" if "i < length a"
    using s that by (meson leD leI)
qed

lemma running_sums_nth: "i < length cs \<Longrightarrow> running_sums r cs ! i = r + sum_list (take (Suc i) cs)"
  by (induction cs arbitrary: r i) (auto simp: nth_Cons split: nat.split)

lemma length_running_sums [simp]: "length (running_sums r cs) = length cs"
  by (induction cs arbitrary: r) simp_all

lemma sum_take_update: "j < length cs \<Longrightarrow>
  sum_list (take n (cs[j := cs ! j + 1])) = sum_list (take n cs) + (if j < n then 1 else (0 :: int))"
  by (induction cs arbitrary: n j) (auto simp: take_Cons nth_Cons list_update_def split: nat.splits)

lemma observe_fold:
  assumes "sorted bounds" "NaN \<notin> set bounds" "NaN \<notin> set xs"
  defines "h \<equiv> fold observe xs (histogram_init bounds)"
  shows "hg_bounds h = bounds \<and> length (hg_buckets h) = length bounds + 1 \<and> hg_count h = int (length xs)
    \<and> (\<forall>n. sum_list (take n (hg_buckets h)) = int (length (filter (\<lambda>x. bisect_left bounds x < n) xs)))"
  using assms(3) unfolding h_def
proof (induction xs rule: rev_induct)
  case Nil
  then show ?case by (simp add: histogram_init_def sum_list_replicate take_replicate del: replicate_Suc replicate.simps)
next
  case (snoc x xs)
  let ?h = "fold observe xs (histogram_init bounds)"
  have x: "x \<noteq> NaN" and IH: "hg_bounds ?h = bounds" "length (hg_buckets ?h) = length bounds + 1" "hg_count ?h = int (length xs)"
    "\<And>n. sum_list (take n (hg_buckets ?h)) = int (length (filter (\<lambda>x. bisect_left bounds x < n) xs))"
    using snoc by auto
  have "bisect_left bounds x < length (hg_buckets ?h)" using bisect_left_iff(1) [OF assms(1,2) x] IH(2) by simp
  from sum_take_update [OF this] show ?case by (simp add: observe_def [of x ?h] Let_def IH)
qed

text \<open>
  C31.  Every line of a histogram says what Prometheus reads in it: after any observations, the
  cumulative count of each bound is the number of observations not above it, and the last one, for
  \<open>+Inf\<close>, is the number of all.
\<close>

theorem histogram_counts:
  assumes "sorted bounds" "NaN \<notin> set bounds" "NaN \<notin> set xs"
  shows "cumulative (fold observe xs (histogram_init bounds))
    = map (\<lambda>b. (number_text (FArg b), int (length (filter (\<lambda>x. x \<le> b) xs)))) (bounds @ [PosInf])"
proof -
  define h where "h = fold observe xs (histogram_init bounds)"
  have o: "hg_bounds h = bounds" "length (hg_buckets h) = length bounds + 1"
    "\<And>n. sum_list (take n (hg_buckets h)) = int (length (filter (\<lambda>x. bisect_left bounds x < n) xs))"
    using observe_fold [OF assms] by (simp_all add: h_def)
  have le: "bisect_left bounds x < Suc i \<longleftrightarrow> x \<le> (bounds @ [PosInf]) ! i" if "i < length bounds + 1" "x \<in> set xs" for i x
  proof -
    have x: "x \<noteq> NaN" using that(2) assms(3) by auto
    then have "x \<le> PosInf" by (cases x) (auto simp: less_eq_pyfloat_def)
    then show ?thesis using bisect_left_iff [OF assms(1,2) x] that(1) by (auto simp: nth_append less_Suc_eq_le)
  qed
  have "running_sums 0 (hg_buckets h) = map (\<lambda>b. int (length (filter (\<lambda>x. x \<le> b) xs))) (bounds @ [PosInf])"
  proof (rule nth_equalityI)
    fix i assume "i < length (running_sums 0 (hg_buckets h))"
    then have i: "i < length bounds + 1" by (simp add: o)
    then have "filter (\<lambda>x. bisect_left bounds x < Suc i) xs = filter (\<lambda>x. x \<le> (bounds @ [PosInf]) ! i) xs"
      using le by (intro filter_cong) blast+
    then show "running_sums 0 (hg_buckets h) ! i = map (\<lambda>b. int (length (filter (\<lambda>x. x \<le> b) xs))) (bounds @ [PosInf]) ! i"
      using i by (simp add: running_sums_nth o(2,3) del: map_append)
  qed (simp add: o)
  then show ?thesis unfolding h_def [symmetric] by (simp add: cumulative_def o zip_map_map zip_same_conv_map comp_def)
qed

theorem histogram_counts_witness:
  "map snd (cumulative (fold observe [Fin 3, Fin 1, Fin 700, Fin 2] (histogram_init SIZE_BUCKETS))) ! 1 = 2"
  by (subst histogram_counts) (auto simp: SIZE_BUCKETS_def less_eq_pyfloat_def)

end
