(* ===== verification/Topology.thy ===== *)
theory Topology
  imports Hash_Ring
begin

text \<open>
  \<open>cluster/topology.py\<close>: shard groups and the cluster configuration that its epoch versions.  A frozen
  dataclass is a record; building one runs \<open>__post_init__\<close>, which checks it, and so does
  \<open>dataclasses.replace\<close>.  The dictionary form of a configuration is a record whose optional fields are
  the keys that \<open>from_dict\<close> reads with \<open>get\<close>.
\<close>

section \<open>Text\<close>

text \<open>\<open>str.partition\<close>, \<open>str.rpartition\<close> and \<open>str.split\<close> with a one-character separator.\<close>

definition partition_at :: "nat \<Rightarrow> str \<Rightarrow> str \<times> bool \<times> str" where
  "partition_at c s =
     (if c \<in> set s then (takeWhile (\<lambda>x. x \<noteq> c) s, True, tl (dropWhile (\<lambda>x. x \<noteq> c) s)) else (s, False, []))"

definition rpartition_at :: "nat \<Rightarrow> str \<Rightarrow> str \<times> bool \<times> str" where
  "rpartition_at c s =
     (case partition_at c (rev s) of
        (back, True, front) \<Rightarrow> (rev front, True, rev back)
      | (_, False, _) \<Rightarrow> ([], False, s))"

fun split_at :: "nat \<Rightarrow> str \<Rightarrow> str list" where
  "split_at c [] = [[]]"
| "split_at c (x # xs) = (if x = c then [] # split_at c xs else (x # hd (split_at c xs)) # tl (split_at c xs))"

text \<open>\<open>str.isdigit\<close>: the decimal digits, and the digits that are not decimal (superscripts and so on).\<close>

definition digit_ranges :: "(nat \<times> nat) list" where
  "digit_ranges =
     [(178, 179), (185, 185), (4969, 4977), (6618, 6618), (8304, 8304), (8308, 8313), (8320, 8329),
      (9312, 9320), (9332, 9340), (9352, 9360), (9450, 9450), (9461, 9469), (9471, 9471), (10102, 10110),
      (10112, 10120), (10122, 10130), (68160, 68163), (69216, 69224), (69714, 69722), (127232, 127242)]"

definition is_digit :: "str \<Rightarrow> bool" where
  "is_digit s \<longleftrightarrow>
     s \<noteq> [] \<and> (\<forall>c \<in> set s. digit_value c \<noteq> None \<or> (\<exists>(lo, hi) \<in> set digit_ranges. lo \<le> c \<and> c \<le> hi))"

section \<open>Shard groups\<close>

definition check_address :: "str \<Rightarrow> bool" where
  "check_address address =
     (case rpartition_at 58 address of (host, sep, port) \<Rightarrow> sep \<and> host \<noteq> [] \<and> is_digit port)"

record shard_group =
  sg_id :: str
  sg_primary :: str
  sg_replicas :: "str list"

definition members :: "shard_group \<Rightarrow> str list" where
  "members g = sg_primary g # sg_replicas g"

record shard_dict =
  sd_id :: str
  sd_primary :: str
  sd_replicas :: "str list option"

definition group_to_dict :: "shard_group \<Rightarrow> shard_dict" where
  "group_to_dict g = \<lparr>sd_id = sg_id g, sd_primary = sg_primary g, sd_replicas = Some (sg_replicas g)\<rparr>"

definition group_from_dict :: "shard_dict \<Rightarrow> shard_group" where
  "group_from_dict d =
     \<lparr>sg_id = sd_id d, sg_primary = sd_primary d, sg_replicas = (case sd_replicas d of None \<Rightarrow> [] | Some rs \<Rightarrow> rs)\<rparr>"

section \<open>The configuration\<close>

text \<open>\<open>cf_rebalance\<close> is \<open>Rebalance.target\<close>.\<close>

record config =
  cf_epoch :: int
  cf_shards :: "shard_group list"
  cf_virtual_nodes :: int
  cf_rebalance :: "str list option"
  cf_ring_ids :: "str list"

definition value_error :: exn where "value_error = Uncaught ''ValueError''"

definition all_members :: "config \<Rightarrow> str list" where
  "all_members c = concat (map members (cf_shards c))"

definition post_init :: "config \<Rightarrow> exn + config" where
  "post_init c =
     (let ids = map sg_id (cf_shards c) in
      if ids = [] then Inl value_error
      else if \<not> distinct ids then Inl value_error
      else if \<not> list_all check_address (all_members c) then Inl value_error
      else if \<not> distinct (all_members c) then Inl value_error
      else
        let c' = (if cf_ring_ids c = [] then c\<lparr>cf_ring_ids := ids\<rparr> else c);
            referenced = set (cf_ring_ids c') \<union> (case cf_rebalance c' of None \<Rightarrow> {} | Some target \<Rightarrow> set target)
        in if referenced - set ids \<noteq> {} then Inl value_error else Inr c')"

definition cf_group :: "str \<Rightarrow> config \<Rightarrow> exn + shard_group" where
  "cf_group shard_id c =
     (case find (\<lambda>g. sg_id g = shard_id) (cf_shards c) of None \<Rightarrow> Inl (Uncaught ''KeyError'') | Some g \<Rightarrow> Inr g)"

definition group_of :: "str \<Rightarrow> config \<Rightarrow> shard_group option" where
  "group_of address c = find (\<lambda>g. address \<in> set (members g)) (cf_shards c)"

definition cf_ring :: "config \<Rightarrow> exn + ring" where
  "cf_ring c = ring_init (cf_ring_ids c) (cf_virtual_nodes c)"

definition target_ring :: "config \<Rightarrow> (exn + ring) option" where
  "target_ring c = map_option (\<lambda>target. ring_init target (cf_virtual_nodes c)) (cf_rebalance c)"

definition with_group :: "shard_group \<Rightarrow> config \<Rightarrow> exn + config" where
  "with_group grp c =
     post_init (c\<lparr>cf_epoch := cf_epoch c + 1,
                  cf_shards := map (\<lambda>g. if sg_id g = sg_id grp then grp else g) (cf_shards c)\<rparr>)"

text \<open>\<open>next_epoch(**changes)\<close>: the changes are given as an update of the record.\<close>

definition next_epoch :: "(config \<Rightarrow> config) \<Rightarrow> config \<Rightarrow> exn + config" where
  "next_epoch changes c = post_init (changes (c\<lparr>cf_epoch := cf_epoch c + 1\<rparr>))"

section \<open>Dictionaries and text\<close>

record config_dict =
  cd_epoch :: int
  cd_virtual_nodes :: "int option"
  cd_shards :: "shard_dict list"
  cd_ring :: "str list option"
  cd_rebalance :: "str list option"

definition config_to_dict :: "config \<Rightarrow> config_dict" where
  "config_to_dict c =
     \<lparr>cd_epoch = cf_epoch c, cd_virtual_nodes = Some (cf_virtual_nodes c),
      cd_shards = map group_to_dict (cf_shards c), cd_ring = Some (cf_ring_ids c), cd_rebalance = cf_rebalance c\<rparr>"

definition config_from_dict :: "config_dict \<Rightarrow> exn + config" where
  "config_from_dict d =
     post_init \<lparr>cf_epoch = cd_epoch d, cf_shards = map group_from_dict (cd_shards d),
                cf_virtual_nodes = (case cd_virtual_nodes d of None \<Rightarrow> 100 | Some v \<Rightarrow> v),
                cf_rebalance = cd_rebalance d,
                cf_ring_ids = (case cd_ring d of None \<Rightarrow> [] | Some r \<Rightarrow> r)\<rparr>"

text \<open>One item of \<open>KV_SHARDS\<close>, the \<open>i\<close>-th of them.\<close>

definition spec_group :: "nat \<Rightarrow> str \<Rightarrow> shard_group" where
  "spec_group i item =
     (case partition_at 61 item of (before, sep, after) \<Rightarrow>
      let (shard_id, text) = (if sep then (before, after) else (lit ''shard-'' @ nat_text i, item));
          ms = map py_strip (split_at 43 text)
      in \<lparr>sg_id = py_strip shard_id, sg_primary = hd ms, sg_replicas = tl ms\<rparr>)"

definition from_spec :: "str list \<Rightarrow> int \<Rightarrow> exn + config" where
  "from_spec spec virtual_nodes =
     post_init \<lparr>cf_epoch = 0, cf_shards = map (\<lambda>(i, item). spec_group (i + 1) item) (enumerate 0 spec),
                cf_virtual_nodes = virtual_nodes, cf_rebalance = None, cf_ring_ids = []\<rparr>"

section \<open>Valid configurations\<close>

text \<open>What \<open>__post_init__\<close> establishes.\<close>

definition config_ok :: "config \<Rightarrow> bool" where
  "config_ok c \<longleftrightarrow> cf_shards c \<noteq> [] \<and> distinct (map sg_id (cf_shards c)) \<and> list_all check_address (all_members c)
     \<and> distinct (all_members c) \<and> cf_ring_ids c \<noteq> [] \<and> set (cf_ring_ids c) \<subseteq> sg_id ` set (cf_shards c)
     \<and> (\<forall>target. cf_rebalance c = Some target \<longrightarrow> set target \<subseteq> sg_id ` set (cf_shards c))"

lemma post_init_ok: "post_init c = Inr c' \<Longrightarrow> config_ok c'"
  by (auto simp: post_init_def config_ok_def Let_def all_members_def split: if_splits option.splits)

lemma post_init_keeps: "config_ok c \<Longrightarrow> post_init c = Inr c"
  by (auto simp: post_init_def config_ok_def Let_def split: option.splits)

lemma post_init_fields:
  "post_init c = Inr c' \<Longrightarrow> cf_epoch c' = cf_epoch c \<and> cf_shards c' = cf_shards c
   \<and> cf_virtual_nodes c' = cf_virtual_nodes c \<and> cf_rebalance c' = cf_rebalance c
   \<and> (cf_ring_ids c \<noteq> [] \<longrightarrow> cf_ring_ids c' = cf_ring_ids c)"
  by (auto simp: post_init_def Let_def split: if_splits option.splits)

lemma group_dict_roundtrip [simp]: "group_from_dict (group_to_dict g) = g"
  by (simp add: group_from_dict_def group_to_dict_def)

text \<open>
  C15.  A configuration read back from the dictionary it was saved as is the same configuration, and the
  checks accept it again; this holds for every configuration the program can have built.
\<close>

theorem config_roundtrip:
  assumes "post_init c0 = Inr c"
  shows "config_from_dict (config_to_dict c) = Inr c"
proof -
  have "map group_from_dict (map group_to_dict (cf_shards c)) = cf_shards c" by (simp add: comp_def)
  then show ?thesis
    using post_init_keeps [OF post_init_ok [OF assms]] by (cases c) (simp add: config_from_dict_def config_to_dict_def)
qed

lemma demo_spec:
  "from_spec [lit ''a=h:1+h:2'', lit '' h:3''] 100 =
     Inr \<lparr>cf_epoch = 0,
          cf_shards = [\<lparr>sg_id = lit ''a'', sg_primary = lit ''h:1'', sg_replicas = [lit ''h:2'']\<rparr>,
                       \<lparr>sg_id = lit ''shard-2'', sg_primary = lit ''h:3'', sg_replicas = []\<rparr>],
          cf_virtual_nodes = 100, cf_rebalance = None, cf_ring_ids = [lit ''a'', lit ''shard-2'']\<rparr>"
  by (simp add: from_spec_def spec_group_def partition_at_def rpartition_at_def py_strip_def is_space_def lit_def
      post_init_def all_members_def members_def check_address_def is_digit_def digit_value_def digit_zeros_def
      nat_text.simps)

theorem config_roundtrip_witness:
  "\<exists>c. from_spec [lit ''a=h:1+h:2'', lit '' h:3''] 100 = Inr c \<and> length (cf_shards c) = 2
    \<and> config_from_dict (config_to_dict c) = Inr c"
  using config_roundtrip [OF demo_spec [unfolded from_spec_def]] demo_spec by auto

end
