(* ===== verification/Node.thy ===== *)
theory Node
  imports Replica Migration Metrics Topology
begin

text \<open>
  \<open>replication/node.py\<close>: a shard node, its engine plus its replication role.  The node owns the
  engine, the position in the stream (in the record of the primary's side) and the link; the link
  works on the same engine and position, so a \<open>replica_link\<close> is put together from the node and taken
  apart again.
\<close>

section \<open>State\<close>

datatype node_role = PrimaryRole | ReplicaRole

record repl_settings =
  sg_backlog_bytes :: int
  sg_timeout_s :: pyfloat
  sg_ping_interval_s :: pyfloat
  sg_min_replicas :: int
  sg_max_lag_s :: pyfloat

record link =
  lk_host :: str
  lk_port :: int
  lk_state :: link_state
  lk_out :: bytes
  lk_full_syncs :: int
  lk_partial_syncs :: int
  lk_last_io :: pyfloat

text \<open>
  \<open>nd_file\<close> is the object in \<open>node.json\<close>, if the file exists; \<open>nd_data_dir\<close> whether there is a
  directory for it, and \<open>nd_disk_ok\<close> whether writing to it succeeds.
\<close>

record node =
  nd_engine :: engine
  nd_primary :: primary
  nd_role :: node_role
  nd_link :: "link option"
  nd_epoch :: int
  nd_migration :: "key_migration option"
  nd_stats :: command_stats
  nd_settings :: repl_settings
  nd_listening_port :: int
  nd_data_dir :: bool
  nd_file :: "(str, int) dict option"
  nd_disk_ok :: bool

text \<open>
  The surroundings of a call: the monotonic clock, the unsent output of a replica's connection, the
  id a new history gets, the duration measured, and what \<open>repr\<close> prints of an exception.
\<close>

record node_env =
  ev_now :: pyfloat
  ev_unsent :: "nat \<Rightarrow> int"
  ev_replid :: str
  ev_seconds :: pyfloat
  ev_repr :: "exn \<Rightarrow> str"

definition nd_state :: "node \<Rightarrow> repl_state" where
  "nd_state n = pr_state (nd_primary n)"

section \<open>The epoch\<close>

definition load_epoch :: "bool \<Rightarrow> (str, int) dict option \<Rightarrow> int" where
  "load_epoch data_dir file =
     (if \<not> data_dir then 0
      else case file of None \<Rightarrow> 0 | Some d \<Rightarrow> (case dict_get d (lit ''epoch'') of None \<Rightarrow> 0 | Some n \<Rightarrow> n))"

text \<open>Written beside the file and renamed over it; \<open>False\<close> is an \<open>OSError\<close>.\<close>

definition save_epoch :: "node \<Rightarrow> bool \<times> node" where
  "save_epoch n =
     (if \<not> nd_data_dir n then (True, n)
      else if \<not> nd_disk_ok n then (False, n)
      else (True, n\<lparr>nd_file := Some [(lit ''epoch'', nd_epoch n)]\<rparr>))"

text \<open>A backlog without room is refused.\<close>

definition node_init ::
  "engine \<Rightarrow> int \<Rightarrow> bool \<Rightarrow> (str, int) dict option \<Rightarrow> repl_settings \<Rightarrow> bool \<Rightarrow> str \<Rightarrow> exn + node" where
  "node_init e port data_dir file st metrics replid =
     (case backlog_init (sg_backlog_bytes st) 0 of
        Inl x \<Rightarrow> Inl x
      | Inr b \<Rightarrow>
          Inr \<lparr>nd_engine = e, nd_primary = primary_init (repl_state_init b replid),
               nd_role = PrimaryRole, nd_link = None, nd_epoch = load_epoch data_dir file, nd_migration = None,
               nd_stats = stats_init metrics, nd_settings = st, nd_listening_port = port, nd_data_dir = data_dir,
               nd_file = file, nd_disk_ok = True\<rparr>)"

section \<open>INFO\<close>

fun link_state_text :: "link_state \<Rightarrow> str" where
  "link_state_text Connect = lit ''connect''"
| "link_state_text Sync = lit ''sync''"
| "link_state_text Connected = lit ''connected''"

text \<open>Clock readings are finite, so \<open>int\<close> of a difference is defined.\<close>

definition whole_seconds :: "pyfloat \<Rightarrow> int" where
  "whole_seconds x = (case ftrunc x of Some n \<Rightarrow> n | None \<Rightarrow> 0)"

definition link_fields :: "node_env \<Rightarrow> node \<Rightarrow> link \<Rightarrow> (str \<times> info_field) list" where
  "link_fields v n k =
     [(lit ''master_host'', FText (lk_host k)), (lit ''master_port'', FInt (lk_port k)),
      (lit ''master_link_status'', FText (if lk_state k = Connected then lit ''up'' else lit ''down'')),
      (lit ''master_last_io_seconds_ago'',
         FInt (whole_seconds (let d = fadd (ev_now v) (fneg (lk_last_io k)) in if flt (Fin 0) d then d else Fin 0))),
      (lit ''master_sync_in_progress'', FBool (lk_state k = Sync)),
      (lit ''slave_repl_offset'', FInt (rs_offset (nd_state n))), (lit ''slave_read_only'', FInt 1)]"

definition replica_field :: "node_env \<Rightarrow> nat \<times> conn_replica \<Rightarrow> str \<times> info_field" where
  "replica_field v p =
     (case p of (i, r) \<Rightarrow>
        (lit ''slave'' @ nat_text i,
         FText (lit ''ip='' @ cr_host r @ lit '',port='' @ int_text (cr_port r)
           @ lit '',state='' @ (if cr_online r then lit ''online'' else lit ''sync'')
           @ lit '',offset='' @ int_text (cr_ack_offset r)
           @ lit '',lag='' @ int_text (whole_seconds (fadd (ev_now v) (fneg (cr_ack_time r)))))))"

definition node_info :: "node_env \<Rightarrow> node \<Rightarrow> (str \<times> (str \<times> info_field) list) list" where
  "node_info v n =
     (let s = nd_state n; b = rs_backlog s;
          replicas = (if nd_role n = PrimaryRole then map snd (pr_replicas (nd_primary n)) else [])
      in [(lit ''replication'',
           [(lit ''role'', FText (if nd_role n = PrimaryRole then lit ''master'' else lit ''slave''))]
           @ (case (nd_role n, nd_link n) of (ReplicaRole, Some k) \<Rightarrow> link_fields v n k | _ \<Rightarrow> [])
           @ [(lit ''connected_slaves'', FInt (int (length replicas)))]
           @ map (replica_field v) (zip [0 ..< length replicas] replicas)
           @ [(lit ''master_replid'', FText (rs_replid s)), (lit ''master_replid2'', FText (rs_replid2 s)),
              (lit ''master_repl_offset'', FInt (rs_offset s)), (lit ''second_repl_offset'', FInt (rs_second_offset s)),
              (lit ''repl_backlog_active'', FInt (if pr_active (nd_primary n) \<or> nd_role n = ReplicaRole then 1 else 0)),
              (lit ''repl_backlog_size'', FInt (bl_capacity b)),
              (lit ''repl_backlog_first_byte_offset'', FInt (bl_start b)),
              (lit ''repl_backlog_histlen'', FInt (int (length (bl_buf b)))),
              (lit ''min_replicas_to_write'', FInt (sg_min_replicas (nd_settings n))),
              (lit ''epoch'', FInt (nd_epoch n))])])"

section \<open>The engine and its feed\<close>

text \<open>
  A call of the engine: \<open>engine.replication\<close> is the primary's side on a primary and nothing on a
  replica, \<open>engine.extra_info\<close> the section above.  What the engine feeds and flushes meanwhile reaches
  the primary's side in that order.
\<close>

definition feed_call_do :: "(nat \<Rightarrow> int) \<Rightarrow> feed_call \<Rightarrow> primary \<Rightarrow> primary" where
  "feed_call_do unsent c p = (case c of Fed payload \<Rightarrow> pr_feed payload p | Flushed \<Rightarrow> pr_flush unsent p)"

definition engine_of :: "node_env \<Rightarrow> node \<Rightarrow> engine" where
  "engine_of v n =
     (nd_engine n)\<lparr>en_feed := (if nd_role n = PrimaryRole
                               then Some \<lparr>fd_active = pr_active (nd_primary n), fd_calls = []\<rparr> else None),
                   en_facts := (en_facts (nd_engine n))\<lparr>fc_extra := node_info v n\<rparr>\<rparr>"

definition feed_calls :: "engine \<Rightarrow> feed_call list" where
  "feed_calls e = (case en_feed e of None \<Rightarrow> [] | Some f \<Rightarrow> fd_calls f)"

definition on_engine :: "node_env \<Rightarrow> 'a cmd \<Rightarrow> node \<Rightarrow> (exn + 'a) \<times> node" where
  "on_engine v m n =
     (case m (engine_of v n) of (r, e) \<Rightarrow>
        (r, n\<lparr>nd_engine := e, nd_primary := fold (feed_call_do (ev_unsent v)) (feed_calls e) (nd_primary n)\<rparr>))"

text \<open>\<open>_begin_snapshot\<close>: \<open>None\<close> while the copy is being made; its records arrive in \<open>en_delivered\<close>.\<close>

definition node_begin_snapshot :: "node_env \<Rightarrow> node \<Rightarrow> (exn + snapshot_record list option) \<times> node" where
  "node_begin_snapshot v n =
     (if en_incremental (nd_engine n) \<and> st_job (en_store (nd_engine n)) = None
      then on_engine v (bnd (engine_begin_snapshot ToCaller) (\<lambda>_. ret None)) n
      else (Inr (Some (store_snapshot (en_store (nd_engine n)))), n))"

section \<open>Roles\<close>

text \<open>The link as \<open>ReplicaLink\<close> sees it, and the node after the link has worked.\<close>

definition view_link :: "link \<Rightarrow> node \<Rightarrow> replica_link" where
  "view_link k n =
     \<lparr>rl_engine = nd_engine n, rl_state = nd_state n, rl_host = lk_host k, rl_port = lk_port k,
      rl_listening_port = nd_listening_port n, rl_link_state = lk_state k, rl_out = lk_out k,
      rl_full_syncs = lk_full_syncs k, rl_partial_syncs = lk_partial_syncs k\<rparr>"

definition put_link :: "pyfloat \<Rightarrow> replica_link \<Rightarrow> node \<Rightarrow> node" where
  "put_link now l n =
     n\<lparr>nd_engine := rl_engine l, nd_primary := (nd_primary n)\<lparr>pr_state := rl_state l\<rparr>,
       nd_link := Some \<lparr>lk_host = rl_host l, lk_port = rl_port l, lk_state = rl_link_state l, lk_out = rl_out l,
         lk_full_syncs = rl_full_syncs l, lk_partial_syncs = rl_partial_syncs l, lk_last_io = now\<rparr>\<rparr>"

definition fresh_link :: "str \<Rightarrow> int \<Rightarrow> pyfloat \<Rightarrow> link" where
  "fresh_link host port now =
     \<lparr>lk_host = host, lk_port = port, lk_state = Connect, lk_out = [], lk_full_syncs = 0, lk_partial_syncs = 0,
      lk_last_io = now\<rparr>"

definition become_primary :: "node_env \<Rightarrow> node \<Rightarrow> node" where
  "become_primary v n =
     (if nd_role n = PrimaryRole then n
      else n\<lparr>nd_link := None, nd_role := PrimaryRole,
             nd_primary := (nd_primary n)\<lparr>pr_state := rs_fork (ev_replid v) (nd_state n), pr_active := True\<rparr>,
             nd_engine := set_role (Some \<lparr>fd_active = True, fd_calls = []\<rparr>) (nd_engine n)\<rparr>)"

definition become_replica :: "node_env \<Rightarrow> str \<Rightarrow> int \<Rightarrow> node \<Rightarrow> node" where
  "become_replica v host port n =
     (case nd_link n of
        Some k \<Rightarrow> if (lk_host k, lk_port k) = (host, port) then n
          else n\<lparr>nd_role := ReplicaRole, nd_primary := disconnect_all (nd_primary n),
                 nd_engine := set_role None (nd_engine n), nd_link := Some (fresh_link host port (ev_now v))\<rparr>
      | None \<Rightarrow> n\<lparr>nd_role := ReplicaRole, nd_primary := disconnect_all (nd_primary n),
                  nd_engine := set_role None (nd_engine n), nd_link := Some (fresh_link host port (ev_now v))\<rparr>)"

section \<open>Commands\<close>

text \<open>
  What a command returns: a reply, the takeover of the connection by a replica, or the coroutine that
  waits for acknowledgements.
\<close>

datatype node_result = NReply reply | NTakeover str int | NWait int int

definition node_int :: "arg \<Rightarrow> exn + int" where
  "node_int a =
     (case arg_int a of
        Inr n \<Rightarrow> Inr n
      | Inl x \<Rightarrow> Inl (if x = Uncaught ''ValueError'' then invalid ''value is not an integer or out of range'' else x))"

definition wrong_number :: "string \<Rightarrow> exn" where
  "wrong_number name =
     Raised (mk_error CommandError (lit ''wrong number of arguments for '' @ [39] @ lit name @ [39] @ lit '' command'') None)"

abbreviation upper_text :: "arg \<Rightarrow> str" where
  "upper_text a \<equiv> py_upper (arg_str a)"

definition node_psync :: "arg list \<Rightarrow> node \<Rightarrow> exn + node_result" where
  "node_psync args n =
     (if length args \<noteq> 2 then Inl (wrong_number ''psync'')
      else if nd_role n \<noteq> PrimaryRole
      then Inl (Raised (mk_error CommandError
             (lit ''can'' @ [39] @ lit ''t PSYNC from a replica (chained replication is not supported)'') None))
      else case node_int (args ! 1) of Inl x \<Rightarrow> Inl x | Inr offset \<Rightarrow> Inr (NTakeover (arg_str (args ! 0)) offset))"

definition stale_epoch :: "int \<Rightarrow> int \<Rightarrow> exn" where
  "stale_epoch epoch mine =
     Raised (mk_error CommandError
       (lit ''stale epoch '' @ int_text epoch @ lit '': this node is at epoch '' @ int_text mine) None)"

text \<open>The optional \<open>EPOCH n\<close> at the end.\<close>

definition split_epoch :: "arg list \<Rightarrow> node \<Rightarrow> exn + int option \<times> arg list" where
  "split_epoch args n =
     (if 2 \<le> length args \<and> upper_text (args ! (length args - 2)) = lit ''EPOCH'' then
        (case node_int (args ! (length args - 1)) of
           Inl x \<Rightarrow> Inl x
         | Inr epoch \<Rightarrow>
             if epoch < nd_epoch n then Inl (stale_epoch epoch (nd_epoch n))
             else Inr (Some epoch, take (length args - 2) args))
      else Inr (None, args))"

definition change_role :: "node_env \<Rightarrow> arg list \<Rightarrow> node \<Rightarrow> (exn + unit) \<times> node" where
  "change_role v args n =
     (if length args \<noteq> 2 then (Inl (wrong_number ''replicaof''), n)
      else if upper_text (args ! 0) = lit ''NO'' \<and> upper_text (args ! 1) = lit ''ONE'' then (Inr (), become_primary v n)
      else case node_int (args ! 1) of
        Inl x \<Rightarrow> (Inl x, n)
      | Inr port \<Rightarrow> (Inr (), become_replica v (arg_str (args ! 0)) port n))"

definition node_replicaof :: "node_env \<Rightarrow> arg list \<Rightarrow> node \<Rightarrow> (exn + node_result) \<times> node" where
  "node_replicaof v args n =
     (case split_epoch args n of
        Inl x \<Rightarrow> (Inl x, n)
      | Inr (epoch, rest) \<Rightarrow>
          (case change_role v rest n of
             (Inl x, n1) \<Rightarrow> (Inl x, n1)
           | (Inr _, n1) \<Rightarrow>
               (case epoch of
                  Some e \<Rightarrow>
                    if e \<noteq> nd_epoch n1 then
                      (case save_epoch (n1\<lparr>nd_epoch := e\<rparr>) of
                         (ok, n2) \<Rightarrow> (if ok then Inr (NReply OK) else Inl (Uncaught ''OSError''), n2))
                    else (Inr (NReply OK), n1)
                | None \<Rightarrow> (Inr (NReply OK), n1))))"

definition node_role_reply :: "node \<Rightarrow> exn + node_result" where
  "node_role_reply n =
     (if nd_role n = PrimaryRole
      then Inr (NReply (RArray
             [RBulk (lit ''master''), RInt (rs_offset (nd_state n)),
              RArray (map (\<lambda>(rid, r). RArray [RBulk (cr_host r), RBulk (int_text (cr_port r)), RBulk (int_text (cr_ack_offset r))])
                (pr_replicas (nd_primary n)))]))
      else case nd_link n of
        None \<Rightarrow> Inl (Uncaught ''AssertionError'')
      | Some k \<Rightarrow>
          Inr (NReply (RArray
             [RBulk (lit ''slave''), RBulk (lk_host k), RInt (lk_port k), RBulk (link_state_text (lk_state k)),
              RInt (rs_offset (nd_state n))])))"

definition node_wait :: "arg list \<Rightarrow> node \<Rightarrow> exn + node_result" where
  "node_wait args n =
     (if length args \<noteq> 2 then Inl (wrong_number ''wait'')
      else case node_int (args ! 0) of
        Inl x \<Rightarrow> Inl x
      | Inr needed \<Rightarrow>
          (case node_int (args ! 1) of
             Inl x \<Rightarrow> Inl x
           | Inr ms \<Rightarrow>
               if needed < 0 \<or> ms < 0 then Inl (invalid ''timeout is negative'')
               else if nd_role n \<noteq> PrimaryRole
               then Inl (Raised (err CommandError ''WAIT cannot be used with replica instances''))
               else Inr (NWait needed ms)))"

section \<open>Rebalancing\<close>

definition same_dict :: "('k, 'v) dict \<Rightarrow> ('k, 'v) dict \<Rightarrow> bool" where
  "same_dict a b \<longleftrightarrow> length a = length b \<and> list_all (\<lambda>(k, v). dict_get b k = Some v) a"

definition same_plan :: "migration_plan \<Rightarrow> migration_plan \<Rightarrow> bool" where
  "same_plan a b \<longleftrightarrow>
     mp_shard a = mp_shard b \<and> mp_virtual_nodes a = mp_virtual_nodes b \<and> same_dict (mp_targets a) (mp_targets b)"

fun mig_state_text :: "mig_state \<Rightarrow> str" where
  "mig_state_text Running = lit ''running''"
| "mig_state_text Done = lit ''done''"
| "mig_state_text Failed = lit ''failed''"

definition rebalance_status :: "node_env \<Rightarrow> node \<Rightarrow> reply" where
  "rebalance_status v n =
     (case nd_migration n of
        None \<Rightarrow> RArray [RBulk (lit ''idle''), RInt 0, RBulk []]
      | Some m \<Rightarrow>
          RArray [RBulk (mig_state_text (km_state m)), RInt (km_moved m),
                  RBulk (case km_error m of None \<Rightarrow> [] | Some x \<Rightarrow> ev_repr v x)])"

text \<open>The text of the \<open>ValueError\<close> of a malformed plan; that of a malformed number quotes it, which is left out.\<close>

definition plan_error :: "arg list \<Rightarrow> exn" where
  "plan_error args =
     (if length args < 4 \<or> odd (length args)
      then invalid ''expected: <shard> <virtual-nodes> <id> <address> [...]''
      else invalid ''invalid literal for int() with base 10'')"

definition start_rebalance :: "arg list \<Rightarrow> node \<Rightarrow> (exn + node_result) \<times> node" where
  "start_rebalance args n =
     (if nd_role n \<noteq> PrimaryRole then (Inl (Raised (err CommandError ''only a primary moves keys'')), n)
      else case plan_from_args args of
        Inl x \<Rightarrow> (Inl (if x = Uncaught ''ValueError'' then plan_error args else x), n)
      | Inr plan \<Rightarrow>
          (case nd_migration n of
             Some m \<Rightarrow>
               if same_plan (km_plan m) plan then (Inr (NReply OK), n)
               else (Inl (Raised (err CommandError ''another rebalance is in progress'')), n)
           | None \<Rightarrow>
               (case migration_init plan of
                  Inl x \<Rightarrow> (Inl x, n)
                | Inr m \<Rightarrow> (Inr (NReply OK), n\<lparr>nd_migration := Some m\<rparr>))))"

definition node_cluster :: "node_env \<Rightarrow> arg list \<Rightarrow> node \<Rightarrow> (exn + node_result) \<times> node" where
  "node_cluster v args n =
     (if length args < 2 \<or> upper_text (args ! 0) \<noteq> lit ''REBALANCE''
      then (Inl (Raised (err CommandError ''unknown CLUSTER subcommand (only REBALANCE is supported)'')), n)
      else if upper_text (args ! 1) = lit ''STATUS'' then (Inr (NReply (rebalance_status v n)), n)
      else if upper_text (args ! 1) = lit ''STOP'' then (Inr (NReply OK), n\<lparr>nd_migration := None\<rparr>)
      else start_rebalance (drop 1 args) n)"

section \<open>Running a command\<close>

definition check_role :: "node_env \<Rightarrow> command_spec option \<Rightarrow> node \<Rightarrow> exn + unit" where
  "check_role v spec n =
     (case spec of
        None \<Rightarrow> Inr ()
      | Some c \<Rightarrow>
          if \<not> is_write c then Inr ()
          else if nd_role n = ReplicaRole then Inl (Raised (err ReadOnlyReplicaError []))
          else check_min_replicas (sg_min_replicas (nd_settings n)) (sg_max_lag_s (nd_settings n)) (ev_now v) (nd_primary n))"

definition run_command :: "node_env \<Rightarrow> str \<Rightarrow> arg list \<Rightarrow> node \<Rightarrow> (exn + node_result) \<times> node" where
  "run_command v command args n =
     on_engine v
       (bnd (case nd_migration n of None \<Rightarrow> ret () | Some m \<Rightarrow> migration_check m (py_upper command) args) (\<lambda>_.
        bnd (execute command args) (\<lambda>r. ret (NReply r)))) n"

definition node_execute :: "node_env \<Rightarrow> str \<Rightarrow> arg list \<Rightarrow> node \<Rightarrow> (exn + node_result) \<times> node" where
  "node_execute v command args n =
     (let name = py_upper command in
      if name = lit ''PSYNC'' then (node_psync args n, n)
      else if name = lit ''REPLCONF'' then (Inr (NReply OK), n)
      else if name = lit ''REPLICAOF'' \<or> name = lit ''SLAVEOF'' then node_replicaof v args n
      else if name = lit ''ROLE'' then (node_role_reply n, n)
      else if name = lit ''WAIT'' then (node_wait args n, n)
      else if name = lit ''CLUSTER'' then node_cluster v args n
      else case check_role v (dict_get COMMANDS name) n of
        Inl x \<Rightarrow> (Inl x, n)
      | Inr _ \<Rightarrow> run_command v command args n)"

definition NODE_COMMANDS :: "str list" where
  "NODE_COMMANDS = map lit [''PSYNC'', ''REPLCONF'', ''REPLICAOF'', ''SLAVEOF'', ''ROLE'', ''WAIT'', ''CLUSTER'']"

definition command_label :: "str \<Rightarrow> str" where
  "command_label command =
     (let name = py_upper command
      in if name \<in> set (dict_keys COMMANDS) \<or> name \<in> set NODE_COMMANDS then lower_ascii name else lit ''unknown'')"

text \<open>\<open>execute\<close>: with the counts, when they are enabled.\<close>

definition node_command :: "node_env \<Rightarrow> str \<Rightarrow> arg list \<Rightarrow> node \<Rightarrow> (exn + node_result) \<times> node" where
  "node_command v command args n =
     (if \<not> ct_enabled (nd_stats n) then node_execute v command args n
      else case node_execute v command args n of (r, n1) \<Rightarrow>
        let label = command_label command;
            st = (case r of Inl (Raised x) \<Rightarrow> stats_error label (err_prefix x) (nd_stats n1) | _ \<Rightarrow> nd_stats n1)
        in (r, n1\<lparr>nd_stats := stats_record label (ev_seconds v) st\<rparr>))"

section \<open>Lifecycle\<close>

text \<open>
  \<open>start\<close> with an address; \<open>None\<close> is the \<open>ValueError\<close> of a port that is no number.  The other events of
  a node: the periodic ping, a piece of the primary's stream, the parts of a migration.
\<close>

definition node_start :: "node_env \<Rightarrow> str option \<Rightarrow> node \<Rightarrow> node option" where
  "node_start v replicaof n =
     (case replicaof of
        None \<Rightarrow> Some n
      | Some a \<Rightarrow>
          if a = [] then Some n
          else case rpartition_at 58 a of (host, _, port) \<Rightarrow>
            map_option (\<lambda>p. become_replica v host p n) (py_int port))"

definition node_ping :: "node_env \<Rightarrow> node \<Rightarrow> node" where
  "node_ping v n = (if nd_role n = PrimaryRole then n\<lparr>nd_primary := pr_ping (ev_unsent v) (nd_primary n)\<rparr> else n)"

definition node_stop :: "node \<Rightarrow> node" where
  "node_stop n =
     n\<lparr>nd_link := map_option (\<lambda>k. k\<lparr>lk_state := Connect\<rparr>) (nd_link n), nd_primary := disconnect_all (nd_primary n),
       nd_migration := map_option migration_stop (nd_migration n)\<rparr>"

definition node_receive :: "node_env \<Rightarrow> bytes \<Rightarrow> bytes \<Rightarrow> node \<Rightarrow> ((exn + bytes) \<times> node) option" where
  "node_receive v data buf n =
     (case nd_link n of
        None \<Rightarrow> Some (Inr buf, n)
      | Some k \<Rightarrow>
          map_option (\<lambda>(r, l). (r, put_link (if data = [] then lk_last_io k else ev_now v) l n))
            (follow [data] buf (view_link k n)))"

definition node_migrate :: "node_env \<Rightarrow> (key_migration \<Rightarrow> engine \<Rightarrow> key_migration \<times> engine) \<Rightarrow> node \<Rightarrow> node" where
  "node_migrate v f n =
     (case nd_migration n of
        None \<Rightarrow> n
      | Some m \<Rightarrow> (case on_engine v (\<lambda>e. case f m e of (m', e') \<Rightarrow> (Inr m', e')) n of
            (Inl x, n') \<Rightarrow> n'
          | (Inr m', n') \<Rightarrow> n'\<lparr>nd_migration := Some m'\<rparr>))"

end
