(* ===== verification/Node_Props.thy ===== *)
theory Node_Props
  imports Node Engine_Props
begin

text \<open>
  What a node promises whatever its role is and however it changes: a consistent keyspace, refusals
  of what a replica must not do, and epochs that only grow.
\<close>

section \<open>Runs of a node\<close>


section \<open>The keyspace of a node\<close>


lemma engine_of_store [simp]: "en_store (engine_of v n) = en_store (nd_engine n)"
  by (simp add: engine_of_def)


lemma keeps_is_gone [keeps_intro]: "keeps (kept M S K) (is_gone m k)"
  unfolding is_gone_def by (intro keeps_intro rd.keeps_bnd_peek)















text \<open>\<open>DEL\<close> restores nothing.\<close>

lemma upper_del [simp]: "py_upper (lit ''DEL'') = lit ''DEL''"
  by (simp add: py_upper_def upper_char_def lit_def)






section \<open>Epochs\<close>












lemma upper_words [simp]:
  "py_upper (lit ''REPLICAOF'') = lit ''REPLICAOF''" "py_upper (lit ''EPOCH'') = lit ''EPOCH''" "py_upper (lit ''NO'') = lit ''NO''"
  "py_upper (lit ''ONE'') = lit ''ONE''" "py_upper (lit ''h'') = lit ''H''"
  by (simp_all add: py_upper_def upper_char_def lit_def)

lemma not_engine_commands:
  "dict_get COMMANDS (lit ''PSYNC'') = None" "dict_get COMMANDS (lit ''REPLCONF'') = None"
  "dict_get COMMANDS (lit ''REPLICAOF'') = None" "dict_get COMMANDS (lit ''SLAVEOF'') = None"
  "dict_get COMMANDS (lit ''ROLE'') = None" "dict_get COMMANDS (lit ''WAIT'') = None"
  "dict_get COMMANDS (lit ''CLUSTER'') = None"
  by (simp_all add: command_tables lit_inject)

lemma execute_replicaof: "node_execute v (lit ''REPLICAOF'') args n = node_replicaof v args n"
  by (simp add: node_execute_def lit_inject)


text \<open>
  C11.  A replica refuses every write with \<open>READONLY\<close>, and a primary that has too few recently heard
  replicas refuses it with \<open>NOREPLICAS\<close>; either way nothing changes, neither the keyspace nor the stream
  nor the log.
\<close>

theorem writes_refused:
  assumes "dict_get COMMANDS (py_upper c) = Some spec" "is_write spec"
  shows "(nd_role n = ReplicaRole \<longrightarrow> node_execute v c args n = (Inl (Raised (err ReadOnlyReplicaError [])), n))
    \<and> (nd_role n = PrimaryRole \<longrightarrow>
       int (length (filter (\<lambda>(i, r). cr_online r \<and> fle (fadd (ev_now v) (fneg (cr_ack_time r))) (sg_max_lag_s (nd_settings n)))
         (pr_replicas (nd_primary n)))) < sg_min_replicas (nd_settings n) \<longrightarrow>
       node_execute v c args n = (Inl (Raised (err NotEnoughReplicasError [])), n))"
proof -
  have "py_upper c \<noteq> lit ''PSYNC''" "py_upper c \<noteq> lit ''REPLCONF''" "py_upper c \<noteq> lit ''REPLICAOF''"
    "py_upper c \<noteq> lit ''SLAVEOF''" "py_upper c \<noteq> lit ''ROLE''" "py_upper c \<noteq> lit ''WAIT''" "py_upper c \<noteq> lit ''CLUSTER''"
    using assms(1) not_engine_commands by auto
  then have "node_execute v c args n = (case check_role v (Some spec) n of Inl x \<Rightarrow> (Inl x, n) | Inr _ \<Rightarrow> run_command v c args n)"
    using assms(1) by (simp add: node_execute_def Let_def)
  then show ?thesis using assms(2) by (auto simp: check_role_def check_min_replicas_def Let_def)
qed

section \<open>A concrete node\<close>

definition demo_settings :: repl_settings where
  "demo_settings = \<lparr>sg_backlog_bytes = 100, sg_timeout_s = Fin 5, sg_ping_interval_s = Fin 1, sg_min_replicas = 0, sg_max_lag_s = Fin 10\<rparr>"

definition demo_env :: node_env where
  "demo_env = \<lparr>ev_now = Fin 1, ev_unsent = (\<lambda>_. 0), ev_replid = lit ''b'', ev_seconds = Fin 0, ev_repr = (\<lambda>_. [])\<rparr>"

definition demo_store :: store where
  "demo_store = the (store_init (LRU []) 0 0 (Fin 0) [] [])"

definition demo_node :: node where
  "demo_node = projr (node_init (engine_init demo_store None id demo_facts) 1 True None demo_settings False (lit ''a''))"

definition demoted_node :: node where
  "demoted_node = snd (node_command demo_env (lit ''REPLICAOF'') [SArg (lit ''h''), IArg 1, SArg (lit ''EPOCH''), IArg 5] demo_node)"



lemma demoted_simps: "nd_role demoted_node = ReplicaRole" "nd_epoch demoted_node = 5" "nd_link demoted_node \<noteq> None"
  by (simp_all add: demoted_node_def demo_node_def node_init_def backlog_init_def demo_settings_def node_command_def stats_init_def
      execute_replicaof node_replicaof_def split_epoch_def node_int_def load_epoch_def change_role_def lit_inject
      become_replica_def save_epoch_def)



theorem writes_refused_witness:
  "node_execute demo_env (lit ''SET'') [SArg (lit ''k''), SArg (lit ''v'')] demoted_node
    = (Inl (Raised (err ReadOnlyReplicaError [])), demoted_node)"
  using writes_refused [of "lit ''SET''" set_spec demoted_node demo_env "[SArg (lit ''k''), SArg (lit ''v'')]"] demoted_simps by simp

end
