(* ===== verification/Migration_Props.thy ===== *)
theory Migration_Props
  imports Migration Engine_Props Snapshot_Roundtrip
begin

text \<open>
  What a migration promises: a key on its way is not written, a command runs here only if its keys are
  here or stay here, nothing is deleted before its copy is acknowledged, and the copy is the key.
\<close>

section \<open>Keys on their way\<close>

text \<open>The keys of the transfers under way.\<close>

definition sent_keys :: "key_migration \<Rightarrow> str set" where
  "sent_keys m = {k. \<exists>a items c. (a, items) \<in> set (km_sending m) \<and> (k, c) \<in> set items}"

definition protected :: "key_migration \<Rightarrow> bool" where
  "protected m \<longleftrightarrow> dict_ok (km_sending m) \<and> (km_state m = Running \<longrightarrow> sent_keys m \<subseteq> set (km_in_flight m))"

text \<open>
  A migration with the engine it works on; between its parts the engine does anything.  The next batch
  starts when the transfers of the last one have ended.
\<close>

inductive mig_step :: "key_migration \<times> engine \<Rightarrow> key_migration \<times> engine \<Rightarrow> bool" where
  ms_begin: "km_pending m = [] \<Longrightarrow> mig_step (m, e) (mig_begin m e)"
| ms_next: "km_state m = Running \<Longrightarrow> km_sending m = [] \<Longrightarrow> mig_step (m, e) (mig_next m e)"
| ms_transfer: "mig_step (m, e) (transfer_done a rs m e)"
| ms_engine: "mig_step (m, e) (m, e')"

lemma sent_keys_note:
  assumes "dict_ok (km_sending m)"
  shows "sent_keys (note_item a k c m) = insert k (sent_keys m)" "dict_ok (km_sending (note_item a k c m))"
proof -
  have get: "dict_get (km_sending m) a = Some items \<longleftrightarrow> (a, items) \<in> set (km_sending m)" for a items
    using assms by (auto simp: dict_ok_def)
  show "dict_ok (km_sending (note_item a k c m))" using assms by (simp add: note_item_def)
  then have get': "dict_get (km_sending (note_item a k c m)) b = Some items \<longleftrightarrow> (b, items) \<in> set (km_sending (note_item a k c m))"
    for b items by (auto simp: dict_ok_def)
  show "sent_keys (note_item a k c m) = insert k (sent_keys m)"
    unfolding sent_keys_def get [symmetric] get' [symmetric]
    by (auto simp: note_item_def split: option.splits if_splits) (metis option.inject)+
qed

lemma prepare_protected:
  assumes "prepare_move keys m e = (r, m', e')" "protected m"
  shows "protected m' \<and> km_state m' = km_state m"
  using assms
proof (induction keys m e arbitrary: r m' e' rule: prepare_move.induct)
  case (2 key keys m e)
  have p: "protected (note_item a key c m)" for a c
    using "2.prems"(2) sent_keys_note [of m a key c] by (auto simp: protected_def note_item_def)
  show ?case
    using "2.prems" "2.IH" p by (auto simp: note_item_def split: prod.splits sum.splits option.splits)
qed simp

lemma set_dict_pop: "set (dict_pop k d) \<subseteq> set d"
  by (induction d) auto

lemma sent_keys_pop: "sent_keys (m\<lparr>km_sending := dict_pop a (km_sending m)\<rparr>) \<subseteq> sent_keys m"
  using set_dict_pop [of a "km_sending m"] by (auto simp: sent_keys_def)

lemma protected_move_end: "km_sending m = [] \<Longrightarrow> protected (move_end m)"
  by (simp add: protected_def move_end_def sent_keys_def)

lemma protected_fail: "dict_ok (km_sending m) \<Longrightarrow> protected (mig_fail x m)"
  by (simp add: protected_def mig_fail_def)

lemma send_done_migration:
  assumes "send_done a items rs m e = (r, m', e')"
  shows "km_sending m' = dict_pop a (km_sending m) \<and> km_state m' = km_state m \<and> km_in_flight m' = km_in_flight m"
  using assms by (auto simp: send_done_def Let_def split: option.splits if_splits prod.splits sum.splits)

lemma mig_step_protected: "mig_step c c' \<Longrightarrow> protected (fst c) \<Longrightarrow> protected (fst c')"
proof (induction rule: mig_step.induct)
  case (ms_begin m e)
  then show ?case
    by (auto simp: mig_begin_def protected_def mig_fail_def sent_keys_def split: prod.split sum.split)
next
  case (ms_next m e)
  obtain r m2 e2 where p: "prepare_move (take (km_batch_size m) (km_pending m))
      (m\<lparr>km_pending := drop (km_batch_size m) (km_pending m), km_batch := take (km_batch_size m) (km_pending m), km_sending := []\<rparr>) e
      = (r, m2, e2)" using prod_cases3 by blast
  have "protected m2" using prepare_protected [OF p] by (simp add: protected_def sent_keys_def)
  then show ?case
    using ms_next.hyps protected_fail [of m2] by (auto simp: mig_next_def Let_def p protected_move_end split: sum.split)
      (auto simp: protected_def sent_keys_def)
next
  case (ms_transfer m e a rs)
  show ?case
  proof (cases "dict_get (km_sending m) a")
    case None
    then show ?thesis using ms_transfer by (simp add: transfer_done_def)
  next
    case (Some items)
    obtain r m' e' where s: "send_done a items rs m e = (r, m', e')" using prod_cases3 by blast
    note f = send_done_migration [OF s]
    have "sent_keys m' \<subseteq> sent_keys m" using sent_keys_pop [of a m] f by (simp add: sent_keys_def)
    then have "protected m'" "dict_ok (km_sending (move_end m'))"
      using ms_transfer f by (auto simp: protected_def move_end_def)
    then show ?thesis
      by (auto simp: transfer_done_def Some s protected_move_end protected_fail split: sum.split)
  qed
qed simp

lemma mig_steps_protected: "mig_step\<^sup>*\<^sup>* c c' \<Longrightarrow> protected (fst c) \<Longrightarrow> protected (fst c')"
  by (induction rule: rtranclp_induct) (auto intro: mig_step_protected)

text \<open>
  C8.  While a migration runs, no command reaches a key whose copy is on its way: from the moment its
  \<open>RESTORE\<close> is built until the replies have been handled, every command that names the key is
  answered \<open>TRYAGAIN\<close> before it touches anything, whatever the engine does in between.
\<close>

theorem transfers_protected:
  assumes "migration_init plan = Inr m0" "mig_step\<^sup>*\<^sup>* (m0, e0) (m, e)" "km_state m = Running"
    "dict_get (km_sending m) address = Some items" "(key, restore) \<in> set items"
    "dict_get COMMANDS (py_upper c) = Some spec" "key \<in> set (command_keys spec args)"
  shows "migration_check m c args e = (Inl (Raised (err TryAgainError ''key is being migrated'')), e)"
proof -
  have "protected m0" using assms(1) by (auto simp: migration_init_def protected_def sent_keys_def split: sum.splits)
  from mig_steps_protected [OF assms(2)] this have "sent_keys m \<subseteq> set (km_in_flight m)"
    using assms(3) by (simp add: protected_def)
  moreover have "key \<in> sent_keys m" using map_of_SomeD [OF assms(4)] assms(5) by (auto simp: sent_keys_def)
  ultimately have "\<exists>k \<in> set (command_keys spec args). k \<in> set (km_in_flight m)" using assms(7) by blast
  then show ?thesis using assms(6,7) by (auto simp: migration_check_def Let_def throw_def)
qed

section \<open>Commands during a migration\<close>

lemma visible_expire: "visible (store_expire k s) k' = (if k' = k then None else visible s k')"
  by (simp add: visible_def get_remove store_expire_def Let_def split: option.split)

lemma visible_lookup [simp]: "visible (snd (store_lookup k s)) = visible s"
proof
  fix k'
  show "visible (snd (store_lookup k s)) k' = visible s k'"
    using visible_expire [of k s k']
    by (auto simp: store_lookup_def split: option.split) (auto simp: visible_def)
qed

lemma peek_visible: "peek k e = (Inr eo, e') \<Longrightarrow> eo = visible (en_store e) k \<and> visible (en_store e') = visible (en_store e)"
  unfolding peek_def using on_store_eq [where f = "store_peek k" and e = e and r = "Inr eo" and e' = e'] by (simp add: store_peek_def lookup_visible)

lemma is_gone_iff:
  assumes "is_gone m k e = (Inr b, e')"
  shows "visible (en_store e') = visible (en_store e)"
    "b \<longleftrightarrow> visible (en_store e) k = None \<and> (\<exists>d. destination m k = Inr (Some d))"
    "\<not> b \<longrightarrow> visible (en_store e) k \<noteq> None \<or> destination m k = Inr None"
  using assms peek_visible [of k e]
  by (auto simp: is_gone_def monad_defs split: prod.splits sum.splits if_splits)

lemma filter_gone:
  assumes "filter_cmd (is_gone m) ks e = (Inr gone, e')"
  shows "visible (en_store e') = visible (en_store e)
    \<and> gone = filter (\<lambda>k. visible (en_store e) k = None \<and> (\<exists>d. destination m k = Inr (Some d))) ks
    \<and> (\<forall>k \<in> set ks. k \<notin> set gone \<longrightarrow> visible (en_store e) k \<noteq> None \<or> destination m k = Inr None)"
  using assms
proof (induction ks arbitrary: e gone)
  case (Cons k ks)
  from Cons.prems obtain b e1 rest where 1: "is_gone m k e = (Inr b, e1)" "filter_cmd (is_gone m) ks e1 = (Inr rest, e')"
    "gone = (if b then k # rest else rest)" by (auto simp: monad_defs split: prod.splits sum.splits)
  from Cons.IH [OF 1(2)] is_gone_iff [OF 1(1)] show ?case by (auto simp: 1(3))
qed (simp add: ret_def)

lemma filter_full: "length (filter P xs) = length xs \<Longrightarrow> filter P xs = xs"
  by (induction xs) (auto, metis length_filter_le Suc_n_not_le_n)

lemma get_node_uncaught: "destination m k = Inl x \<Longrightarrow> \<exists>w. x = Uncaught w"
  by (auto simp: destination_def get_node_def Let_def split: sum.splits if_splits option.splits)

text \<open>
  C10.  During a migration a command runs here only if it is safe to: when the check lets it pass, each
  of its keys is not on its way, and is here or stays here.  When it answers \<open>ASK\<close>, none of the keys
  is here, and the address it names is the one the first key belongs to (unless it is the look-up of
  the keys that fails, on an error of the log).
\<close>

theorem migration_check_sound:
  assumes "migration_check m c args e = (r, e')" "dict_get COMMANDS (py_upper c) = Some spec"
  shows "(r = Inr () \<longrightarrow> (\<forall>k \<in> set (command_keys spec args). k \<notin> set (km_in_flight m)
        \<and> (visible (en_store e) k \<noteq> None \<or> destination m k = Inr None)))
    \<and> (\<forall>x gone e1. filter_cmd (is_gone m) (command_keys spec args) e = (Inr gone, e1)
          \<and> r = Inl (Raised x) \<and> err_class x = AskRedirectError \<longrightarrow>
        (\<exists>d. destination m (hd (command_keys spec args)) = Inr (Some d) \<and> Raised x = ask_redirect d)
        \<and> (\<forall>k \<in> set (command_keys spec args). visible (en_store e) k = None))"
proof -
  let ?keys = "command_keys spec args"
  have other [simp]: "err_class (err TryAgainError msg) = TryAgainError" for msg
    by (simp add: mk_error_def Let_def)
  consider (none) "?keys = []" | (flying) "?keys \<noteq> []" "\<exists>k \<in> set ?keys. k \<in> set (km_in_flight m)"
    | (here) "?keys \<noteq> []" "\<forall>k \<in> set ?keys. k \<notin> set (km_in_flight m)" by blast
  then show ?thesis
  proof cases
    case none
    then show ?thesis using assms by (auto simp: migration_check_def ret_def)
  next
    case flying
    then show ?thesis using assms by (auto simp: migration_check_def Let_def throw_def)
  next
    case here
    obtain g e1 where g: "filter_cmd (is_gone m) ?keys e = (g, e1)" by force
    have eq: "migration_check m c args e = bnd (\<lambda>_. (g, e1)) (\<lambda>gone.
        if gone = [] then ret ()
        else if length gone < length ?keys then throw (Raised (err TryAgainError ''multiple keys request during a migration''))
        else bnd (lift (destination m (hd gone))) (\<lambda>d. case d of None \<Rightarrow> throw (Uncaught ''AssertionError'') | Some d \<Rightarrow> throw (ask_redirect d))) e"
      using here assms(2) g by (auto simp: migration_check_def Let_def bnd_def)
    show ?thesis
    proof (cases g)
      case (Inl x)
      then show ?thesis using eq assms(1) g by (auto simp: bnd_def)
    next
      case (Inr gone)
      note f = filter_gone [OF g [unfolded Inr]]
      let ?tail = "\<lambda>gone. if gone = [] then ret ()
        else if length gone < length ?keys then throw (Raised (err TryAgainError ''multiple keys request during a migration''))
        else bnd (lift (destination m (hd gone))) (\<lambda>d. case d of None \<Rightarrow> throw (Uncaught ''AssertionError'') | Some d \<Rightarrow> throw (ask_redirect d))"
      have r: "?tail gone e1 = (r, e')" using eq assms(1) unfolding Inr by (simp add: bnd_def)
      let ?P = "\<lambda>k. visible (en_store e) k = None \<and> (\<exists>d. destination m k = Inr (Some d))"
      have gf: "gone = filter ?P ?keys" using f by blast
      have "length gone \<le> length ?keys" "length gone = length ?keys \<longrightarrow> gone = ?keys"
        using filter_full [of ?P ?keys] length_filter_le [of ?P ?keys] unfolding gf by blast+
      then consider "gone = []" | "gone \<noteq> []" "length gone < length ?keys" | "gone \<noteq> []" "gone = ?keys"
        by linarith
      then show ?thesis
      proof cases
        case 1
        then show ?thesis using r f here by (auto simp: ret_def)
      next
        case 2
        then show ?thesis using r by (auto simp: throw_def)
      next
        case 3
        then have "\<forall>k \<in> set ?keys. visible (en_store e) k = None" using gf filter_id_conv [of ?P ?keys] by auto
        then show ?thesis using r 3 get_node_uncaught [of m "hd ?keys"]
          by (cases "destination m (hd ?keys)") (auto simp: bnd_def lift_def throw_def split: option.splits)
      qed
    qed
  qed
qed

section \<open>The copy of a key\<close>

lemma joined_bytes: "joined ps = Some b \<Longrightarrow> (\<And>x. Some x \<in> set ps \<Longrightarrow> bytes_ok x) \<Longrightarrow> bytes_ok b"
  by (induction ps arbitrary: b) (fastforce simp: joined_Cons bytes_ok_def)+

lemma str_pieces_bytes: "Some x \<in> set (str_pieces t) \<Longrightarrow> bytes_ok x"
  by (auto simp: str_pieces_def dest: to_bytes_ok pack_u_ok [OF sym] split: option.splits)

lemma write_payload_bytes: "Some x \<in> set (write_payload p) \<Longrightarrow> bytes_ok x"
  by (cases p) (auto simp: write_payload_def dest: str_pieces_bytes pack_u_ok [OF sym])

lemma dump_bytes: "dump_value p = Some bs \<Longrightarrow> bytes_ok bs"
proof -
  assume "dump_value p = Some bs"
  then obtain q where q: "joined (write_payload p) = Some q"
    and bs: "bs = (DUMP_VERSION # type_code p # q) @ le_bytes 4 (crc32 (DUMP_VERSION # type_code p # q))"
    by (auto simp: dump_value_eq joined_Cons)
  have "bytes_ok q" by (rule joined_bytes [OF q write_payload_bytes])
  then show ?thesis using type_code_le [of p] le_bytes_ok [of 4 "crc32 (DUMP_VERSION # type_code p # q)"]
    by (auto simp: bs bytes_ok_def DUMP_VERSION_def)
qed

lemma load_record_entry:
  "get_entry (load_record (k, p, x) s) k =
    Some \<lparr>e_value = fst (load_payload p (st_sl_rng s)), e_expires = x,
      e_size = entry_size k (fst (load_payload p (st_sl_rng s))), e_copied = st_epoch s\<rparr>"
proof -
  obtain v r where v: "load_payload p (st_sl_rng s) = (v, r)" by force
  define s1 where "s1 = store_set k v False (s\<lparr>st_sl_rng := r\<rparr>)"
  have d: "st_data s1 = dict_set k \<lparr>e_value = v, e_expires = None, e_size = entry_size k v, e_copied = st_epoch s\<rparr> (st_data s)"
    by (simp add: s1_def store_set_data)
  then have "store_lookup k s1 = (get_entry s1 k, s1)" by (simp add: store_lookup_def is_expired_def)
  then show ?thesis
    using d v by (simp add: load_record_def s1_def [symmetric] Let_def store_set_expiry_def split: option.split)
qed

text \<open>
  C9.  A key arrives as it left.  When the command a migration builds for a key runs at the target and
  succeeds, the target holds the key with exactly the value it had at the source, whatever the target
  held before, and with its deadline rounded to the millisecond.
\<close>

theorem migrated_key_intact:
  assumes "restore_command (key, p, x) = Inr (w # args)" "storable p" "payload_ok p"
    "restore_cmd args e = (Inr r, e')" "\<not> en_replaying e"
    "\<And>t now. x = Some t \<Longrightarrow> now_ms e = (Inr now, e) \<Longrightarrow> now < max 1 (the (millis t))"
  shows "\<exists>en. get_entry (en_store e') key = Some en \<and> value_payload (e_value en) = p
    \<and> e_expires en = map_option (\<lambda>t. int_div (max 1 (the (millis t))) 1000) x \<and> r = OK"
proof -
  define ms where "ms = (case x of None \<Rightarrow> 0 | Some t \<Rightarrow> max 1 (the (millis t)))"
  obtain bs where bs: "dump_value p = Some bs" and args: "args = [SArg key, IArg ms, SArg (to_str bs), SArg (lit ''REPLACE'')]
      @ (if x = None then [] else [SArg (lit ''ABSTTL'')])"
    using assms(1) by (auto simp: restore_command_def ms_def millis_def split: option.splits)
  have pay: "restore_payload (SArg (to_str bs)) = Inr p"
    using to_bytes_to_str [OF dump_bytes [OF bs]] load_dumped [OF bs assms(2)] by (simp add: restore_payload_def)
  have up: "upper_arg (SArg (lit ''REPLACE'')) = lit ''REPLACE''" "upper_arg (SArg (lit ''ABSTTL'')) = lit ''ABSTTL''"
    by (simp_all add: upper_arg_def py_upper_def upper_char_def lit_def)
  have dl: "x = None \<Longrightarrow> deadline_ms ms b now = None" "x = Some t \<Longrightarrow> deadline_ms ms True now = Some ms" for now b t
    by (auto simp: deadline_ms_def ms_def)
  have now_e: "snd (now_ms e) = e" by (simp add: now_ms_def bnd_def asks_def lift_def)
  have arg: "args ! 0 = SArg key" "args ! Suc 0 = IArg ms" "args ! 2 = SArg (to_str bs)"
    "map upper_arg (drop 3 args) = lit ''REPLACE'' # (if x = None then [] else [lit ''ABSTTL''])"
    by (simp_all add: args up numeral_2_eq_2 numeral_3_eq_3)
  obtain now where now: "now_ms e = (Inr now, e)" and ms: "int_arg (IArg ms) = Inr ms"
    and rest: "(if (if x = None then False else ms \<le> now)
      then bnd (on_store (store_delete key)) (\<lambda>_. bnd (propagate ''DEL'' [SArg key]) (\<lambda>_. ret OK))
      else bnd (on_store (store_delete key)) (\<lambda>_.
        bnd (store_do (load_record (key, p, map_option (\<lambda>t. int_div t 1000) (if x = None then None else Some ms)))) (\<lambda>_.
        bnd (propagate ''RESTORE'' [SArg key, IArg (case (if x = None then None else Some ms) of None \<Rightarrow> 0 | Some t \<Rightarrow> t),
          SArg (to_str bs), SArg (lit ''REPLACE''), SArg (lit ''ABSTTL'')]) (\<lambda>_. ret OK)))) e = (Inr r, e')"
    using assms(4,5) now_e unfolding restore_cmd_def
    by (cases x) (auto simp: arg pay key_arg_def int_arg_def lit_inject dl Let_def bnd_def [of "lift _"] bnd_def [of "ret _"] bnd_def [of now_ms]
      bnd_def [of "asks _"] lift_def ret_def asks_def throw_def split: if_splits sum.splits prod.splits)
  have ahead: "\<not> (if x = None then False else ms \<le> now)"
    using assms(6) [OF _ now] by (cases x) (auto simp: ms_def)
  let ?x = "map_option (\<lambda>t. int_div (max 1 (the (millis t))) 1000) x"
  have x: "map_option (\<lambda>t. int_div t 1000) (if x = None then None else Some ms) = ?x" by (cases x) (simp_all add: ms_def)
  obtain b e1 e2 where 1: "on_store (store_delete key) e = (Inr b, e1)"
    and 2: "store_do (load_record (key, p, ?x)) e1 = (Inr (), e2)"
    and 3: "\<exists>ws. en_store e' = (en_store e2)\<lparr>st_out := ws\<rparr>" "r = OK"
    using rest ahead propagate_store unfolding x
    by (auto simp: bnd_def ret_def split: prod.splits sum.splits if_splits) (metis snd_conv)+
  have "en_store e2 = load_record (key, p, ?x) (en_store e1)" using on_store_eq(1) [OF 2 [unfolded store_do_def]] by simp
  then show ?thesis using 3 load_record_entry [of key p ?x "en_store e1"] load_payload_roundtrip [OF assms(3)] by auto
qed

section \<open>A failing transfer\<close>

text \<open>
  The protection ends with the first failure: when one target of a batch answers an error, all keys of
  the batch are released although the transfers to the other targets go on, and each of these still
  deletes its keys here when its replies arrive.
\<close>

lemma failed_transfer_unprotects:
  assumes "transfer_done a rs m e = (m', e')" "dict_get (km_sending m) a = Some items" "km_state m = Running"
    "first_error (take (length items) rs) = Some x" "b \<noteq> a" "dict_get (km_sending m) b = Some others"
  shows "km_state m' = Failed \<and> dict_get (km_sending m') b = Some others \<and> set (km_batch m) \<inter> set (km_in_flight m') = {} \<and> e' = e"
  using assms by (auto simp: transfer_done_def send_done_def Let_def move_end_def mig_fail_def)

lemma late_transfer_deletes:
  assumes "km_state m = Failed" "dict_get (km_sending m) b = Some items" "items \<noteq> []" "length rs = length items"
    "first_error rs = None"
  shows "snd (transfer_done b rs m e) = snd (execute (lit ''DEL'') (map (SArg \<circ> fst) items) e)"
  using assms by (auto simp: transfer_done_def send_done_def Let_def split: prod.split sum.split)

section \<open>A concrete migration\<close>

definition demo_plan :: migration_plan where
  "demo_plan = \<lparr>mp_shard = lit ''s'', mp_virtual_nodes = 1, mp_targets = [(lit ''t'', lit ''h:1'')]\<rparr>"

lemma demo_migration:
  "\<exists>m0. migration_init demo_plan = Inr m0 \<and> destination m0 [107] = Inr (Some (lit ''t'', lit ''h:1''))
    \<and> km_in_flight m0 = [] \<and> km_state m0 = Running \<and> km_batch_size m0 = 100 \<and> km_pending m0 = [] \<and> km_sending m0 = []"
proof -
  have t: "\<exists>h. ring_hash (lit ''t'' @ [35, 48]) = Some h" by (intro ring_hash_ascii) (auto simp: lit_def)
  then obtain r where r: "ring_init [lit ''t''] 1 = Inr r"
    by (auto simp: ring_init_def add_node_def nat_text_0)
  then have ok: "ring_ok r" "rg_nodes r = [lit ''t'']" "rg_points r \<noteq> []"
    using ring_init_placed [OF r] init_has_points [OF r] by (auto simp: placed_def)
  obtain h where h: "ring_hash [107] = Some h" using ring_hash_ascii [of "[107]"] by auto
  have slot: "hash_slot_key [107] = [107]" by (simp add: hash_slot_key_def str_find_def)
  have "get_node [107] r = Inr (lit ''t'')" using get_node_owner [OF ok(1,3) h] ok(2) by auto
  then show ?thesis
    using r slot by (simp add: migration_init_def plan_ring_def demo_plan_def destination_def lit_inject)
qed

lemma demo_engine_data:
  "st_data (en_store (demo_engine (LRU []))) = [([107], \<lparr>e_value = VStr [118], e_expires = None,
     e_size = entry_size [107] (VStr [118]), e_copied = 0\<rparr>)]" "st_job (en_store (demo_engine (LRU []))) = None"
  by (simp_all add: demo_engine_def engine_init_def store_init_def store_set_def store_insert_def Let_def new_entry_def)

lemma demo_lookup:
  "store_lookup [107] (en_store (demo_engine (LRU []))) =
    (Some \<lparr>e_value = VStr [118], e_expires = None, e_size = entry_size [107] (VStr [118]), e_copied = 0\<rparr>, en_store (demo_engine (LRU [])))"
  by (simp add: store_lookup_def demo_engine_data is_expired_def)

lemma demo_command: "\<exists>c. restore_command ([107], PString [118], None) = Inr (SArg (lit ''RESTORE'') # SArg [107] # c)"
proof -
  have "payload_fits (PString [118])"
    by (simp add: payload_fits_def short_bytes_def to_bytes_def enc_char_def)
  from dump_total [OF this] show ?thesis by (auto simp: restore_command_def)
qed

lemma destination_frame: "km_ring m' = km_ring m \<Longrightarrow> km_plan m' = km_plan m \<Longrightarrow> destination m' k = destination m k"
  unfolding destination_def by (simp only:)

lemma demo_flight:
  "\<exists>m0 m e items c. migration_init demo_plan = Inr m0 \<and> mig_step\<^sup>*\<^sup>* (m0, demo_engine (LRU [])) (m, e) \<and> km_state m = Running
    \<and> dict_get (km_sending m) (lit ''h:1'') = Some items \<and> ([107], c) \<in> set items"
proof -
  let ?e = "demo_engine (LRU [])"
  obtain m0 where m0: "migration_init demo_plan = Inr m0" "destination m0 [107] = Inr (Some (lit ''t'', lit ''h:1''))"
    "km_in_flight m0 = []" "km_state m0 = Running" "km_batch_size m0 = 100" "km_pending m0 = []" "km_sending m0 = []"
    using demo_migration by blast
  let ?n = "length (st_out (en_store ?e))"
  have it: "iter_keys (en_store ?e) = ([[107]], en_store ?e)" by (simp add: iter_keys_def demo_engine_data demo_lookup)
  then have "on_store iter_keys ?e = (Inr [[107]], ?e\<lparr>en_sent := ?n\<rparr>)" by (subst on_store_memory) (simp_all add: demo_memory)
  then have b: "mig_begin m0 ?e = (m0\<lparr>km_pending := [[107]]\<rparr>, ?e\<lparr>en_sent := ?n\<rparr>)"
    by (simp add: mig_begin_def monad_defs m0(2))
  obtain c where c: "restore_command ([107], PString [118], None) = Inr c" using demo_command by blast
  let ?m = "m0\<lparr>km_pending := [], km_batch := [[107]], km_sending := []\<rparr>"
  have dest: "destination ?m [107] = Inr (Some (lit ''t'', lit ''h:1''))" using m0(2) destination_frame [of ?m m0] by simp
  have mem: "in_memory (?e\<lparr>en_sent := ?n\<rparr>)" using demo_memory by simp
  have "store_record [107] (en_store ?e) = (Some ([107], PString [118], None), en_store ?e)"
    by (simp add: store_record_def demo_lookup entry_record_def)
  then have "on_store (store_record [107]) (?e\<lparr>en_sent := ?n\<rparr>) = (Inr (Some ([107], PString [118], None)), ?e\<lparr>en_sent := ?n\<rparr>)"
    by (subst on_store_memory [OF mem]) simp_all
  then have "mig_next (m0\<lparr>km_pending := [[107]]\<rparr>) (?e\<lparr>en_sent := ?n\<rparr>) = (note_item (lit ''h:1'') [107] c ?m, ?e\<lparr>en_sent := ?n\<rparr>)"
    by (simp add: mig_next_def Let_def m0 dest c) (simp add: note_item_def)
  then have "mig_step (m0\<lparr>km_pending := [[107]]\<rparr>, ?e\<lparr>en_sent := ?n\<rparr>) (note_item (lit ''h:1'') [107] c ?m, ?e\<lparr>en_sent := ?n\<rparr>)"
    using ms_next [of "m0\<lparr>km_pending := [[107]]\<rparr>" "?e\<lparr>en_sent := ?n\<rparr>"] m0 by simp
  then have "mig_step\<^sup>*\<^sup>* (m0, ?e) (note_item (lit ''h:1'') [107] c ?m, ?e\<lparr>en_sent := ?n\<rparr>)"
    using ms_begin [of m0 ?e] m0 b by (simp add: converse_rtranclp_into_rtranclp)
  then show ?thesis using m0 by (intro exI [of _ m0] exI [of _ "note_item (lit ''h:1'') [107] c ?m"] exI [of _ "?e\<lparr>en_sent := ?n\<rparr>"] exI [of _ "[([107], c)]"] exI [of _ c])
      (auto simp: note_item_def)
qed

theorem transfers_protected_witness:
  "\<exists>m e. km_state m = Running \<and> [107] \<in> set (km_in_flight m)
    \<and> migration_check m (lit ''SET'') [SArg [107], SArg [120]] e = (Inl (Raised (err TryAgainError ''key is being migrated'')), e)"
proof -
  obtain m0 m e items c where f: "migration_init demo_plan = Inr m0" "mig_step\<^sup>*\<^sup>* (m0, demo_engine (LRU [])) (m, e)"
    "km_state m = Running" "dict_get (km_sending m) (lit ''h:1'') = Some items" "([107], c) \<in> set items"
    using demo_flight by blast
  from transfers_protected [OF f, of "lit ''SET''" set_spec "[SArg [107], SArg [120]]"]
  have "migration_check m (lit ''SET'') [SArg [107], SArg [120]] e = (Inl (Raised (err TryAgainError ''key is being migrated'')), e)"
    by simp
  moreover have "protected m0" using f(1) by (auto simp: migration_init_def protected_def sent_keys_def split: sum.splits)
  then have "[107] \<in> set (km_in_flight m)"
    using mig_steps_protected [OF f(2)] f(3-5) map_of_SomeD [OF f(4)] by (auto simp: protected_def sent_keys_def)
  ultimately show ?thesis using f(3) by blast
qed

theorem migration_check_sound_witness:
  "\<exists>m. migration_init demo_plan = Inr m
    \<and> fst (migration_check m (lit ''SET'') [SArg [107], SArg [120]] (demo_engine (LRU []))) = Inr ()
    \<and> [107] \<notin> set (km_in_flight m) \<and> visible (en_store (demo_engine (LRU []))) [107] \<noteq> None"
proof -
  let ?e = "demo_engine (LRU [])"
  obtain m where m: "migration_init demo_plan = Inr m" "destination m [107] = Inr (Some (lit ''t'', lit ''h:1''))" "km_in_flight m = []"
    using demo_migration by blast
  have "on_store (store_peek [107]) ?e = (Inr (Some \<lparr>e_value = VStr [118], e_expires = None,
      e_size = entry_size [107] (VStr [118]), e_copied = 0\<rparr>), ?e\<lparr>en_sent := length (st_out (en_store ?e))\<rparr>)"
    by (subst on_store_memory) (simp_all add: demo_memory store_peek_def demo_lookup)
  then obtain e' where c: "migration_check m (lit ''SET'') [SArg [107], SArg [120]] ?e = (Inr (), e')"
    by (simp add: migration_check_def Let_def m(3) is_gone_def peek_def monad_defs)
  from migration_check_sound [OF c, of set_spec] m c show ?thesis by simp
qed

theorem migrated_key_intact_witness:
  "\<exists>w args e' en. restore_command ([107], PString [118], None) = Inr (w # args)
    \<and> restore_cmd args (demo_engine (LRU [])) = (Inr OK, e')
    \<and> get_entry (en_store e') [107] = Some en \<and> value_payload (e_value en) = PString [118] \<and> e_expires en = None"
proof -
  let ?e = "demo_engine (LRU [])"
  have fits: "payload_fits (PString [118])" and st: "storable (PString [118])" "payload_ok (PString [118])"
    using wire_ascii [of "[118]"] by (simp_all add: payload_fits_def short_bytes_def to_bytes_def enc_char_def storable_def)
  from dump_total [OF fits] obtain bs where bs: "dump_value (PString [118]) = Some bs" by blast
  then obtain args where a: "restore_command ([107], PString [118], None) = Inr (SArg (lit ''RESTORE'') # args)"
    "args = [SArg [107], IArg 0, SArg (to_str bs), SArg (lit ''REPLACE'')]" by (simp add: restore_command_def)
  have pay: "restore_payload (SArg (to_str bs)) = Inr (PString [118])"
    using to_bytes_to_str [OF dump_bytes [OF bs]] load_dumped [OF bs st(1)] by (simp add: restore_payload_def)
  have up: "upper_arg (SArg (lit ''REPLACE'')) = lit ''REPLACE''"
    by (simp add: upper_arg_def py_upper_def upper_char_def lit_def)
  have now: "now_ms ?e = (Inr 0, ?e)"
    by (simp add: now_ms_def monad_defs demo_engine_def engine_init_def store_init_def store_set_def store_insert_def Let_def round64_def)
  have fin: "st_finished (snd (store_delete [107] s)) = st_finished s" "st_finished (load_record ([107], PString [118], None) s) = st_finished s" for s
    by (auto simp: store_delete_def store_lookup_def store_expire_def load_record_def store_set_def store_insert_def Let_def split: option.split)
  obtain e' where r: "restore_cmd args ?e = (Inr OK, e')"
    by (simp add: restore_cmd_def a(2) key_arg_def int_arg_def in_range64_def INT64_MIN_def INT64_MAX_def up pay now deadline_ms_def
        bnd_def lift_def ret_def asks_def Let_def store_do_def on_store_memory propagate_memory demo_memory fin)
  from migrated_key_intact [OF a(1) st r] a r show ?thesis by (auto simp: demo_memory)
qed

end
