(* ===== verification/Failover.thy ===== *)
theory Failover
  imports Node
begin

text \<open>
  \<open>cluster/manager.py\<close>: the cluster manager.  The nodes are on the other side of its calls: what a
  call returns is a function of all calls made so far, and so is the reading of the clock.  The
  probes of one round touch only the entry of their own node; they are run one after the other.
\<close>

section \<open>State\<close>

datatype health = Healthy | Suspect | Dead

record node_health =
  nh_address :: str
  nh_state :: health
  nh_last_ok :: pyfloat
  nh_role :: "str option"
  nh_offset :: int
  nh_epoch :: int
  nh_replicating :: "str option"
  nh_link_up :: bool
  nh_error :: "str option"

record failover_event =
  fe_shard :: str
  fe_old_primary :: str
  fe_new_primary :: str
  fe_epoch :: int
  fe_reason :: str
  fe_detected_after_s :: pyfloat
  fe_promoted_at :: pyfloat
  fe_candidate_offsets :: "(str \<times> int) list"

type_synonym calls = "(str \<times> arg list) list"

text \<open>\<open>wd_wall\<close> is \<open>time.time()\<close>.\<close>

record world =
  wd_answer :: "calls \<Rightarrow> kverror + reply"
  wd_time :: "calls \<Rightarrow> pyfloat"
  wd_wall :: "calls \<Rightarrow> pyfloat"

text \<open>
  \<open>mg_published\<close> are the configurations handed to \<open>on_change\<close>, in order; \<open>mg_saving\<close> whether the task
  that saves the configuration runs.
\<close>

record manager =
  mg_config :: config
  mg_path :: bool
  mg_suspect_after_s :: pyfloat
  mg_dead_after_s :: pyfloat
  mg_failover_enabled :: bool
  mg_health :: "(str, node_health) dict"
  mg_events :: "failover_event list"
  mg_saved :: "config option"
  mg_saving :: bool
  mg_file :: "config option"
  mg_published :: "config list"
  mg_calls :: calls

definition manager_init :: "config \<Rightarrow> bool \<Rightarrow> pyfloat \<Rightarrow> pyfloat \<Rightarrow> bool \<Rightarrow> manager" where
  "manager_init c path suspect dead enabled =
     \<lparr>mg_config = c, mg_path = path, mg_suspect_after_s = suspect, mg_dead_after_s = dead, mg_failover_enabled = enabled,
      mg_health = [], mg_events = [], mg_saved = None, mg_saving = False, mg_file = None, mg_published = [], mg_calls = []\<rparr>"

definition set_config :: "config \<Rightarrow> manager \<Rightarrow> manager" where
  "set_config c m =
     m\<lparr>mg_config := c, mg_published := mg_published m @ [c], mg_saving := mg_saving m \<or> mg_path m\<rparr>"

text \<open>
  One turn of \<open>_save_latest\<close>: the newest configuration is written, or the error ends the task.  The
  configuration may have changed again while it was written.
\<close>

definition save_turn :: "config \<Rightarrow> bool \<Rightarrow> manager \<Rightarrow> manager" where
  "save_turn written ok m =
     (if \<not> mg_saving m then m
      else if \<not> ok then m\<lparr>mg_saving := False\<rparr>
      else m\<lparr>mg_file := Some written, mg_saved := Some written, mg_saving := written \<noteq> mg_config m\<rparr>)"

section \<open>Calls\<close>

text \<open>\<open>client.execute\<close>: an error reply is raised.\<close>

definition call_node :: "world \<Rightarrow> str \<Rightarrow> arg list \<Rightarrow> manager \<Rightarrow> (kverror + reply) \<times> manager" where
  "call_node w address args m =
     (let calls = mg_calls m @ [(address, args)]
      in ((case wd_answer w calls of Inr (RError x) \<Rightarrow> Inl x | r \<Rightarrow> r), m\<lparr>mg_calls := calls\<rparr>))"

definition time_now :: "world \<Rightarrow> manager \<Rightarrow> pyfloat" where
  "time_now w m = wd_time w (mg_calls m)"

section \<open>Heartbeats\<close>

text \<open>\<open>str.splitlines\<close>.\<close>

fun split_lines :: "str \<Rightarrow> str \<Rightarrow> str list" where
  "split_lines line [] = (if line = [] then [] else [line])"
| "split_lines line (c # cs) =
     (if c = 13 \<and> take 1 cs = [10] then line # split_lines [] (drop 1 cs)
      else if c \<in> {10, 11, 12, 13, 28, 29, 30, 133, 8232, 8233} then line # split_lines [] cs
      else split_lines (line @ [c]) cs)"

definition parse_info :: "str \<Rightarrow> (str, str) dict" where
  "parse_info text =
     fold (\<lambda>line d. case partition_at 58 line of (key, sep, v) \<Rightarrow>
       if sep \<and> take 1 line \<noteq> [35] then dict_set (py_strip key) (py_strip v) d else d) (split_lines [] text) []"

definition fresh_health :: "str \<Rightarrow> pyfloat \<Rightarrow> node_health" where
  "fresh_health address now =
     \<lparr>nh_address = address, nh_state = Healthy, nh_last_ok = now, nh_role = None, nh_offset = 0, nh_epoch = 0,
      nh_replicating = None, nh_link_up = False, nh_error = None\<rparr>"

definition health_of :: "pyfloat \<Rightarrow> str \<Rightarrow> manager \<Rightarrow> node_health" where
  "health_of now address m =
     (case dict_get (mg_health m) address of None \<Rightarrow> fresh_health address now | Some h \<Rightarrow> h)"

definition put_health :: "node_health \<Rightarrow> manager \<Rightarrow> manager" where
  "put_health h m = m\<lparr>mg_health := dict_set (nh_address h) h (mg_health m)\<rparr>"

definition probe_failed :: "world \<Rightarrow> kverror \<Rightarrow> node_health \<Rightarrow> manager \<Rightarrow> manager" where
  "probe_failed w x h m =
     (let silent = fadd (time_now w m) (fneg (nh_last_ok h));
          state = (if fle (mg_dead_after_s m) silent then Dead
                   else if fle (mg_suspect_after_s m) silent then Suspect else nh_state h)
      in put_health (h\<lparr>nh_error := Some (err_message x), nh_state := state\<rparr>) m)"

definition text_or :: "string \<Rightarrow> string \<Rightarrow> (str, str) dict \<Rightarrow> str" where
  "text_or key dflt info = (case dict_get info (lit key) of None \<Rightarrow> lit dflt | Some v \<Rightarrow> v)"

text \<open>
  The answer of a node.  A number that is none is a \<open>ValueError\<close>, raised after the node has been
  noted as healthy.
\<close>

definition probe_answered :: "world \<Rightarrow> (str, str) dict \<Rightarrow> node_health \<Rightarrow> manager \<Rightarrow> (exn + bool) \<times> manager" where
  "probe_answered w info h0 m =
     (let role = dict_get info (lit ''role'');
          h1 = h0\<lparr>nh_state := Healthy, nh_last_ok := time_now w m, nh_error := None, nh_role := role\<rparr>
      in case py_int (text_or ''epoch'' ''0'' info) of
           None \<Rightarrow> (Inl value_error, put_health h1 m)
         | Some epoch \<Rightarrow>
             let h = h1\<lparr>nh_epoch := epoch\<rparr> in
             if role = Some (lit ''slave'') then
               (case py_int (text_or ''slave_repl_offset'' ''0'' info) of
                  None \<Rightarrow> (Inl value_error, put_health h m)
                | Some off \<Rightarrow>
                    (Inr True, put_health (h\<lparr>nh_offset := off,
                       nh_replicating := Some (text_or ''master_host'' ''None'' info @ [58] @ text_or ''master_port'' ''None'' info),
                       nh_link_up := (dict_get info (lit ''master_link_status'') = Some (lit ''up''))\<rparr>) m))
             else
               (case py_int (text_or ''master_repl_offset'' ''0'' info) of
                  None \<Rightarrow> (Inl value_error, put_health h m)
                | Some off \<Rightarrow> (Inr True, put_health (h\<lparr>nh_offset := off, nh_replicating := None, nh_link_up := False\<rparr>) m)))"

definition probe :: "world \<Rightarrow> str \<Rightarrow> manager \<Rightarrow> (exn + bool) \<times> manager" where
  "probe w address m0 =
     (let h = health_of (time_now w m0) address m0; m1 = put_health h m0
      in case call_node w address [SArg (lit ''INFO''), SArg (lit ''replication'')] m1 of
           (Inl x, m) \<Rightarrow> (Inr False, probe_failed w x h m)
         | (Inr (RBulk text), m) \<Rightarrow> probe_answered w (parse_info text) h m
         | (Inr _, m) \<Rightarrow> (Inl (Uncaught ''AttributeError''), m))"

text \<open>\<open>gather\<close> over the nodes: all of them run, then the first exception is raised.\<close>

fun probe_all :: "world \<Rightarrow> str list \<Rightarrow> manager \<Rightarrow> (exn + unit) \<times> manager" where
  "probe_all w [] m = (Inr (), m)"
| "probe_all w (a # as) m =
     (case probe w a m of (r, m1) \<Rightarrow>
        (case probe_all w as m1 of (r', m2) \<Rightarrow> (case r of Inl x \<Rightarrow> (Inl x, m2) | Inr _ \<Rightarrow> (r', m2))))"

definition is_healthy :: "str \<Rightarrow> manager \<Rightarrow> bool" where
  "is_healthy address m =
     (case dict_get (mg_health m) address of
        None \<Rightarrow> False
      | Some h \<Rightarrow> nh_state h = Healthy \<and> (nh_role h \<noteq> Some (lit ''slave'') \<or> nh_link_up h))"

section \<open>Reconciliation\<close>

definition send_command :: "world \<Rightarrow> str \<Rightarrow> arg list \<Rightarrow> manager \<Rightarrow> manager" where
  "send_command w address args m = snd (call_node w address args m)"

definition reconcile_replica :: "world \<Rightarrow> int \<Rightarrow> str \<Rightarrow> str \<Rightarrow> manager \<Rightarrow> manager" where
  "reconcile_replica w epoch primary address m =
     (case dict_get (mg_health m) address of
        None \<Rightarrow> m
      | Some h \<Rightarrow>
          if nh_state h \<noteq> Healthy then m
          else if nh_role h \<noteq> Some (lit ''slave'') \<or> nh_replicating h \<noteq> Some primary then
            (case rpartition_at 58 primary of (host, _, port) \<Rightarrow>
               send_command w address [SArg (lit ''REPLICAOF''), SArg host, SArg port, SArg (lit ''EPOCH''), IArg epoch] m)
          else m)"

definition reconcile :: "world \<Rightarrow> shard_group \<Rightarrow> manager \<Rightarrow> manager" where
  "reconcile w g m =
     (let epoch = cf_epoch (mg_config m);
          m1 = (case dict_get (mg_health m) (sg_primary g) of
                  None \<Rightarrow> m
                | Some h \<Rightarrow>
                    if nh_state h = Healthy \<and> nh_role h = Some (lit ''slave'')
                    then send_command w (sg_primary g)
                           [SArg (lit ''REPLICAOF''), SArg (lit ''NO''), SArg (lit ''ONE''), SArg (lit ''EPOCH''), IArg epoch] m
                    else m)
      in fold (reconcile_replica w epoch (sg_primary g)) (sg_replicas g) m1)"

section \<open>Failover\<close>

definition candidates :: "shard_group \<Rightarrow> manager \<Rightarrow> str list" where
  "candidates g m =
     filter (\<lambda>r. case dict_get (mg_health m) r of
         None \<Rightarrow> False
       | Some h \<Rightarrow> nh_state h = Healthy \<and> nh_role h = Some (lit ''slave'')) (sg_replicas g)"

definition offset_of :: "manager \<Rightarrow> str \<Rightarrow> int" where
  "offset_of m a = (case dict_get (mg_health m) a of None \<Rightarrow> 0 | Some h \<Rightarrow> nh_offset h)"

text \<open>\<open>max\<close> with a key: the first of the largest.\<close>

fun best_of :: "('a \<Rightarrow> int) \<Rightarrow> 'a \<Rightarrow> 'a list \<Rightarrow> 'a" where
  "best_of f best [] = best"
| "best_of f best (x # xs) = best_of f (if f best < f x then x else best) xs"

definition after_promotion ::
  "world \<Rightarrow> shard_group \<Rightarrow> str \<Rightarrow> str list \<Rightarrow> str \<Rightarrow> int \<Rightarrow> manager \<Rightarrow> (exn + failover_event option) \<times> manager" where
  "after_promotion w g reason cands winner epoch m =
     (case with_group \<lparr>sg_id = sg_id g, sg_primary = winner, sg_replicas = filter (\<lambda>a. a \<noteq> winner) (members g)\<rparr> (mg_config m) of
        Inl x \<Rightarrow> (Inl x, m)
      | Inr c \<Rightarrow>
          let m1 = set_config c m;
              event = \<lparr>fe_shard = sg_id g, fe_old_primary = sg_primary g, fe_new_primary = winner, fe_epoch = epoch,
                fe_reason = reason,
                fe_detected_after_s = (case dict_get (mg_health m) (sg_primary g) of
                    None \<Rightarrow> Fin 0 | Some h \<Rightarrow> fadd (time_now w m) (fneg (nh_last_ok h))),
                fe_promoted_at = wd_wall w (mg_calls m),
                fe_candidate_offsets = map (\<lambda>a. (a, offset_of m a)) cands\<rparr>;
              m2 = m1\<lparr>mg_events := mg_events m1 @ [event],
                      mg_health := (case dict_get (mg_health m1) winner of
                          None \<Rightarrow> mg_health m1
                        | Some h \<Rightarrow> dict_set winner (h\<lparr>nh_role := Some (lit ''master'')\<rparr>) (mg_health m1))\<rparr>
          in case cf_group (sg_id g) (mg_config m2) of
               Inl x \<Rightarrow> (Inl x, m2)
             | Inr g' \<Rightarrow> (Inr (Some event), reconcile w g' m2))"

definition promote :: "world \<Rightarrow> shard_group \<Rightarrow> str \<Rightarrow> str list \<Rightarrow> manager \<Rightarrow> (exn + failover_event option) \<times> manager" where
  "promote w g reason cands m =
     (let winner = best_of (offset_of m) (hd cands) (tl cands);
          epoch = cf_epoch (mg_config m) + 1
      in case call_node w winner [SArg (lit ''REPLICAOF''), SArg (lit ''NO''), SArg (lit ''ONE''), SArg (lit ''EPOCH''), IArg epoch] m of
           (Inl x, m1) \<Rightarrow> (Inr None, m1)
         | (Inr _, m1) \<Rightarrow> after_promotion w g reason cands winner epoch m1)"

definition auto_failover :: "world \<Rightarrow> shard_group \<Rightarrow> manager \<Rightarrow> (exn + failover_event option) \<times> manager" where
  "auto_failover w g m =
     (let cands = candidates g m
      in if cands = [] then (Inr None, m) else promote w g (lit ''primary unreachable'') cands m)"

text \<open>
  A requested failover first waits, for a second at most, until a candidate has every write.  The
  loop ends when the clock reaches the deadline; \<open>None\<close> if it never does.
\<close>

partial_function (option) catch_up ::
  "world \<Rightarrow> shard_group \<Rightarrow> str list \<Rightarrow> pyfloat \<Rightarrow> manager \<Rightarrow> ((exn + unit) \<times> manager) option" where
  "catch_up w g cands deadline m =
     (if \<not> flt (time_now w m) deadline then Some (Inr (), m)
      else case probe_all w (members g) m of
        (Inl x, m1) \<Rightarrow> Some (Inl x, m1)
      | (Inr _, m1) \<Rightarrow>
          if \<exists>c \<in> set cands. offset_of m1 (sg_primary g) \<le> offset_of m1 c then Some (Inr (), m1)
          else catch_up w g cands deadline m1)"

definition requested_failover :: "world \<Rightarrow> str \<Rightarrow> manager \<Rightarrow> ((exn + failover_event) \<times> manager) option" where
  "requested_failover w shard m =
     (case cf_group shard (mg_config m) of
        Inl x \<Rightarrow> Some (Inl x, m)
      | Inr g \<Rightarrow>
          let cands = candidates g m;
              refused = Raised (mk_error ClusterError (lit ''no healthy replica to promote in '' @ [39] @ shard @ [39]) None)
          in if cands = [] then Some (Inl refused, m)
             else case catch_up w g cands (fadd (time_now w m) (Fin 1)) m of
               None \<Rightarrow> None
             | Some (Inl x, m1) \<Rightarrow> Some (Inl x, m1)
             | Some (Inr _, m1) \<Rightarrow>
                 Some (case promote w g (lit ''requested'') cands m1 of
                     (Inl x, m2) \<Rightarrow> (Inl x, m2)
                   | (Inr None, m2) \<Rightarrow> (Inl refused, m2)
                   | (Inr (Some event), m2) \<Rightarrow> (Inr event, m2)))"

section \<open>Rounds\<close>

fun tick_groups :: "world \<Rightarrow> shard_group list \<Rightarrow> manager \<Rightarrow> (exn + unit) \<times> manager" where
  "tick_groups w [] m = (Inr (), m)"
| "tick_groups w (g # gs) m =
     (case dict_get (mg_health m) (sg_primary g) of
        None \<Rightarrow> (Inl (Uncaught ''KeyError''), m)
      | Some h \<Rightarrow>
          if nh_state h = Dead \<and> mg_failover_enabled m then
            (case auto_failover w g m of (Inl x, m1) \<Rightarrow> (Inl x, m1) | (Inr _, m1) \<Rightarrow> tick_groups w gs m1)
          else
            (case cf_group (sg_id g) (mg_config m) of
               Inl x \<Rightarrow> (Inl x, m)
             | Inr g' \<Rightarrow> tick_groups w gs (reconcile w g' m)))"

definition tick :: "world \<Rightarrow> manager \<Rightarrow> (exn + unit) \<times> manager" where
  "tick w m =
     (case probe_all w (all_members (mg_config m)) m of
        (Inl x, m1) \<Rightarrow> (Inl x, m1)
      | (Inr _, m1) \<Rightarrow> tick_groups w (cf_shards (mg_config m1)) m1)"

section \<open>Rebalancing\<close>

record rebalance_run =
  rb_target :: "str list"
  rb_sources :: "str list"
  rb_sent :: "(str, str \<times> migration_plan) dict"
  rb_base :: "(str, int) dict"
  rb_moved :: "(str, int) dict"

definition cluster_error :: "str \<Rightarrow> exn" where
  "cluster_error text = Raised (mk_error ClusterError text None)"

text \<open>The plan for one source: the addresses of the targets as they are now.\<close>

fun target_addresses :: "str list \<Rightarrow> config \<Rightarrow> exn + (str, str) dict" where
  "target_addresses [] c = Inr []"
| "target_addresses (t # ts) c =
     (case cf_group t c of
        Inl x \<Rightarrow> Inl x
      | Inr g \<Rightarrow> (case target_addresses ts c of Inl x \<Rightarrow> Inl x | Inr d \<Rightarrow> Inr ((t, sg_primary g) # d)))"

definition source_plan :: "str \<Rightarrow> str list \<Rightarrow> config \<Rightarrow> exn + str \<times> migration_plan" where
  "source_plan shard target c =
     (case cf_group shard c of
        Inl x \<Rightarrow> Inl x
      | Inr g \<Rightarrow>
          (case target_addresses target c of
             Inl x \<Rightarrow> Inl x
           | Inr d \<Rightarrow> Inr (sg_primary g, \<lparr>mp_shard = shard, mp_virtual_nodes = cf_virtual_nodes c, mp_targets = d\<rparr>)))"

definition cluster_command :: "string \<Rightarrow> arg list \<Rightarrow> arg list" where
  "cluster_command sub args = [SArg (lit ''CLUSTER''), SArg (lit ''REBALANCE'')] @ (if sub = [] then [] else [SArg (lit sub)]) @ args"

text \<open>
  (Re)starting the moving of one source; \<open>None\<close> is an error of a call, which is tried again in the
  next round.
\<close>

definition restart_source ::
  "world \<Rightarrow> str \<Rightarrow> str \<Rightarrow> migration_plan \<Rightarrow> str \<Rightarrow> int \<Rightarrow> rebalance_run \<Rightarrow> manager \<Rightarrow> rebalance_run \<times> manager" where
  "restart_source w shard primary plan state moved b m =
     (case (if state = lit ''idle'' then (Inr OK, m) else call_node w primary (cluster_command ''STOP'' []) m) of
        (Inl x, m1) \<Rightarrow> (b, m1)
      | (Inr _, m1) \<Rightarrow>
          let b1 = (if state = lit ''idle'' then b
                    else b\<lparr>rb_base := dict_set shard (the (dict_get (rb_base b) shard) + moved) (rb_base b)\<rparr>)
          in case call_node w primary (cluster_command [] (plan_to_args plan)) m1 of
               (Inl x, m2) \<Rightarrow> (b1, m2)
             | (Inr _, m2) \<Rightarrow> (b1\<lparr>rb_sent := dict_set shard (primary, plan) (rb_sent b1)\<rparr>, m2))"

text \<open>One source polled; the result says whether it has finished.\<close>

definition poll_source ::
  "world \<Rightarrow> str \<Rightarrow> rebalance_run \<Rightarrow> manager \<Rightarrow> (exn + bool) \<times> rebalance_run \<times> manager" where
  "poll_source w shard b m =
     (case source_plan shard (rb_target b) (mg_config m) of
        Inl x \<Rightarrow> (Inl x, b, m)
      | Inr (primary, plan) \<Rightarrow>
          (case call_node w primary (cluster_command ''STATUS'' []) m of
             (Inl x, m1) \<Rightarrow> (Inr False, b, m1)
           | (Inr (RArray [RBulk state, RInt moved, RBulk error]), m1) \<Rightarrow>
               if \<not> (case dict_get (rb_sent b) shard of None \<Rightarrow> False | Some (a, p) \<Rightarrow> a = primary \<and> same_plan p plan)
               then (case restart_source w shard primary plan state moved b m1 of (b1, m2) \<Rightarrow> (Inr False, b1, m2))
               else if state = lit ''failed''
               then (Inl (cluster_error (lit ''moving keys off '' @ [39] @ shard @ [39] @ lit '' failed: '' @ error)), b, m1)
               else (Inr (state = lit ''done''),
                     b\<lparr>rb_moved := dict_set shard (the (dict_get (rb_base b) shard) + moved) (rb_moved b)\<rparr>, m1)
           | (Inr _, m1) \<Rightarrow> (Inl value_error, b, m1)))"

fun poll_sources ::
  "world \<Rightarrow> str list \<Rightarrow> rebalance_run \<Rightarrow> manager \<Rightarrow> (exn + nat) \<times> rebalance_run \<times> manager" where
  "poll_sources w [] b m = (Inr 0, b, m)"
| "poll_sources w (s # ss) b m =
     (case poll_source w s b m of
        (Inl x, b1, m1) \<Rightarrow> (Inl x, b1, m1)
      | (Inr f, b1, m1) \<Rightarrow>
          (case poll_sources w ss b1 m1 of
             (Inl x, b2, m2) \<Rightarrow> (Inl x, b2, m2)
           | (Inr n, b2, m2) \<Rightarrow> (Inr (n + (if f then 1 else 0)), b2, m2)))"

partial_function (option) poll_until_done ::
  "world \<Rightarrow> rebalance_run \<Rightarrow> manager \<Rightarrow> ((exn + unit) \<times> rebalance_run \<times> manager) option" where
  "poll_until_done w b m =
     (case poll_sources w (rb_sources b) b m of
        (Inl x, b1, m1) \<Rightarrow> Some (Inl x, b1, m1)
      | (Inr n, b1, m1) \<Rightarrow> if n = length (rb_sources b) then Some (Inr (), b1, m1) else poll_until_done w b1 m1)"

text \<open>
  \<open>_rebalance\<close>: its beginning, and its end, which switches the ring before it stops the redirects.  The
  result is the epoch, the ring and the number of keys moved.
\<close>

definition rebalance_begin :: "str list \<Rightarrow> manager \<Rightarrow> (exn + rebalance_run) \<times> manager" where
  "rebalance_begin target m =
     (if cf_rebalance (mg_config m) \<noteq> None then (Inl (cluster_error (lit ''a rebalance is already in progress'')), m)
      else case next_epoch (\<lambda>c. c\<lparr>cf_rebalance := Some target\<rparr>) (mg_config m) of
        Inl x \<Rightarrow> (Inl x, m)
      | Inr c \<Rightarrow>
          let zeros = map (\<lambda>s. (s, 0)) (remdups (cf_ring_ids c))
          in (Inr \<lparr>rb_target = target, rb_sources = cf_ring_ids c, rb_sent = [], rb_base = zeros, rb_moved = zeros\<rparr>,
              set_config c m))"

definition stop_source :: "world \<Rightarrow> shard_group list \<Rightarrow> rebalance_run \<Rightarrow> str \<Rightarrow> manager \<Rightarrow> manager" where
  "stop_source w kept b shard m =
     (let address = (case find (\<lambda>g. sg_id g = shard) kept of
          Some g \<Rightarrow> sg_primary g
        | None \<Rightarrow> (case dict_get (rb_sent b) shard of None \<Rightarrow> [] | Some (a, _) \<Rightarrow> a))
      in send_command w address (cluster_command ''STOP'' []) m)"

definition rebalance_end ::
  "world \<Rightarrow> rebalance_run \<Rightarrow> manager \<Rightarrow> (exn + int \<times> str list \<times> int) \<times> manager" where
  "rebalance_end w b m =
     (let kept = filter (\<lambda>g. sg_id g \<in> set (rb_target b)) (cf_shards (mg_config m))
      in case next_epoch (\<lambda>c. c\<lparr>cf_shards := kept, cf_ring_ids := rb_target b, cf_rebalance := None\<rparr>) (mg_config m) of
           Inl x \<Rightarrow> (Inl x, m)
         | Inr c \<Rightarrow>
             let m2 = fold (stop_source w kept b) (rb_sources b) (set_config c m)
             in (Inr (cf_epoch (mg_config m2), rb_target b, sum_list (map snd (rb_moved b))), m2))"

definition rebalance :: "world \<Rightarrow> str list \<Rightarrow> manager \<Rightarrow> ((exn + int \<times> str list \<times> int) \<times> manager) option" where
  "rebalance w target m =
     (case rebalance_begin target m of
        (Inl x, m1) \<Rightarrow> Some (Inl x, m1)
      | (Inr b, m1) \<Rightarrow>
          (case poll_until_done w b m1 of
             None \<Rightarrow> None
           | Some (Inl x, b1, m2) \<Rightarrow> Some (Inl x, m2)
           | Some (Inr _, b1, m2) \<Rightarrow> Some (rebalance_end w b1 m2)))"

definition add_group :: "world \<Rightarrow> shard_group \<Rightarrow> manager \<Rightarrow> ((exn + int \<times> str list \<times> int) \<times> manager) option" where
  "add_group w g m =
     (if sg_id g \<in> sg_id ` set (cf_shards (mg_config m))
      then Some (Inl (cluster_error (lit ''shard group '' @ [39] @ sg_id g @ [39] @ lit '' already exists'')), m)
      else case probe w (sg_primary g) m of
        (Inl x, m1) \<Rightarrow> Some (Inl x, m1)
      | (Inr answered, m1) \<Rightarrow>
          if \<not> answered then Some (Inl (cluster_error (sg_primary g @ lit '' is not reachable'')), m1)
          else case next_epoch (\<lambda>c. c\<lparr>cf_shards := cf_shards c @ [g]\<rparr>) (mg_config m1) of
            Inl x \<Rightarrow> Some (Inl x, m1)
          | Inr c \<Rightarrow> rebalance w (cf_ring_ids c @ [sg_id g]) (set_config c m1))"

definition remove_group :: "world \<Rightarrow> str \<Rightarrow> manager \<Rightarrow> ((exn + int \<times> str list \<times> int) \<times> manager) option" where
  "remove_group w shard m =
     (case cf_group shard (mg_config m) of
        Inl x \<Rightarrow> Some (Inl x, m)
      | Inr _ \<Rightarrow>
          let remaining = filter (\<lambda>s. s \<noteq> shard) (cf_ring_ids (mg_config m))
          in if remaining = [] then Some (Inl (cluster_error (lit ''cannot remove the last shard group'')), m)
             else rebalance w remaining m)"

end
