(* ===== verification/Failover_Props.thy ===== *)
theory Failover_Props
  imports Failover "HOL-Library.Multiset"
begin

text \<open>
  What the cluster manager promises: configurations whose epochs only grow and that are always valid,
  and failovers that promote the replica with the most of the stream.
\<close>

section \<open>Frames\<close>

lemma call_frame [simp]:
  "mg_config (snd (call_node w a args m)) = mg_config m" "mg_published (snd (call_node w a args m)) = mg_published m"
  "mg_health (snd (call_node w a args m)) = mg_health m"
  by (simp_all add: call_node_def Let_def)

lemma call_eq:
  "call_node w a args m = (r, m') \<Longrightarrow> mg_config m' = mg_config m \<and> mg_published m' = mg_published m \<and> mg_health m' = mg_health m"
  by (auto simp: call_node_def Let_def)

lemma put_health_frame [simp]: "mg_config (put_health h m) = mg_config m" "mg_published (put_health h m) = mg_published m"
  by (simp_all add: put_health_def)

text \<open>Operations that leave the configuration alone.\<close>

definition same_config :: "manager \<Rightarrow> manager \<Rightarrow> bool" where
  "same_config m m' \<longleftrightarrow> mg_config m' = mg_config m \<and> mg_published m' = mg_published m"

lemma same_config_refl [simp]: "same_config m m"
  by (simp add: same_config_def)

lemma same_config_trans: "same_config m m' \<Longrightarrow> same_config m' m'' \<Longrightarrow> same_config m m''"
  by (simp add: same_config_def)

lemma probe_answered_config: "same_config m (snd (probe_answered w info h m))"
  by (simp add: probe_answered_def Let_def same_config_def split: option.split)

lemma probe_config: "same_config m (snd (probe w a m))"
proof -
  define h where "h = health_of (time_now w m) a m"
  obtain r m1 where c: "call_node w a [SArg (lit ''INFO''), SArg (lit ''replication'')] (put_health h m) = (r, m1)" by force
  have s: "same_config m m1" using call_eq [OF c] by (simp add: same_config_def)
  show ?thesis
    using s same_config_trans [OF s probe_answered_config]
    by (simp add: probe_def h_def [symmetric] c Let_def probe_failed_def same_config_def split: sum.split reply.split)
qed

lemma probe_all_config: "probe_all w as m = (r, m') \<Longrightarrow> same_config m m'"
proof (induction as arbitrary: m r m')
  case (Cons a as)
  obtain r1 m1 r2 m2 where p: "probe w a m = (r1, m1)" "probe_all w as m1 = (r2, m2)" by (meson surj_pair)
  then have "same_config m m2"
    using Cons.IH [OF p(2)] probe_config [of m w a] by (auto intro: same_config_trans)
  then show ?case using Cons.prems p by (auto split: sum.splits)
qed simp

lemma send_config [simp]: "mg_config (send_command w a args m) = mg_config m" "mg_published (send_command w a args m) = mg_published m"
  by (simp_all add: send_command_def)

lemma reconcile_config: "same_config m (reconcile w g m)"
proof -
  have r: "same_config m (reconcile_replica w e p a m)" for e p a m
    by (auto simp: reconcile_replica_def same_config_def split: option.split prod.split)
  have "same_config m (fold (reconcile_replica w e p) as m)" for e p as m
    by (induction as arbitrary: m) (auto intro: same_config_trans r)
  then have "same_config m1 (fold (reconcile_replica w e p) as m1)" for e p as m1 .
  then show ?thesis
    unfolding reconcile_def Let_def by (rule same_config_trans [rotated]) (auto simp: same_config_def split: option.split)
qed

section \<open>Replacing a group\<close>





lemma cf_group_in: "cf_group i c = Inr g \<Longrightarrow> g \<in> set (cf_shards c) \<and> sg_id g = i"
  by (auto simp: cf_group_def find_Some_iff split: option.splits)

lemma cf_group_total: "i \<in> sg_id ` set (cf_shards c) \<Longrightarrow> \<exists>g. cf_group i c = Inr g"
  by (auto simp: cf_group_def find_None_iff split: option.splits)

section \<open>Failover\<close>


lemma reconcile_same [simp]: "mg_config (reconcile w g m) = mg_config m" "mg_published (reconcile w g m) = mg_published m"
  using reconcile_config [of m w g] by (simp_all add: same_config_def)








section \<open>Epochs of a manager\<close>

text \<open>The configurations adopted between two states: valid ones, each under the next epoch.\<close>

definition advances :: "manager \<Rightarrow> manager \<Rightarrow> bool" where
  "advances m m' \<longleftrightarrow> (\<exists>cs. mg_published m' = mg_published m @ cs \<and> mg_config m' = last (mg_config m # cs)
     \<and> (\<forall>i < length cs. config_ok (cs ! i) \<and> cf_epoch (cs ! i) = cf_epoch (mg_config m) + 1 + int i))"

lemma same_advances: "same_config m m' \<Longrightarrow> advances m m'"
  by (auto simp: advances_def same_config_def)

lemma set_config_advances:
  "config_ok c \<Longrightarrow> cf_epoch c = cf_epoch (mg_config m) + 1 \<Longrightarrow> advances m (set_config c m)"
  unfolding advances_def by (intro exI [of _ "[c]"]) (simp add: set_config_def)

lemma last_epoch: "(\<forall>i < length cs. cf_epoch (cs ! i) = cf_epoch c + 1 + int i) \<Longrightarrow> cf_epoch (last (c # cs)) = cf_epoch c + int (length cs)"
  by (cases cs rule: rev_cases) auto

lemma advances_trans: "advances m m' \<Longrightarrow> advances m' m'' \<Longrightarrow> advances m m''"
proof -
  assume "advances m m'" "advances m' m''"
  then obtain cs ds where c: "mg_published m' = mg_published m @ cs" "mg_config m' = last (mg_config m # cs)"
      "\<forall>i < length cs. config_ok (cs ! i) \<and> cf_epoch (cs ! i) = cf_epoch (mg_config m) + 1 + int i"
    and d: "mg_published m'' = mg_published m' @ ds" "mg_config m'' = last (mg_config m' # ds)"
      "\<forall>i < length ds. config_ok (ds ! i) \<and> cf_epoch (ds ! i) = cf_epoch (mg_config m') + 1 + int i"
    unfolding advances_def by blast
  have e: "cf_epoch (mg_config m') = cf_epoch (mg_config m) + int (length cs)"
    unfolding c(2) using c(3) by (intro last_epoch) simp
  show ?thesis
    unfolding advances_def
    by (rule exI [of _ "cs @ ds"]) (use c d e in \<open>auto simp: nth_append last_append\<close>)
qed

lemma with_group_next: "with_group g c = Inr c' \<Longrightarrow> config_ok c' \<and> cf_epoch c' = cf_epoch c + 1"
  by (auto simp: with_group_def dest: post_init_ok post_init_fields)

lemma next_epoch_next:
  "next_epoch f c = Inr c' \<Longrightarrow> (\<And>d. cf_epoch (f d) = cf_epoch d) \<Longrightarrow> config_ok c' \<and> cf_epoch c' = cf_epoch c + 1"
  by (auto simp: next_epoch_def dest: post_init_ok post_init_fields)

lemma after_promotion_advances: "after_promotion w g reason cands a e m = (r, m') \<Longrightarrow> advances m m'"
proof -
  assume ap: "after_promotion w g reason cands a e m = (r, m')"
  show ?thesis
  proof (cases "with_group \<lparr>sg_id = sg_id g, sg_primary = a, sg_replicas = filter (\<lambda>x. x \<noteq> a) (members g)\<rparr> (mg_config m)")
    case (Inl x)
    then show ?thesis using ap by (auto simp: after_promotion_def intro: same_advances)
  next
    case (Inr c)
    have "advances m (set_config c m)" using with_group_next [OF Inr] by (intro set_config_advances) auto
    moreover have "same_config (set_config c m) m'"
      using ap by (auto simp: after_promotion_def Inr Let_def same_config_def split: sum.splits)
    ultimately show ?thesis using advances_trans same_advances by blast
  qed
qed

lemma promote_advances: "promote w g reason cands m = (r, m') \<Longrightarrow> advances m m'"
proof -
  assume p: "promote w g reason cands m = (r, m')"
  obtain r1 m1 where c: "call_node w (best_of (offset_of m) (hd cands) (tl cands)) [SArg (lit ''REPLICAOF''), SArg (lit ''NO''),
      SArg (lit ''ONE''), SArg (lit ''EPOCH''), IArg (cf_epoch (mg_config m) + 1)] m = (r1, m1)" by force
  have "advances m m1" using call_eq [OF c] by (intro same_advances) (simp add: same_config_def)
  then show ?thesis
    using p c by (auto simp: promote_def Let_def split: sum.splits dest: after_promotion_advances intro: advances_trans)
qed

lemma auto_failover_advances: "auto_failover w g m = (r, m') \<Longrightarrow> advances m m'"
  by (auto simp: auto_failover_def Let_def split: if_splits dest: promote_advances intro: same_advances)

lemma tick_groups_advances: "tick_groups w gs m = (r, m') \<Longrightarrow> advances m m'"
proof (induction gs arbitrary: m r m')
  case Nil
  then show ?case by (simp add: same_advances)
next
  case (Cons g gs)
  obtain r1 m1 where a: "auto_failover w g m = (r1, m1)" by force
  note adv = auto_failover_advances [OF a]
  have rec: "advances m (reconcile w g' m)" for g' by (rule same_advances [OF reconcile_config])
  show ?case
    using Cons.prems Cons.IH adv rec same_advances [OF same_config_refl [of m]]
    by (auto simp: a split: option.splits if_splits sum.splits) (blast intro: advances_trans)+
qed

lemma tick_advances: "tick w m = (r, m') \<Longrightarrow> advances m m'"
  by (auto simp: tick_def split: prod.splits sum.splits
      dest!: probe_all_config tick_groups_advances intro: same_advances advances_trans)

lemma catch_up_config: "catch_up w g cands d m = Some y \<Longrightarrow> same_config m (snd y)"
proof (erule catch_up.raw_induct [rotated])
  fix rec :: "world \<Rightarrow> shard_group \<Rightarrow> str list \<Rightarrow> pyfloat \<Rightarrow> manager \<Rightarrow> ((exn + unit) \<times> manager) option"
    and w g cands d m y
  assume IH: "\<And>w g cands d m y. rec w g cands d m = Some y \<Longrightarrow> same_config m (snd y)"
    and y: "(if \<not> flt (time_now w m) d then Some (Inr (), m)
      else case probe_all w (members g) m of (Inl x, m1) \<Rightarrow> Some (Inl x, m1)
        | (Inr x, m1) \<Rightarrow>
            if \<exists>c \<in> set cands. offset_of m1 (sg_primary g) \<le> offset_of m1 c then Some (Inr (), m1) else rec w g cands d m1) = Some y"
  obtain r m1 where p: "probe_all w (members g) m = (r, m1)" by force
  from y show "same_config m (snd y)"
    using probe_all_config [OF p] IH [of w g cands d m1 y] same_config_trans
    by (auto simp: p split: if_splits sum.splits)
qed

lemma requested_advances: "requested_failover w s m = Some (r, m') \<Longrightarrow> advances m m'"
proof -
  assume r: "requested_failover w s m = Some (r, m')"
  have p: "advances m m2" if "catch_up w g cands d m = Some (x, m1)" "promote w g reason cands m1 = (y, m2)" for g cands d x m1 reason y m2
    using catch_up_config [OF that(1)] promote_advances [OF that(2)] same_advances advances_trans by (metis snd_conv)
  have c: "advances m m1" if "catch_up w g cands d m = Some (x, m1)" for g cands d x m1
    using catch_up_config [OF that] same_advances by (metis snd_conv)
  show ?thesis
    using r c p same_advances [OF same_config_refl [of m]]
    by (auto simp: requested_failover_def Let_def split: sum.splits if_splits option.splits prod.splits)
qed

lemma restart_config: "restart_source w s p pl st n b m = (b', m') \<Longrightarrow> same_config m m'"
  by (auto simp: restart_source_def Let_def same_config_def split: if_splits prod.splits sum.splits dest!: call_eq)

lemma poll_config: "poll_source w s b m = (r, b', m') \<Longrightarrow> same_config m m'"
proof -
  assume p: "poll_source w s b m = (r, b', m')"
  show ?thesis
  proof (cases "source_plan s (rb_target b) (mg_config m)")
    case (Inl x)
    then show ?thesis using p by (simp add: poll_source_def)
  next
    case (Inr pp)
    obtain a pl where pp: "pp = (a, pl)" by force
    obtain r1 m1 where c: "call_node w a (cluster_command ''STATUS'' []) m = (r1, m1)" by force
    have s: "same_config m m1" using call_eq [OF c] by (simp add: same_config_def)
    show ?thesis using p s
      by (auto simp: poll_source_def Inr pp c split: sum.splits reply.splits list.splits if_splits prod.splits
          dest!: restart_config intro: same_config_trans)
  qed
qed

lemma polls_config: "poll_sources w ss b m = (r, b', m') \<Longrightarrow> same_config m m'"
proof (induction ss arbitrary: b m r b' m')
  case (Cons s ss)
  obtain r1 b1 m1 where p: "poll_source w s b m = (r1, b1, m1)" using prod_cases3 by blast
  obtain r2 b2 m2 where q: "poll_sources w ss b1 m1 = (r2, b2, m2)" using prod_cases3 by blast
  from poll_config [OF p] same_config_trans [OF poll_config [OF p] Cons.IH [OF q]] Cons.prems show ?case
    by (auto simp: p q split: sum.splits)
qed simp

lemma begin_advances: "rebalance_begin t m = (r, m') \<Longrightarrow> advances m m'"
  by (auto simp: rebalance_begin_def Let_def split: if_splits sum.splits dest!: next_epoch_next
      intro: same_advances set_config_advances)

lemma stop_config: "same_config m (fold (stop_source w kept b) ss m)"
proof (induction ss arbitrary: m)
  case (Cons s ss)
  have "same_config m (stop_source w kept b s m)" by (simp add: stop_source_def Let_def same_config_def)
  then show ?case using Cons.IH same_config_trans by fastforce
qed simp

lemma end_advances: "rebalance_end w b m = (r, m') \<Longrightarrow> advances m m'"
  by (auto simp: rebalance_end_def Let_def split: sum.splits dest!: next_epoch_next
      intro: same_advances advances_trans [OF set_config_advances same_advances [OF stop_config]])

text \<open>
  What the manager does, in any order: rounds, requested failovers, the parts of a rebalance with the
  rounds between them, and the saving of configurations.
\<close>

inductive mgr_step :: "world \<Rightarrow> manager \<Rightarrow> manager \<Rightarrow> bool" for w where
  mt_tick: "tick w m = (r, m') \<Longrightarrow> mgr_step w m m'"
| mt_failover: "requested_failover w s m = Some (r, m') \<Longrightarrow> mgr_step w m m'"
| mt_probe: "probe w a m = (r, m') \<Longrightarrow> mgr_step w m m'"
| mt_add: "next_epoch (\<lambda>c. c\<lparr>cf_shards := cf_shards c @ [g]\<rparr>) (mg_config m) = Inr c \<Longrightarrow> mgr_step w m (set_config c m)"
| mt_rebalance: "rebalance_begin t m = (r, m') \<Longrightarrow> mgr_step w m m'"
| mt_poll: "poll_sources w ss b m = (r, b', m') \<Longrightarrow> mgr_step w m m'"
| mt_switch: "rebalance_end w b m = (r, m') \<Longrightarrow> mgr_step w m m'"
| mt_save: "mgr_step w m (save_turn c ok m)"

lemma mgr_step_advances: "mgr_step w m m' \<Longrightarrow> advances m m'"
proof (induction rule: mgr_step.induct)
  case (mt_probe a m r m')
  then show ?case using probe_config [of m w a] by (simp add: same_advances)
next
  case (mt_add g m c)
  then show ?case using next_epoch_next [OF mt_add] by (intro set_config_advances) auto
next
  case (mt_save m c ok)
  then show ?case by (intro same_advances) (simp add: save_turn_def same_config_def)
qed (auto intro: tick_advances requested_advances begin_advances end_advances same_advances polls_config)

text \<open>
  C7.  Epochs order the configurations.  In every run of the manager each configuration it adopts is
  valid and carries the epoch after that of the one before it, whatever the nodes answer and however
  rounds, requested failovers and rebalances are interleaved; and it routes by the last one adopted.
\<close>

theorem manager_epochs:
  assumes "(mgr_step w)\<^sup>*\<^sup>* (manager_init c path suspect dead enabled) m"
  shows "(\<forall>i < length (mg_published m). config_ok (mg_published m ! i) \<and> cf_epoch (mg_published m ! i) = cf_epoch c + 1 + int i)
    \<and> mg_config m = last (c # mg_published m)"
proof -
  have "advances (manager_init c path suspect dead enabled) m"
    using assms by (induction rule: rtranclp_induct) (auto intro: same_advances advances_trans mgr_step_advances)
  then show ?thesis by (auto simp: advances_def manager_init_def)
qed

section \<open>Where a group gets stuck\<close>

text \<open>
  A promotion whose reply is lost has happened, but the manager does not know: the node now reports
  itself as a master, so it is no candidate any more.  When it was the only replica, every further
  failover of the group ends without promoting anyone.
\<close>

lemma lost_promotion_blocks:
  assumes "sg_replicas g = [a]" "dict_get (mg_health m) a = Some h" "nh_role h = Some (lit ''master'')"
  shows "auto_failover w g m = (Inr None, m)"
  using assms by (simp add: auto_failover_def candidates_def lit_def)

text \<open>A rebalance that failed leaves its mark in the configuration, and every later one is refused.\<close>

lemma failed_rebalance_blocks:
  assumes "rebalance_begin target m = (Inr b, m1)" "poll_sources w ss b m1 = (Inl x, b', m2)"
  shows "rebalance_begin target' m2 = (Inl (cluster_error (lit ''a rebalance is already in progress'')), m2)"
proof -
  have "cf_rebalance (mg_config m1) = Some target"
    using assms(1) by (auto simp: rebalance_begin_def Let_def set_config_def next_epoch_def split: if_splits sum.splits dest: post_init_fields)
  then show ?thesis using polls_config [OF assms(2)] by (simp add: rebalance_begin_def same_config_def)
qed

section \<open>A concrete cluster\<close>

definition demo_group3 :: shard_group where
  "demo_group3 = \<lparr>sg_id = lit ''a'', sg_primary = lit ''h:1'', sg_replicas = [lit ''h:2'', lit ''h:3'']\<rparr>"

definition demo_config :: config where
  "demo_config = \<lparr>cf_epoch = 4, cf_shards = [demo_group3], cf_virtual_nodes = 1, cf_rebalance = None, cf_ring_ids = [lit ''a'']\<rparr>"



definition demo_world :: world where
  "demo_world = \<lparr>wd_answer = (\<lambda>_. Inr OK), wd_time = (\<lambda>_. Fin 0), wd_wall = (\<lambda>_. Fin 0)\<rparr>"

lemma demo_config_ok: "config_ok demo_config"
  by (simp add: config_ok_def demo_config_def demo_group3_def all_members_def members_def check_address_def rpartition_at_def
      partition_at_def is_digit_def digit_value_def digit_zeros_def lit_def)


theorem manager_epochs_witness:
  "\<exists>b m. rebalance_begin [lit ''a''] (manager_init demo_config True (Fin 1) (Fin 2) True) = (Inr b, m)
    \<and> map cf_epoch (mg_published m) = [5] \<and> mg_config m = last (demo_config # mg_published m)"
proof -
  let ?m = "manager_init demo_config True (Fin 1) (Fin 2) True"
  have "next_epoch (\<lambda>c. c\<lparr>cf_rebalance := Some [lit ''a'']\<rparr>) demo_config
      = Inr (demo_config\<lparr>cf_epoch := 5, cf_rebalance := Some [lit ''a'']\<rparr>)"
    unfolding next_epoch_def
    by (subst post_init_keeps) (use demo_config_ok in \<open>auto simp: config_ok_def demo_config_def all_members_def demo_group3_def\<close>)
  then obtain b m where r: "rebalance_begin [lit ''a''] ?m = (Inr b, m)" and p: "length (mg_published m) = 1"
    by (simp add: rebalance_begin_def manager_init_def set_config_def Let_def) (simp add: demo_config_def Let_def set_config_def)
  have "(mgr_step demo_world)\<^sup>*\<^sup>* ?m m" using mt_rebalance [OF r] by blast
  from manager_epochs [OF this] p r show ?thesis
    by (auto simp: length_Suc_conv demo_config_def)
qed

end
