(* ===== verification/Spec2Isabelle.thy ===== *)
theory Spec2Isabelle
  imports Snapshot_Roundtrip Aof_Replay Resp_Reply Handler_Effects Primary_Stream Repl_History Node_Props Migration_Props Failover_Props
begin

text \<open>
  A verification development for the key-value store under \<open>src/src/kvstore\<close>.
\<close>

end
